(* ===== verification/Prelude.thy ===== *)
theory Prelude
  imports Main "HOL-Library.Word" "HOL-Library.Monad_Syntax"
begin

text \<open>
  Shared vocabulary of the development: the machine integers of the Go program, the
  reading of a Go panic as \<open>None\<close>, slices, the byte orders of \<open>encoding/binary\<close>,
  and the generic lemmas on lists, options and words that the component theories use.

  Conventions.  A Go function that may panic (an out-of-range slice or index) returns an
  \<open>option\<close> whose \<open>None\<close> is the panic.  A Go function with an error result returns
  a sum whose \<open>Inl\<close> side carries the error.  \<open>uint8/16/32/64\<close> are words of that
  width; \<open>int\<close> and \<open>int64\<close> values that the code never lets overflow are \<open>int\<close>
  or \<open>nat\<close>.
\<close>

unbundle bit_operations_syntax

named_theorems codec_simps "equations that evaluate and invert the byte codecs"
named_theorems slice_simps "equations that evaluate in-range slices"
named_theorems go_defs "definitions of the small arithmetic helpers of the program"

type_synonym u8 = "8 word"
type_synonym u16 = "16 word"
type_synonym u32 = "32 word"
type_synonym u64 = "64 word"
type_synonym bytes = "u8 list"

section \<open>Lists\<close>

lemma concat_map_length_const:
  "(\<And>x. x \<in> set xs \<Longrightarrow> length (f x) = w) \<Longrightarrow> length (concat (map f xs)) = w * length xs"
  by (induction xs) auto

lemma nth_take_drop [slice_simps]:
  "a + n \<le> length xs \<Longrightarrow> i < n \<Longrightarrow> take n (drop a xs) ! i = xs ! (a + i)"
  by simp

lemma take_drop_concat_map:
  assumes len: "\<And>x. x \<in> set xs \<Longrightarrow> length (f x) = w" and i: "i < length xs"
  shows "take w (drop (w * i) (concat (map f xs))) = f (xs ! i)"
  using assms
proof (induction xs arbitrary: i)
  case Nil
  then show ?case by simp
next
  case (Cons x xs)
  then show ?case by (cases i) (auto simp: nth_Cons')
qed

lemma sum_list_map_add:
  "sum_list (map (\<lambda>x. f x + g x) xs) = sum_list (map f xs) + (sum_list (map g xs) :: 'a::comm_monoid_add)"
  by (induction xs) (auto simp: algebra_simps)

section \<open>Slices that may panic\<close>

text \<open>
  \<open>xs[a:b]\<close>.  Go checks \<open>b\<close> against the capacity, the model against the length,
  which is stricter: code proved free of panics here does not panic there, and reads no
  byte behind the packet.
\<close>

definition goSlice :: "'a list \<Rightarrow> nat \<Rightarrow> nat \<Rightarrow> 'a list option" where
  "goSlice xs a b = (if a \<le> b \<and> b \<le> length xs then Some (take (b - a) (drop a xs)) else None)"

lemma goSlice_in_range [slice_simps]:
  "a \<le> b \<Longrightarrow> b \<le> length xs \<Longrightarrow> goSlice xs a b = Some (take (b - a) (drop a xs))"
  by (simp add: goSlice_def)

lemma goSlice_length: "goSlice xs a b = Some ys \<Longrightarrow> length ys = b - a"
  by (auto simp: goSlice_def split: if_splits)

text \<open>\<open>xs[i]\<close>.\<close>

definition index_at :: "'a list \<Rightarrow> nat \<Rightarrow> 'a option" where
  "index_at xs i = (if i < length xs then Some (xs ! i) else None)"

lemma index_at_in_range [slice_simps]: "i < length xs \<Longrightarrow> index_at xs i = Some (xs ! i)"
  by (simp add: index_at_def)

section \<open>Byte orders (\<open>encoding/binary\<close>)\<close>

definition be16 :: "u8 \<Rightarrow> u8 \<Rightarrow> u16" where
  "be16 a b = ucast b OR push_bit 8 (ucast a)"

definition be32 :: "u8 \<Rightarrow> u8 \<Rightarrow> u8 \<Rightarrow> u8 \<Rightarrow> u32" where
  "be32 a b c d =
     ucast d OR push_bit 8 (ucast c) OR push_bit 16 (ucast b) OR push_bit 24 (ucast a)"

definition beUint16 :: "bytes \<Rightarrow> u16 option" where
  "beUint16 bs = (case bs of a # b # _ \<Rightarrow> Some (be16 a b) | _ \<Rightarrow> None)"

definition beUint32 :: "bytes \<Rightarrow> u32 option" where
  "beUint32 bs = (case bs of a # b # c # d # _ \<Rightarrow> Some (be32 a b c d) | _ \<Rightarrow> None)"

definition putBE16 :: "u16 \<Rightarrow> bytes" where
  "putBE16 v = [ucast (drop_bit 8 v), ucast v]"

definition putBE32 :: "u32 \<Rightarrow> bytes" where
  "putBE32 v = [ucast (drop_bit 24 v), ucast (drop_bit 16 v), ucast (drop_bit 8 v), ucast v]"

definition putLE16 :: "u16 \<Rightarrow> bytes" where
  "putLE16 v = [ucast v, ucast (drop_bit 8 v)]"

definition putLE32 :: "u32 \<Rightarrow> bytes" where
  "putLE32 v = [ucast v, ucast (drop_bit 8 v), ucast (drop_bit 16 v), ucast (drop_bit 24 v)]"

lemma length_put [simp]:
  "length (putBE16 v) = 2" "length (putBE32 w) = 4"
  "length (putLE16 v) = 2" "length (putLE32 w) = 4"
  by (simp_all add: putBE16_def putBE32_def putLE16_def putLE32_def)

lemma be16_split [codec_simps]: "be16 (ucast (drop_bit 8 v)) (ucast v) = v"
  by (rule bit_word_eqI)
    (auto simp: be16_def bit_simps dest: bit_imp_le_length)

lemma be32_split [codec_simps]:
  "be32 (ucast (drop_bit 24 v)) (ucast (drop_bit 16 v)) (ucast (drop_bit 8 v)) (ucast v) = v"
proof (rule bit_word_eqI)
  fix n
  assume "n < LENGTH(32)"
  then consider "n < 8" | "8 \<le> n \<and> n < 16" | "16 \<le> n \<and> n < 24" | "24 \<le> n \<and> n < 32"
    by fastforce
  then show "bit (be32 (ucast (drop_bit 24 v)) (ucast (drop_bit 16 v))
               (ucast (drop_bit 8 v)) (ucast v)) n = bit v n"
    by cases (auto simp: be32_def bit_simps)
qed

lemma beUint16_put [codec_simps]: "beUint16 (putBE16 v @ rest) = Some v"
  by (simp add: beUint16_def putBE16_def be16_split)

lemma beUint32_put [codec_simps]: "beUint32 (putBE32 v @ rest) = Some v"
  by (simp add: beUint32_def putBE32_def be32_split)

text \<open>Reading a big-endian value at an offset, as in \<open>binary.BigEndian.Uint32(xs[a:a+4])\<close>.\<close>

definition u16At :: "bytes \<Rightarrow> nat \<Rightarrow> u16 option" where
  "u16At xs a = goSlice xs a (a + 2) \<bind> beUint16"

definition u32At :: "bytes \<Rightarrow> nat \<Rightarrow> u32 option" where
  "u32At xs a = goSlice xs a (a + 4) \<bind> beUint32"

text \<open>The same reads as total functions, meaningful where the offset is in range.\<close>

definition word16 :: "bytes \<Rightarrow> nat \<Rightarrow> u16" where
  "word16 xs a = be16 (xs ! a) (xs ! (a + 1))"

definition word32 :: "bytes \<Rightarrow> nat \<Rightarrow> u32" where
  "word32 xs a = be32 (xs ! a) (xs ! (a + 1)) (xs ! (a + 2)) (xs ! (a + 3))"

lemma take_2_drop: "a + 2 \<le> length xs \<Longrightarrow> take 2 (drop a xs) = [xs ! a, xs ! (a + 1)]"
  by (rule nth_equalityI) (auto simp: less_Suc_eq nth_Cons' numeral_eq_Suc)

lemma take_4_drop:
  "a + 4 \<le> length xs \<Longrightarrow> take 4 (drop a xs) = [xs ! a, xs ! (a + 1), xs ! (a + 2), xs ! (a + 3)]"
  by (rule nth_equalityI) (auto simp: less_Suc_eq nth_Cons' numeral_eq_Suc)

lemma u16At_in_range [slice_simps]: "a + 2 \<le> length xs \<Longrightarrow> u16At xs a = Some (word16 xs a)"
  by (simp add: u16At_def goSlice_in_range take_2_drop beUint16_def word16_def)

lemma u32At_in_range [slice_simps]: "a + 4 \<le> length xs \<Longrightarrow> u32At xs a = Some (word32 xs a)"
  by (simp add: u32At_def goSlice_in_range take_4_drop beUint32_def word32_def)

text \<open>A value written at an offset reads back: the store and the read agree.\<close>

lemma word32_put:
  "take 4 (drop a xs) = putBE32 v \<Longrightarrow> word32 xs a = v"
proof -
  assume eq: "take 4 (drop a xs) = putBE32 v"
  then have "length (take 4 (drop a xs)) = 4" by simp
  then have "a + 4 \<le> length xs" by auto
  from take_4_drop [OF this] eq
  have "[xs ! a, xs ! (a + 1), xs ! (a + 2), xs ! (a + 3)] = putBE32 v" by metis
  then show ?thesis
    by (auto simp: word32_def putBE32_def be32_split)
qed

lemma word16_put:
  "take 2 (drop a xs) = putBE16 v \<Longrightarrow> word16 xs a = v"
proof -
  assume eq: "take 2 (drop a xs) = putBE16 v"
  then have "length (take 2 (drop a xs)) = 2" by simp
  then have "a + 2 \<le> length xs" by auto
  from take_2_drop [OF this] eq
  have "[xs ! a, xs ! (a + 1)] = putBE16 v" by metis
  then show ?thesis
    by (auto simp: word16_def putBE16_def be16_split)
qed

end
