(* ===== verification/Packet.thy ===== *)
theory Packet
  imports Prelude
begin

text \<open>
  The Huawei CGN packet parser of \<open>main.go\<close> (\<open>timestampWithFallback\<close>,
  \<open>parseMultiRecordPacket\<close>, \<open>parseLegacyPacket\<close>, \<open>parsePacket\<close>) and its record
  \<open>NATLogEntry\<close>.  Every slice of the code is a \<open>goSlice\<close> or \<open>u32At\<close> here, so a
  result \<open>Some _\<close> says that no read of the code leaves the packet.  \<open>time.Now()\<close> is
  a clock \<open>nat \<Rightarrow> u32\<close>: the \<open>n\<close>-th read of the clock while one packet is parsed.
\<close>

section \<open>Data\<close>

record NATLogEntry =
  EventTime :: u32
  StartTime :: u32
  EndTime :: u32
  RouterIP :: u32
  RouterPort :: u16
  ProtocolID :: u8
  PrivateIP :: u32
  PrivatePort :: u16
  PublicIP :: u32
  PublicPort :: u16
  DestinationIP :: u32
  DestinationPort :: u16
  PacketSize :: u16

datatype parse_error =
    InvalidMultiPacketSize int int
  | RecordOutOfBounds nat nat nat nat
  | LegacyPacketTooShort nat
  | PacketTooShortForHeader nat

definition generalHeaderSize :: nat where "generalHeaderSize = 16"
definition recordSize :: nat where "recordSize = 64"

declare generalHeaderSize_def [go_defs] recordSize_def [go_defs]

section \<open>Timestamps\<close>

definition timestampWithFallback :: "u32 \<Rightarrow> u32 \<Rightarrow> int \<Rightarrow> u32 \<Rightarrow> u32" where
  "timestampWithFallback primary packetTimestamp receivedUnixNano now =
     (if primary \<noteq> 0 then primary
      else if packetTimestamp \<noteq> 0 then packetTimestamp
      else if receivedUnixNano > 0 then word_of_int (receivedUnixNano div 1000000000)
      else now)"

section \<open>Packets of several records\<close>

text \<open>One record of 64 bytes; \<open>clk\<close> is the number of clock reads before it.\<close>

definition parseRecord ::
  "nat \<Rightarrow> u32 \<Rightarrow> u16 \<Rightarrow> int \<Rightarrow> (nat \<Rightarrow> u32) \<Rightarrow> u32 \<Rightarrow> nat \<Rightarrow> bytes \<Rightarrow> NATLogEntry option" where
  "parseRecord packetSize routerIP routerPort received clock packetTimestamp recordIndex record = do {
     privateIP \<leftarrow> u32At record 4;
     publicIP \<leftarrow> u32At record 8;
     destinationIP \<leftarrow> u32At record 12;
     privatePort \<leftarrow> u16At record 20;
     publicPort \<leftarrow> u16At record 22;
     destinationPort \<leftarrow> u16At record 24;
     startRaw \<leftarrow> u32At record 28;
     endRaw \<leftarrow> u32At record 32;
     let startTimestamp =
       timestampWithFallback startRaw packetTimestamp received (clock (2 * recordIndex));
     let endTimestamp =
       timestampWithFallback endRaw packetTimestamp received (clock (2 * recordIndex + 1));
     Some \<lparr>EventTime = endTimestamp, StartTime = startTimestamp, EndTime = endTimestamp,
           RouterIP = routerIP, RouterPort = routerPort, ProtocolID = 0,
           PrivateIP = privateIP, PrivatePort = privatePort,
           PublicIP = publicIP, PublicPort = publicPort,
           DestinationIP = destinationIP, DestinationPort = destinationPort,
           PacketSize = word_of_nat packetSize\<rparr>
   }"

text \<open>
  The \<open>for recordIndex\<close> loop over the remaining indices, with the entries appended so far.
\<close>

fun multiRecordLoop ::
  "bytes \<Rightarrow> u32 \<Rightarrow> u16 \<Rightarrow> int \<Rightarrow> (nat \<Rightarrow> u32) \<Rightarrow> u32 \<Rightarrow> nat list \<Rightarrow> NATLogEntry list
    \<Rightarrow> (parse_error + NATLogEntry list) option" where
  "multiRecordLoop bs routerIP routerPort received clock packetTimestamp [] entries =
     Some (Inr entries)"
| "multiRecordLoop bs routerIP routerPort received clock packetTimestamp (i # is) entries =
     (let recordStart = generalHeaderSize + i * recordSize;
          recordEnd = recordStart + recordSize
      in if recordEnd > length bs
         then Some (Inl (RecordOutOfBounds i recordStart recordEnd (length bs)))
         else do {
           record \<leftarrow> goSlice bs recordStart recordEnd;
           entry \<leftarrow> parseRecord (length bs) routerIP routerPort received clock packetTimestamp i record;
           multiRecordLoop bs routerIP routerPort received clock packetTimestamp is (entries @ [entry])
         })"

definition parseMultiRecordPacket ::
  "bytes \<Rightarrow> u32 \<Rightarrow> u16 \<Rightarrow> int \<Rightarrow> (nat \<Rightarrow> u32) \<Rightarrow> (parse_error + NATLogEntry list) option" where
  "parseMultiRecordPacket bs routerIP routerPort received clock =
     (let packetSize = int (length bs);
          recordsBytes = packetSize - int generalHeaderSize
      in if recordsBytes \<le> 0 \<or> recordsBytes mod int recordSize \<noteq> 0
         then Some (Inl (InvalidMultiPacketSize packetSize recordsBytes))
         else do {
           packetTimestamp \<leftarrow> (if length bs \<ge> 8 then u32At bs 4 else Some 0);
           let totalRecords = nat (recordsBytes div int recordSize);
           multiRecordLoop bs routerIP routerPort received clock packetTimestamp
             [0..<totalRecords] []
         })"

section \<open>Legacy packets of one record\<close>

definition parseLegacyPacket ::
  "bytes \<Rightarrow> u32 \<Rightarrow> u16 \<Rightarrow> int \<Rightarrow> (nat \<Rightarrow> u32) \<Rightarrow> (parse_error + NATLogEntry list) option" where
  "parseLegacyPacket bs routerIP routerPort received clock =
     (if length bs < 42 then Some (Inl (LegacyPacketTooShort (length bs)))
      else do {
        raw \<leftarrow> u32At bs 4;
        let eventTimestamp = timestampWithFallback raw 0 received (clock 0);
        protocolID \<leftarrow> index_at bs 11;
        privateIP \<leftarrow> u32At bs 20;
        privatePort \<leftarrow> u16At bs 36;
        publicIP \<leftarrow> u32At bs 24;
        publicPort \<leftarrow> u16At bs 38;
        destinationIP \<leftarrow> u32At bs 28;
        destinationPort \<leftarrow> u16At bs 40;
        Some (Inr [\<lparr>EventTime = eventTimestamp, StartTime = eventTimestamp,
                    EndTime = eventTimestamp, RouterIP = routerIP, RouterPort = routerPort,
                    ProtocolID = protocolID, PrivateIP = privateIP, PrivatePort = privatePort,
                    PublicIP = publicIP, PublicPort = publicPort,
                    DestinationIP = destinationIP, DestinationPort = destinationPort,
                    PacketSize = word_of_nat (length bs)\<rparr>])
      })"

section \<open>Dispatch on the packet size\<close>

definition parsePacket ::
  "bytes \<Rightarrow> u32 \<Rightarrow> u16 \<Rightarrow> int \<Rightarrow> (nat \<Rightarrow> u32) \<Rightarrow> (parse_error + NATLogEntry list) option" where
  "parsePacket bs routerIP routerPort received clock =
     (if length bs < 4 then Some (Inl (PacketTooShortForHeader (length bs)))
      else if length bs \<ge> generalHeaderSize + recordSize
           \<and> (length bs - generalHeaderSize) mod recordSize = 0
      then parseMultiRecordPacket bs routerIP routerPort received clock
      else parseLegacyPacket bs routerIP routerPort received clock)"

section \<open>What the parsers compute\<close>

text \<open>
  The reference reading: the entry of record \<open>i\<close>, and the entry of a legacy packet, written
  with total reads at fixed offsets of the packet.
\<close>

definition recordEntryAt ::
  "bytes \<Rightarrow> u32 \<Rightarrow> u16 \<Rightarrow> int \<Rightarrow> (nat \<Rightarrow> u32) \<Rightarrow> nat \<Rightarrow> NATLogEntry" where
  "recordEntryAt bs routerIP routerPort received clock i =
     (let b = 16 + 64 * i;
          endTs = timestampWithFallback (word32 bs (b + 32)) (word32 bs 4) received (clock (2 * i + 1));
          startTs = timestampWithFallback (word32 bs (b + 28)) (word32 bs 4) received (clock (2 * i))
      in \<lparr>EventTime = endTs, StartTime = startTs, EndTime = endTs,
          RouterIP = routerIP, RouterPort = routerPort, ProtocolID = 0,
          PrivateIP = word32 bs (b + 4), PrivatePort = word16 bs (b + 20),
          PublicIP = word32 bs (b + 8), PublicPort = word16 bs (b + 22),
          DestinationIP = word32 bs (b + 12), DestinationPort = word16 bs (b + 24),
          PacketSize = word_of_nat (length bs)\<rparr>)"

definition legacyEntry ::
  "bytes \<Rightarrow> u32 \<Rightarrow> u16 \<Rightarrow> int \<Rightarrow> (nat \<Rightarrow> u32) \<Rightarrow> NATLogEntry" where
  "legacyEntry bs routerIP routerPort received clock =
     (let ts = timestampWithFallback (word32 bs 4) 0 received (clock 0)
      in \<lparr>EventTime = ts, StartTime = ts, EndTime = ts,
          RouterIP = routerIP, RouterPort = routerPort, ProtocolID = bs ! 11,
          PrivateIP = word32 bs 20, PrivatePort = word16 bs 36,
          PublicIP = word32 bs 24, PublicPort = word16 bs 38,
          DestinationIP = word32 bs 28, DestinationPort = word16 bs 40,
          PacketSize = word_of_nat (length bs)\<rparr>)"

definition isMultiSize :: "nat \<Rightarrow> bool" where
  "isMultiSize n = (80 \<le> n \<and> (n - 16) mod 64 = 0)"

lemma word32_take_drop:
  "a + n \<le> length xs \<Longrightarrow> k + 4 \<le> n \<Longrightarrow> word32 (take n (drop a xs)) k = word32 xs (a + k)"
  by (simp add: word32_def add.assoc)

lemma word16_take_drop:
  "a + n \<le> length xs \<Longrightarrow> k + 2 \<le> n \<Longrightarrow> word16 (take n (drop a xs)) k = word16 xs (a + k)"
  by (simp add: word16_def add.assoc)

lemma parseRecord_slice:
  assumes "16 + 64 * i + 64 \<le> length bs"
  shows "parseRecord (length bs) routerIP routerPort received clock (word32 bs 4) i
           (take 64 (drop (16 + i * 64) bs))
         = Some (recordEntryAt bs routerIP routerPort received clock i)"
  using assms
  by (simp add: parseRecord_def recordEntryAt_def slice_simps word32_take_drop word16_take_drop Let_def mult.commute)

lemma multiRecordLoop_eq:
  assumes "\<And>i. i \<in> set is \<Longrightarrow> 16 + 64 * i + 64 \<le> length bs"
  shows "multiRecordLoop bs routerIP routerPort received clock (word32 bs 4) is entries
         = Some (Inr (entries @ map (recordEntryAt bs routerIP routerPort received clock) is))"
  using assms
proof (induction "is" arbitrary: entries)
  case Nil
  then show ?case by simp
next
  case (Cons i "is")
  have i: "16 + 64 * i + 64 \<le> length bs" by (rule Cons.prems) simp
  then have "80 + i * 64 \<le> length bs" by simp
  with Cons.IH Cons.prems(1) parseRecord_slice [OF i, of routerIP routerPort received clock]
  show ?case by (auto simp: go_defs goSlice_in_range Let_def)
qed

lemma isMultiSize_iff: "isMultiSize n \<longleftrightarrow> (\<exists>k > 0. n = 16 + 64 * k)"
proof
  assume m: "isMultiSize n"
  then obtain k where "n - 16 = 64 * k" by (auto simp: isMultiSize_def dvd_def mod_eq_0_iff_dvd)
  with m show "\<exists>k > 0. n = 16 + 64 * k"
    by (intro exI [of _ k]) (auto simp: isMultiSize_def)
qed (auto simp: isMultiSize_def)

lemma isMultiSize_conv:
  "isMultiSize n \<longleftrightarrow> 0 < int n - 16 \<and> (int n - 16) mod 64 = 0"
proof
  assume "0 < int n - 16 \<and> (int n - 16) mod 64 = 0"
  then obtain k where k: "int n - 16 = 64 * k" "0 < k" by (auto simp: dvd_def mod_eq_0_iff_dvd)
  then have "n = 16 + 64 * nat k" "0 < nat k" by linarith+
  then show "isMultiSize n" by (auto simp: isMultiSize_iff)
qed (auto simp: isMultiSize_iff)

lemma isMultiSize_record_in_range:
  "isMultiSize n \<Longrightarrow> i < (n - 16) div 64 \<Longrightarrow> 16 + 64 * i + 64 \<le> n"
  by (auto simp: isMultiSize_iff)

lemma nat_records: "16 \<le> n \<Longrightarrow> nat ((int n - 16) div 64) = (n - 16) div 64"
  by (simp add: nat_div_distrib flip: of_nat_diff)

lemma parseMultiRecordPacket_eq:
  "parseMultiRecordPacket bs routerIP routerPort received clock =
     Some (if isMultiSize (length bs)
           then Inr (map (recordEntryAt bs routerIP routerPort received clock)
                       [0..<(length bs - 16) div 64])
           else Inl (InvalidMultiPacketSize (int (length bs)) (int (length bs) - 16)))"
proof (cases "isMultiSize (length bs)")
  case True
  then have len: "80 \<le> length bs" by (simp add: isMultiSize_def)
  have "multiRecordLoop bs routerIP routerPort received clock (word32 bs 4)
          [0..<(length bs - 16) div 64] []
        = Some (Inr ([] @ map (recordEntryAt bs routerIP routerPort received clock)
            [0..<(length bs - 16) div 64]))"
    by (rule multiRecordLoop_eq) (use True in \<open>auto intro: isMultiSize_record_in_range\<close>)
  with True len show ?thesis
    by (simp add: parseMultiRecordPacket_def go_defs isMultiSize_conv slice_simps nat_records Let_def)
next
  case False
  then show ?thesis
    by (auto simp: parseMultiRecordPacket_def go_defs isMultiSize_conv Let_def)
qed

lemma parseLegacyPacket_eq:
  "parseLegacyPacket bs routerIP routerPort received clock =
     Some (if length bs < 42 then Inl (LegacyPacketTooShort (length bs))
           else Inr [legacyEntry bs routerIP routerPort received clock])"
  by (simp add: parseLegacyPacket_def legacyEntry_def slice_simps Let_def)

lemma parsePacket_eq:
  "parsePacket bs routerIP routerPort received clock =
     Some (if length bs < 4 then Inl (PacketTooShortForHeader (length bs))
           else if isMultiSize (length bs)
           then Inr (map (recordEntryAt bs routerIP routerPort received clock)
                       [0..<(length bs - 16) div 64])
           else if length bs < 42 then Inl (LegacyPacketTooShort (length bs))
           else Inr [legacyEntry bs routerIP routerPort received clock])"
  by (simp add: parsePacket_def parseMultiRecordPacket_eq parseLegacyPacket_eq go_defs isMultiSize_def)

text \<open>
  C11. The packet parser, on every input: it never reads outside the packet (no panic), the
  error \<open>record_out_of_bounds\<close> cannot occur, a packet of a multi-record size yields exactly
  one entry per 64-byte record in order, read at the documented offsets, any other packet of
  at least 42 bytes yields the one legacy entry, and shorter packets are rejected.
\<close>

theorem parsePacket_total:
  "parsePacket bs routerIP routerPort received clock =
     Some (if length bs < 4 then Inl (PacketTooShortForHeader (length bs))
           else if isMultiSize (length bs)
           then Inr (map (recordEntryAt bs routerIP routerPort received clock)
                       [0..<(length bs - 16) div 64])
           else if length bs < 42 then Inl (LegacyPacketTooShort (length bs))
           else Inr [legacyEntry bs routerIP routerPort received clock])"
  by (rule parsePacket_eq)

end
