(* ===== verification/RowBinary.thy ===== *)
theory RowBinary
  imports Packet
begin

text \<open>
  The ClickHouse \<open>RowBinary\<close> encoder of \<open>main.go\<close> (\<open>appendUInt8/16/32\<close>,
  \<open>appendRowBinaryEvent\<close>) and its contract.  The contract is the locale
  \<open>fixed_codec\<close>: an encoder of constant width with a decoder that recovers a view of the
  value.  A body built by appending encodings then decodes to exactly the rows appended, in
  order; \<open>row_codec\<close> is its interpretation on the encoder of the code.
\<close>

section \<open>Fixed-width codecs\<close>

text \<open>Cut a body into chunks of \<open>w\<close> bytes and decode each; \<open>None\<close> on a partial chunk.\<close>

fun decodeChunks :: "nat \<Rightarrow> (bytes \<Rightarrow> 'b option) \<Rightarrow> nat \<Rightarrow> bytes \<Rightarrow> 'b list option" where
  "decodeChunks w dec 0 bs = (if bs = [] then Some [] else None)"
| "decodeChunks w dec (Suc n) bs =
     (if length bs < w then None
      else do { row \<leftarrow> dec (take w bs); rows \<leftarrow> decodeChunks w dec n (drop w bs); Some (row # rows) })"

locale fixed_codec =
  fixes enc :: "'a \<Rightarrow> bytes"
    and dec :: "bytes \<Rightarrow> 'b option"
    and view :: "'a \<Rightarrow> 'b"
    and width :: nat
  assumes width_pos: "0 < width"
    and length_enc: "length (enc x) = width"
    and dec_enc: "dec (enc x) = Some (view x)"
begin

lemma length_body: "length (concat (map enc xs)) = width * length xs"
  by (rule concat_map_length_const) (simp add: length_enc)

lemma decode_body: "decodeChunks width dec (length xs) (concat (map enc xs)) = Some (map view xs)"
  by (induction xs) (simp_all add: length_enc dec_enc)

lemma rows_of_body: "length (concat (map enc xs)) div width = length xs"
  using width_pos by (simp add: length_body)

lemma body_inj:
  assumes "concat (map enc xs) = concat (map enc ys)"
  shows "map view xs = map view ys"
proof -
  from assms have "width * length xs = width * length ys" by (metis length_body)
  with width_pos have "length xs = length ys" by simp
  with assms show ?thesis by (metis decode_body option.inject)
qed

lemma nth_chunk: "i < length xs \<Longrightarrow> take width (drop (width * i) (concat (map enc xs))) = enc (xs ! i)"
  by (rule take_drop_concat_map) (simp_all add: length_enc)

end

section \<open>The encoder of the code\<close>

definition appendUInt8 :: "bytes \<Rightarrow> u8 \<Rightarrow> bytes" where
  "appendUInt8 buffer v = buffer @ [v]"

definition appendUInt16 :: "bytes \<Rightarrow> u16 \<Rightarrow> bytes" where
  "appendUInt16 buffer v = buffer @ putLE16 v"

definition appendUInt32 :: "bytes \<Rightarrow> u32 \<Rightarrow> bytes" where
  "appendUInt32 buffer v = buffer @ putLE32 v"

text \<open>The error result of the Go function is always \<open>nil\<close>; so it is left out.\<close>

definition appendRowBinaryEvent :: "bytes \<Rightarrow> NATLogEntry \<Rightarrow> bytes" where
  "appendRowBinaryEvent buffer entry =
     (let buffer = appendUInt32 buffer (StartTime entry);
          buffer = appendUInt32 buffer (EndTime entry);
          buffer = appendUInt32 buffer (RouterIP entry);
          buffer = appendUInt16 buffer (RouterPort entry);
          buffer = appendUInt8 buffer (ProtocolID entry);
          buffer = appendUInt32 buffer (PrivateIP entry);
          buffer = appendUInt16 buffer (PrivatePort entry);
          buffer = appendUInt32 buffer (PublicIP entry);
          buffer = appendUInt16 buffer (PublicPort entry);
          buffer = appendUInt32 buffer (DestinationIP entry);
          buffer = appendUInt16 buffer (DestinationPort entry);
          buffer = appendUInt16 buffer (PacketSize entry)
      in buffer)"

section \<open>The row a reader sees\<close>

text \<open>
  The columns of the INSERT statement, in its order.  The reader is the specification of the
  column layout (little-endian fixed-width integers); it is not code of the program.
\<close>

record row =
  start_time :: u32
  end_time :: u32
  router_ip :: u32
  router_port :: u16
  protocol_id :: u8
  private_ip :: u32
  private_port :: u16
  public_ip :: u32
  public_port :: u16
  destination_ip :: u32
  destination_port :: u16
  packet_size :: u16

definition rowOf :: "NATLogEntry \<Rightarrow> row" where
  "rowOf e = \<lparr>start_time = StartTime e, end_time = EndTime e, router_ip = RouterIP e,
     router_port = RouterPort e, protocol_id = ProtocolID e, private_ip = PrivateIP e,
     private_port = PrivatePort e, public_ip = PublicIP e, public_port = PublicPort e,
     destination_ip = DestinationIP e, destination_port = DestinationPort e,
     packet_size = PacketSize e\<rparr>"

definition leWord16 :: "bytes \<Rightarrow> nat \<Rightarrow> u16" where
  "leWord16 bs a = be16 (bs ! (a + 1)) (bs ! a)"

definition leWord32 :: "bytes \<Rightarrow> nat \<Rightarrow> u32" where
  "leWord32 bs a = be32 (bs ! (a + 3)) (bs ! (a + 2)) (bs ! (a + 1)) (bs ! a)"

definition rowSize :: nat where "rowSize = 35"

definition readRow :: "bytes \<Rightarrow> row option" where
  "readRow bs = (if length bs \<noteq> rowSize then None
     else Some \<lparr>start_time = leWord32 bs 0, end_time = leWord32 bs 4, router_ip = leWord32 bs 8,
       router_port = leWord16 bs 12, protocol_id = bs ! 14, private_ip = leWord32 bs 15,
       private_port = leWord16 bs 19, public_ip = leWord32 bs 21, public_port = leWord16 bs 25,
       destination_ip = leWord32 bs 27, destination_port = leWord16 bs 31,
       packet_size = leWord16 bs 33\<rparr>)"

lemma appendRowBinaryEvent_append:
  "appendRowBinaryEvent buffer e = buffer @ appendRowBinaryEvent [] e"
  by (simp add: appendRowBinaryEvent_def appendUInt8_def appendUInt16_def appendUInt32_def Let_def)

lemma length_appendRowBinaryEvent:
  "length (appendRowBinaryEvent buffer e) = length buffer + rowSize"
  by (simp add: appendRowBinaryEvent_def appendUInt8_def appendUInt16_def appendUInt32_def
      rowSize_def Let_def)

lemma readRow_appendRowBinaryEvent: "readRow (appendRowBinaryEvent [] e) = Some (rowOf e)"
proof -
  have len: "length (appendRowBinaryEvent [] e) = rowSize"
    by (simp add: length_appendRowBinaryEvent)
  show ?thesis
    by (simp add: readRow_def len)
      (simp add: rowOf_def appendRowBinaryEvent_def appendUInt8_def appendUInt16_def
        appendUInt32_def putLE16_def putLE32_def leWord16_def leWord32_def codec_simps Let_def)
qed

interpretation row_codec: fixed_codec "appendRowBinaryEvent []" readRow rowOf rowSize
  by unfold_locales
    (simp_all add: length_appendRowBinaryEvent readRow_appendRowBinaryEvent, simp add: rowSize_def)

text \<open>Appending a list of entries to a body, as the worker does one entry at a time.\<close>

lemma fold_appendRowBinaryEvent:
  "fold (\<lambda>e b. appendRowBinaryEvent b e) es buffer
   = buffer @ concat (map (appendRowBinaryEvent []) es)"
proof (induction es arbitrary: buffer)
  case Nil
  then show ?case by simp
next
  case (Cons e es)
  have "appendRowBinaryEvent buffer e = buffer @ appendRowBinaryEvent [] e"
    by (rule appendRowBinaryEvent_append)
  with Cons.IH show ?case by simp
qed

text \<open>
  C15. Round trip of the insert body: appending any list of entries one by one builds a body
  that, cut into 35-byte rows and read back column by column, gives exactly the stored columns of
  those entries, in order; nothing is lost, added or reordered.
\<close>

theorem insert_body_roundtrip:
  "decodeChunks rowSize readRow (length es) (fold (\<lambda>e b. appendRowBinaryEvent b e) es [])
   = Some (map rowOf es)"
  using row_codec.decode_body [of es] by (simp add: fold_appendRowBinaryEvent)

end
