(* ===== verification/Simulator.thy ===== *)
theory Simulator
  imports Packet RowBinary
begin

text \<open>
  The packet builder of the UDP simulator (\<open>cmd/udp-simulator/main.go\<close>:
  \<open>packetSize\<close>, \<open>recordsPerPacket\<close>, \<open>buildPacket\<close>, \<open>fillNATRecord\<close>,
  \<open>writeIPv4\<close>) and its agreement with the collector's parser.  The code fills a reused
  buffer in place; the model returns the buffer after the writes, and a write that leaves the
  buffer is a panic.
\<close>

section \<open>Writes into a buffer\<close>

definition putAt :: "bytes \<Rightarrow> nat \<Rightarrow> bytes \<Rightarrow> bytes option" where
  "putAt xs a ys =
     (if a + length ys \<le> length xs then Some (take a xs @ ys @ drop (a + length ys) xs) else None)"

lemma putAt_in_range:
  "a + length ys \<le> length xs \<Longrightarrow> putAt xs a ys = Some (take a xs @ ys @ drop (a + length ys) xs)"
  by (simp add: putAt_def)

lemma putAt_length: "putAt xs a ys = Some zs \<Longrightarrow> length zs = length xs"
  by (auto simp: putAt_def split: if_splits)

lemma putAt_nth:
  assumes "putAt xs a ys = Some zs" "i < length xs"
  shows "zs ! i = (if a \<le> i \<and> i < a + length ys then ys ! (i - a) else xs ! i)"
  using assms by (auto simp: putAt_def nth_append split: if_splits)

section \<open>Configuration\<close>

record sim_config =
  sim_mode :: string
  sim_header :: bytes
  sim_records :: int
  sim_protocol :: u8

definition recordsPerPacket :: "sim_config \<Rightarrow> int" where
  "recordsPerPacket cfg = (if sim_mode cfg = ''multi'' then sim_records cfg else 1)"

definition packetSize :: "sim_config \<Rightarrow> int" where
  "packetSize cfg = (if sim_mode cfg = ''multi'' then 16 + sim_records cfg * 64 else 42)"

section \<open>Building packets\<close>

definition byte_of :: "u64 \<Rightarrow> nat \<Rightarrow> u8" where
  "byte_of sequence n = ucast (drop_bit n sequence)"

definition writeIPv4 :: "bytes \<Rightarrow> nat \<Rightarrow> u8 \<Rightarrow> u8 \<Rightarrow> u8 \<Rightarrow> u8 \<Rightarrow> bytes option" where
  "writeIPv4 target off a b c d = putAt target off [a, b, c, d]"

definition privatePortOf :: "u64 \<Rightarrow> u16" where
  "privatePortOf sequence = ucast (1024 + sequence mod 50000)"

definition publicPortOf :: "u64 \<Rightarrow> u16" where
  "publicPortOf sequence = ucast (20000 + sequence mod 40000)"

definition fillNATRecord :: "bytes \<Rightarrow> u64 \<Rightarrow> u32 \<Rightarrow> bytes option" where
  "fillNATRecord record sequence now = do {
     let r = replicate (length record) 0;
     r \<leftarrow> writeIPv4 r 4 10 (byte_of sequence 16) (byte_of sequence 8) (byte_of sequence 0);
     r \<leftarrow> writeIPv4 r 8 200 1 (byte_of sequence 8) (byte_of sequence 0);
     r \<leftarrow> writeIPv4 r 12 8 8 8 8;
     r \<leftarrow> putAt r 20 (putBE16 (privatePortOf sequence));
     r \<leftarrow> putAt r 22 (putBE16 (publicPortOf sequence));
     r \<leftarrow> putAt r 24 (putBE16 443);
     r \<leftarrow> putAt r 28 (putBE32 now);
     putAt r 32 (putBE32 now)
   }"

fun fillLoop :: "bytes \<Rightarrow> u64 \<Rightarrow> u32 \<Rightarrow> nat list \<Rightarrow> bytes option" where
  "fillLoop packet sequence now [] = Some packet"
| "fillLoop packet sequence now (i # is) = do {
     record \<leftarrow> goSlice packet (16 + i * 64) (16 + i * 64 + 64);
     filled \<leftarrow> fillNATRecord record (sequence + word_of_nat i) now;
     packet \<leftarrow> putAt packet (16 + i * 64) filled;
     fillLoop packet sequence now is
   }"

text \<open>\<open>copy(packet[0:4], cfg.header)\<close> copies the shorter of the two lengths.\<close>

definition buildPacket :: "bytes \<Rightarrow> sim_config \<Rightarrow> u64 \<Rightarrow> u32 \<Rightarrow> bytes option" where
  "buildPacket packet cfg sequence now = do {
     target \<leftarrow> goSlice packet 0 4;
     packet \<leftarrow> putAt packet 0 (take 4 (sim_header cfg));
     packet \<leftarrow> putAt packet 4 (putBE32 now);
     (if sim_mode cfg = ''multi'' then fillLoop packet sequence now [0..<nat (sim_records cfg)]
      else do {
        tl8 \<leftarrow> goSlice packet 8 (length packet);
        packet \<leftarrow> putAt packet 8 (replicate (length tl8) 0);
        packet \<leftarrow> putAt packet 11 [sim_protocol cfg];
        packet \<leftarrow> writeIPv4 packet 20 10 (byte_of sequence 16) (byte_of sequence 8) (byte_of sequence 0);
        packet \<leftarrow> writeIPv4 packet 24 200 1 (byte_of sequence 8) (byte_of sequence 0);
        packet \<leftarrow> writeIPv4 packet 28 8 8 8 8;
        packet \<leftarrow> putAt packet 36 (putBE16 (privatePortOf sequence));
        packet \<leftarrow> putAt packet 38 (putBE16 (publicPortOf sequence));
        putAt packet 40 (putBE16 443)
      })
   }"

section \<open>What a built record holds\<close>

definition natRecordBytes :: "u64 \<Rightarrow> u32 \<Rightarrow> bytes" where
  "natRecordBytes sequence now =
     [0, 0, 0, 0, 10, byte_of sequence 16, byte_of sequence 8, byte_of sequence 0,
      200, 1, byte_of sequence 8, byte_of sequence 0, 8, 8, 8, 8, 0, 0, 0, 0]
     @ putBE16 (privatePortOf sequence) @ putBE16 (publicPortOf sequence) @ putBE16 443
     @ [0, 0] @ putBE32 now @ putBE32 now @ replicate 28 0"

lemma length_natRecordBytes [simp]: "length (natRecordBytes sequence now) = 64"
  by (simp add: natRecordBytes_def)

lemma fillNATRecord_eq:
  assumes "length record = 64"
  shows "fillNATRecord record sequence now = Some (natRecordBytes sequence now)"
proof -
  have "replicate 64 (0 :: u8) = replicate 4 0 @ replicate 60 0"
    by (simp flip: replicate_add)
  with assms show ?thesis
    by (simp add: fillNATRecord_def writeIPv4_def putAt_in_range natRecordBytes_def
        putBE16_def putBE32_def numeral_eq_Suc Let_def)
qed

lemma fillLoop_eq:
  assumes "length packet = 16 + 64 * (k + n)"
  shows "fillLoop packet sequence now [k..<k + n] =
     Some (take (16 + 64 * k) packet
           @ concat (map (\<lambda>i. natRecordBytes (sequence + word_of_nat i) now) [k..<k + n]))"
  using assms
proof (induction n arbitrary: k packet)
  case 0
  then show ?case by simp
next
  case (Suc n)
  let ?r = "natRecordBytes (sequence + word_of_nat k) now"
  let ?p = "take (16 + 64 * k) packet @ ?r @ drop (16 + 64 * k + 64) packet"
  have len: "length ?p = 16 + 64 * (Suc k + n)" using Suc.prems by simp
  have "take (16 + 64 * Suc k) ?p = take (16 + 64 * k) packet @ ?r"
    using Suc.prems by simp
  moreover have "[k..<k + Suc n] = k # [Suc k..<Suc k + n]" by (simp add: upt_conv_Cons)
  ultimately show ?case
    using Suc.IH [OF len] Suc.prems
    by (simp add: goSlice_in_range fillNATRecord_eq putAt_in_range mult.commute del: upt_Suc)
qed

text \<open>The entry the parser must produce for the record of sequence number \<open>sequence\<close>.\<close>

definition simulatedEntry :: "u32 \<Rightarrow> u16 \<Rightarrow> u8 \<Rightarrow> nat \<Rightarrow> u32 \<Rightarrow> u64 \<Rightarrow> NATLogEntry" where
  "simulatedEntry routerIP routerPort protocol len now sequence =
     \<lparr>EventTime = now, StartTime = now, EndTime = now, RouterIP = routerIP, RouterPort = routerPort,
      ProtocolID = protocol,
      PrivateIP = be32 10 (byte_of sequence 16) (byte_of sequence 8) (byte_of sequence 0),
      PrivatePort = privatePortOf sequence,
      PublicIP = be32 200 1 (byte_of sequence 8) (byte_of sequence 0),
      PublicPort = publicPortOf sequence,
      DestinationIP = be32 8 8 8 8, DestinationPort = 443, PacketSize = word_of_nat len\<rparr>"

text \<open>Reading a record of a packet through the chunk that holds it.\<close>

lemma chunk_in_range: "take 64 (drop b xs) = r \<Longrightarrow> length r = 64 \<Longrightarrow> b + 64 \<le> length xs"
  by auto

lemma word32_chunk:
  "take 64 (drop b xs) = r \<Longrightarrow> length r = 64 \<Longrightarrow> k + 4 \<le> 64 \<Longrightarrow> word32 xs (b + k) = word32 r k"
  using word32_take_drop [of b 64 xs k] chunk_in_range [of b xs r] by simp

lemma word16_chunk:
  "take 64 (drop b xs) = r \<Longrightarrow> length r = 64 \<Longrightarrow> k + 2 \<le> 64 \<Longrightarrow> word16 xs (b + k) = word16 r k"
  using word16_take_drop [of b 64 xs k] chunk_in_range [of b xs r] by simp

text \<open>
  The records of a packet are a fixed-width codec too: the second interpretation of
  \<open>fixed_codec\<close>, with the fields of a 64-byte record as its view.
\<close>

definition recordFields :: "bytes \<Rightarrow> u32 list \<times> u16 list" where
  "recordFields r = ([word32 r 4, word32 r 8, word32 r 12, word32 r 28, word32 r 32],
                     [word16 r 20, word16 r 22, word16 r 24])"

definition simulatedFields :: "u64 \<times> u32 \<Rightarrow> u32 list \<times> u16 list" where
  "simulatedFields = (\<lambda>(sequence, now).
     ([be32 10 (byte_of sequence 16) (byte_of sequence 8) (byte_of sequence 0),
       be32 200 1 (byte_of sequence 8) (byte_of sequence 0), be32 8 8 8 8, now, now],
      [privatePortOf sequence, publicPortOf sequence, 443]))"

lemma recordFields_natRecordBytes:
  "recordFields (natRecordBytes sequence now) = simulatedFields (sequence, now)"
  using be16_split [of 443]
  by (simp add: recordFields_def simulatedFields_def natRecordBytes_def word32_def word16_def
      putBE16_def putBE32_def codec_simps)

interpretation sim_codec: fixed_codec "\<lambda>(sequence, now). natRecordBytes sequence now"
    "\<lambda>r. if length r = 64 then Some (recordFields r) else None" simulatedFields 64
  by unfold_locales (auto simp: recordFields_natRecordBytes)

lemma recordEntryAt_simulated:
  assumes chunk: "take 64 (drop (16 + 64 * i) bs) = natRecordBytes sequence now"
    and now: "now \<noteq> 0"
  shows "recordEntryAt bs routerIP routerPort received clock i
         = simulatedEntry routerIP routerPort 0 (length bs) now sequence"
proof -
  note fields = recordFields_natRecordBytes [of sequence now]
  have w32: "word32 bs (16 + 64 * i + k) = word32 (natRecordBytes sequence now) k" if "k + 4 \<le> 64" for k
    by (rule word32_chunk [OF chunk _ that]) simp
  have w16: "word16 bs (16 + 64 * i + k) = word16 (natRecordBytes sequence now) k" if "k + 2 \<le> 64" for k
    by (rule word16_chunk [OF chunk _ that]) simp
  show ?thesis
    using fields now
    using w32 [of 4] w32 [of 8] w32 [of 12] w32 [of 28] w32 [of 32] w16 [of 20] w16 [of 22] w16 [of 24]
    by (simp add: recordEntryAt_def simulatedEntry_def recordFields_def simulatedFields_def
        timestampWithFallback_def Let_def)
qed

lemma buildPacket_multi:
  assumes "sim_mode cfg = ''multi''" "sim_records cfg = int n" "length (sim_header cfg) = 4"
    and "length packet = 16 + 64 * n"
  shows "buildPacket packet cfg sequence now =
     Some (sim_header cfg @ putBE32 now @ take 8 (drop 8 packet)
           @ concat (map (\<lambda>i. natRecordBytes (sequence + word_of_nat i) now) [0..<n]))"
proof -
  let ?p = "sim_header cfg @ putBE32 now @ drop 8 packet"
  have "length ?p = 16 + 64 * (0 + n)" using assms by simp
  from fillLoop_eq [OF this, of sequence now]
  have "fillLoop ?p sequence now [0..<n] =
      Some (sim_header cfg @ putBE32 now @ take 8 (drop 8 packet)
           @ concat (map (\<lambda>i. natRecordBytes (sequence + word_of_nat i) now) [0..<n]))"
    using assms by simp
  with assms show ?thesis
    by (simp add: buildPacket_def goSlice_in_range putAt_in_range)
qed

text \<open>
  End to end from the simulator to the parser: a multi-record packet that
  \<open>buildPacket\<close> writes into a buffer of \<open>packetSize\<close> bytes (whatever the buffer held
  before) is built without leaving the buffer, and the collector parses it into exactly one
  entry per record, the \<open>i\<close>-th with the addresses and ports derived from sequence number
  \<open>sequence + i\<close> and with the sender's time, whatever the collector's clock says.
\<close>

theorem simulated_multi_parsed:
  assumes "sim_mode cfg = ''multi''" "sim_records cfg = int n" "0 < n"
    and "length (sim_header cfg) = 4"
    and "int (length packet) = packetSize cfg" and "now \<noteq> 0"
  shows "\<exists>wire. buildPacket packet cfg sequence now = Some wire
           \<and> length wire = length packet
           \<and> parsePacket wire routerIP routerPort received clock
             = Some (Inr (map (\<lambda>i. simulatedEntry routerIP routerPort 0 (length packet) now
                                    (sequence + word_of_nat i)) [0..<n]))"
proof -
  let ?rec = "\<lambda>i. natRecordBytes (sequence + word_of_nat i) now"
  let ?wire = "sim_header cfg @ putBE32 now @ take 8 (drop 8 packet) @ concat (map ?rec [0..<n])"
  have len: "length packet = 16 + 64 * n"
    using assms by (simp add: packetSize_def)
  have body: "length (concat (map ?rec [0..<n])) = 64 * n"
    by (subst concat_map_length_const [where w = 64]) auto
  with assms len have wire: "length ?wire = 16 + 64 * n" by simp
  have "recordEntryAt ?wire routerIP routerPort received clock i
        = simulatedEntry routerIP routerPort 0 (length packet) now (sequence + word_of_nat i)"
    if "i < n" for i
  proof -
    have "take 64 (drop (64 * i) (concat (map ?rec [0..<n]))) = ?rec ([0..<n] ! i)"
      by (rule take_drop_concat_map) (use that in auto)
    then have "take 64 (drop (16 + 64 * i) ?wire) = ?rec i"
      using assms len that by simp
    from recordEntryAt_simulated [OF this \<open>now \<noteq> 0\<close>] show ?thesis by (simp only: wire len)
  qed
  then have "map (recordEntryAt ?wire routerIP routerPort received clock) [0..<n]
      = map (\<lambda>i. simulatedEntry routerIP routerPort 0 (length packet) now (sequence + word_of_nat i)) [0..<n]"
    by simp
  moreover have "isMultiSize (length ?wire)" unfolding wire isMultiSize_iff using \<open>0 < n\<close> by auto
  ultimately have "parsePacket ?wire routerIP routerPort received clock
      = Some (Inr (map (\<lambda>i. simulatedEntry routerIP routerPort 0 (length packet) now
                       (sequence + word_of_nat i)) [0..<n]))"
    by (simp only: parsePacket_eq) (simp only: wire, simp)
  with buildPacket_multi [OF assms(1,2,4) len, of sequence now] wire len show ?thesis by auto
qed

theorem simulated_multi_parsed_witness:
  "\<exists>wire. buildPacket (replicate 144 7) \<lparr>sim_mode = ''multi'', sim_header = [170, 187, 204, 221],
              sim_records = 2, sim_protocol = 6\<rparr> 99 1700000000 = Some wire
      \<and> length wire = 144
      \<and> parsePacket wire 1 2 3 (\<lambda>_. 0)
        = Some (Inr [simulatedEntry 1 2 0 144 1700000000 99, simulatedEntry 1 2 0 144 1700000000 100])"
  using simulated_multi_parsed [of "\<lparr>sim_mode = ''multi'', sim_header = [170, 187, 204, 221],
    sim_records = 2, sim_protocol = 6\<rparr>" 2 "replicate 144 7" 1700000000 99 1 2 3 "\<lambda>_. 0"]
  by (simp add: packetSize_def upt_rec)

text \<open>
  A legacy packet built into a 42-byte buffer is parsed by the legacy
  branch (42 is no multi-record size) into the single entry of the sequence number, with the
  configured protocol and the sender's time.
\<close>

theorem simulated_legacy_parsed:
  assumes "sim_mode cfg \<noteq> ''multi''" "length (sim_header cfg) = 4"
    and "int (length packet) = packetSize cfg" and "now \<noteq> 0"
  shows "\<exists>wire. buildPacket packet cfg sequence now = Some wire
           \<and> length wire = 42
           \<and> parsePacket wire routerIP routerPort received clock
             = Some (Inr [simulatedEntry routerIP routerPort (sim_protocol cfg) 42 now sequence])"
proof -
  let ?wire = "sim_header cfg @ putBE32 now @ [0, 0, 0, sim_protocol cfg, 0, 0, 0, 0, 0, 0, 0, 0,
      10, byte_of sequence 16, byte_of sequence 8, byte_of sequence 0,
      200, 1, byte_of sequence 8, byte_of sequence 0, 8, 8, 8, 8, 0, 0, 0, 0]
      @ putBE16 (privatePortOf sequence) @ putBE16 (publicPortOf sequence) @ putBE16 443"
  have len: "length packet = 42" using assms by (simp add: packetSize_def)
  have built: "buildPacket packet cfg sequence now = Some ?wire"
    using assms len
    by (simp add: buildPacket_def goSlice_in_range putAt_in_range writeIPv4_def numeral_eq_Suc
        putBE16_def putBE32_def)
  obtain a b c d where header: "sim_header cfg = [a, b, c, d]"
    using \<open>length (sim_header cfg) = 4\<close> by (auto simp: numeral_eq_Suc length_Suc_conv)
  have wire: "length ?wire = 42" using header by simp
  have "legacyEntry ?wire routerIP routerPort received clock
      = simulatedEntry routerIP routerPort (sim_protocol cfg) 42 now sequence"
    using \<open>now \<noteq> 0\<close> be16_split [of 443] header
    by (simp add: legacyEntry_def simulatedEntry_def word32_def word16_def putBE16_def putBE32_def
        codec_simps timestampWithFallback_def Let_def)
  with built wire show ?thesis
    by (simp add: parsePacket_eq isMultiSize_def del: append.simps append_assoc)
qed

theorem simulated_legacy_parsed_witness:
  "\<exists>wire. buildPacket (replicate 42 7) \<lparr>sim_mode = ''legacy'', sim_header = [170, 187, 204, 221],
              sim_records = 8, sim_protocol = 6\<rparr> 99 1700000000 = Some wire
      \<and> length wire = 42
      \<and> parsePacket wire 1 2 3 (\<lambda>_. 0) = Some (Inr [simulatedEntry 1 2 6 42 1700000000 99])"
  using simulated_legacy_parsed [of "\<lparr>sim_mode = ''legacy'', sim_header = [170, 187, 204, 221],
    sim_records = 8, sim_protocol = 6\<rparr>" "replicate 42 7" 1700000000 99 1 2 3 "\<lambda>_. 0"]
  by (simp add: packetSize_def)

end
