(* ===== verification/GoStrings.thy ===== *)
theory GoStrings
  imports Prelude
begin

text \<open>
  The part of Go's \<open>strings\<close>, \<open>strconv\<close> and \<open>fmt\<close> packages that the program
  uses: splitting and joining at a character, trimming, lower case, suffix tests, decimal
  printing and parsing, zero padding.  A string is its list of bytes.  Trimming and lower-casing
  are modelled on ASCII (environment values and names of the program are ASCII).
\<close>

named_theorems string_simps "evaluation of the string functions"

section \<open>Characters\<close>

definition isDigitChar :: "char \<Rightarrow> bool" where
  "isDigitChar c = (48 \<le> (of_char c :: nat) \<and> (of_char c :: nat) \<le> 57)"

definition isLetterChar :: "char \<Rightarrow> bool" where
  "isLetterChar c = (97 \<le> (of_char c :: nat) \<and> (of_char c :: nat) \<le> 122
     \<or> 65 \<le> (of_char c :: nat) \<and> (of_char c :: nat) \<le> 90)"

definition isSpaceChar :: "char \<Rightarrow> bool" where
  "isSpaceChar c = ((of_char c :: nat) = 32 \<or> 9 \<le> (of_char c :: nat) \<and> (of_char c :: nat) \<le> 13)"

definition digitChar :: "nat \<Rightarrow> char" where
  "digitChar n = char_of (48 + n)"

definition digitVal :: "char \<Rightarrow> nat" where
  "digitVal c = of_char c - 48"

lemma digitVal_digitChar [simp]: "n < 10 \<Longrightarrow> digitVal (digitChar n) = n"
  by (simp add: digitVal_def digitChar_def)

lemma isDigitChar_digitChar [simp]: "n < 10 \<Longrightarrow> isDigitChar (digitChar n)"
  by (simp add: isDigitChar_def digitChar_def)

section \<open>Splitting, joining, trimming\<close>

text \<open>\<open>strings.Split(s, c)\<close> for a one-character separator: never the empty list.\<close>

fun splitOn :: "char \<Rightarrow> string \<Rightarrow> string list" where
  "splitOn c [] = [[]]"
| "splitOn c (x # xs) =
     (if x = c then [] # splitOn c xs
      else (case splitOn c xs of [] \<Rightarrow> [[x]] | w # ws \<Rightarrow> (x # w) # ws))"

fun joinWith :: "string \<Rightarrow> string list \<Rightarrow> string" where
  "joinWith sep [] = []"
| "joinWith sep [w] = w"
| "joinWith sep (w # ws) = w @ sep @ joinWith sep ws"

lemma splitOn_not_Nil [simp]: "splitOn c s \<noteq> []"
  by (induction s) (auto split: list.splits)

lemma splitOn_no_sep: "c \<notin> set s \<Longrightarrow> splitOn c s = [s]"
  by (induction s) auto

lemma splitOn_append_sep: "c \<notin> set a \<Longrightarrow> splitOn c (a @ c # b) = a # splitOn c b"
  by (induction a) auto

lemma splitOn_parts_no_sep: "p \<in> set (splitOn c s) \<Longrightarrow> c \<notin> set p"
  by (induction s arbitrary: p) (auto split: list.splits if_splits)

lemma joinWith_Cons: "ws \<noteq> [] \<Longrightarrow> joinWith sep (w # ws) = w @ sep @ joinWith sep ws"
  by (cases ws) auto

lemma join_split [string_simps]: "joinWith [c] (splitOn c s) = s"
proof (induction s)
  case Nil
  then show ?case by simp
next
  case (Cons x s)
  obtain w ws where sp: "splitOn c s = w # ws" by (cases "splitOn c s") auto
  with Cons show ?case by (cases ws) (auto simp: joinWith_Cons)
qed

lemma split_join:
  "ws \<noteq> [] \<Longrightarrow> (\<And>w. w \<in> set ws \<Longrightarrow> c \<notin> set w) \<Longrightarrow> splitOn c (joinWith [c] ws) = ws"
proof (induction ws)
  case Nil
  then show ?case by simp
next
  case (Cons w ws)
  then show ?case
    by (cases "ws = []") (auto simp: splitOn_no_sep joinWith_Cons splitOn_append_sep)
qed

definition trimLeft :: "(char \<Rightarrow> bool) \<Rightarrow> string \<Rightarrow> string" where
  "trimLeft p s = dropWhile p s"

definition trimRight :: "(char \<Rightarrow> bool) \<Rightarrow> string \<Rightarrow> string" where
  "trimRight p s = rev (dropWhile p (rev s))"

definition trimSpace :: "string \<Rightarrow> string" where
  "trimSpace s = trimRight isSpaceChar (trimLeft isSpaceChar s)"

definition lowerChar :: "char \<Rightarrow> char" where
  "lowerChar c = (if 65 \<le> (of_char c :: nat) \<and> (of_char c :: nat) \<le> 90
                  then char_of ((of_char c :: nat) + 32) else c)"

definition toLower :: "string \<Rightarrow> string" where
  "toLower s = map lowerChar s"

definition hasSuffix :: "string \<Rightarrow> string \<Rightarrow> bool" where
  "hasSuffix s suf = (length suf \<le> length s \<and> drop (length s - length suf) s = suf)"

lemma hasSuffix_append [simp]: "hasSuffix (s @ suf) suf"
  by (simp add: hasSuffix_def)

lemma hasSuffix_conv: "hasSuffix s suf \<longleftrightarrow> (\<exists>p. s = p @ suf)"
  by (auto simp: hasSuffix_def) (metis append_take_drop_id)

lemma trimSpace_no_space: "(\<And>c. c \<in> set s \<Longrightarrow> \<not> isSpaceChar c) \<Longrightarrow> trimSpace s = s"
proof -
  assume ns: "\<And>c. c \<in> set s \<Longrightarrow> \<not> isSpaceChar c"
  have "dropWhile isSpaceChar xs = xs" if "set xs \<subseteq> set s" for xs
    using that ns by (cases xs) auto
  from this [of s] this [of "rev s"] show ?thesis
    by (simp add: trimSpace_def trimLeft_def trimRight_def)
qed

section \<open>Decimal numbers\<close>

fun natDigits :: "nat \<Rightarrow> string" where
  "natDigits n = (if n < 10 then [digitChar n] else natDigits (n div 10) @ [digitChar (n mod 10)])"

declare natDigits.simps [simp del]

definition decVal :: "string \<Rightarrow> nat" where
  "decVal s = foldl (\<lambda>acc c. 10 * acc + digitVal c) 0 s"

lemma decVal_snoc: "decVal (s @ [c]) = 10 * decVal s + digitVal c"
  by (simp add: decVal_def)

lemma decVal_natDigits [string_simps]: "decVal (natDigits n) = n"
proof (induction n rule: natDigits.induct)
  case (1 n)
  show ?case
  proof (cases "n < 10")
    case True
    then show ?thesis by (subst natDigits.simps) (simp add: decVal_def)
  next
    case False
    with 1 have "decVal (natDigits (n div 10)) = n div 10" by simp
    with False show ?thesis by (subst natDigits.simps) (simp add: decVal_snoc)
  qed
qed

lemma natDigits_digits: "c \<in> set (natDigits n) \<Longrightarrow> isDigitChar c"
proof (induction n rule: natDigits.induct)
  case (1 n)
  then show ?case
    by (subst (asm) (2) natDigits.simps) (auto split: if_splits)
qed

lemma natDigits_not_Nil [simp]: "natDigits n \<noteq> []"
  by (subst natDigits.simps) simp

lemma natDigits_inj: "natDigits m = natDigits n \<longleftrightarrow> m = n"
  by (metis decVal_natDigits)

lemma length_natDigits_le: "n < 10 ^ k \<Longrightarrow> 0 < k \<Longrightarrow> length (natDigits n) \<le> k"
proof (induction k arbitrary: n)
  case 0
  then show ?case by simp
next
  case (Suc k)
  show ?case
  proof (cases "n < 10")
    case True
    then show ?thesis by (subst natDigits.simps) simp
  next
    case False
    with Suc.prems have "0 < k" by (cases k) auto
    moreover have "n div 10 < 10 ^ k" using Suc.prems by (simp add: less_mult_imp_div_less mult.commute)
    ultimately have "length (natDigits (n div 10)) \<le> k" using Suc.IH by simp
    with False show ?thesis by (subst natDigits.simps) simp
  qed
qed

text \<open>\<open>%0kd\<close> for a non-negative value.\<close>

definition padDigits :: "nat \<Rightarrow> nat \<Rightarrow> string" where
  "padDigits k n = (let ds = natDigits n in replicate (k - length ds) (CHR ''0'') @ ds)"

lemma decVal_replicate_zero: "decVal (replicate k (CHR ''0'') @ s) = decVal s"
  by (induction k) (simp_all add: decVal_def digitVal_def)

lemma decVal_padDigits [string_simps]: "decVal (padDigits k n) = n"
  by (simp add: padDigits_def decVal_replicate_zero decVal_natDigits Let_def)

lemma padDigits_inj: "padDigits k m = padDigits k n \<longleftrightarrow> m = n"
  by (metis decVal_padDigits)

lemma length_padDigits: "n < 10 ^ k \<Longrightarrow> 0 < k \<Longrightarrow> length (padDigits k n) = k"
  using length_natDigits_le [of n k] by (simp add: padDigits_def Let_def)

lemma padDigits_digits: "c \<in> set (padDigits k n) \<Longrightarrow> isDigitChar c"
  by (auto simp: padDigits_def isDigitChar_def Let_def dest: natDigits_digits split: if_splits)

text \<open>\<open>strconv.Itoa\<close> and \<open>strconv.Atoi\<close> for the 64-bit \<open>int\<close>.\<close>

datatype num_error = BadNumber

definition itoa :: "int \<Rightarrow> string" where
  "itoa i = (if i < 0 then CHR ''-'' # natDigits (nat (- i)) else natDigits (nat i))"

definition atoi :: "string \<Rightarrow> num_error + int" where
  "atoi s =
     (let neg = (s \<noteq> [] \<and> hd s = CHR ''-'');
          ds = (if s \<noteq> [] \<and> (hd s = CHR ''-'' \<or> hd s = CHR ''+'') then tl s else s)
      in if ds = [] \<or> \<not> list_all isDigitChar ds then Inl BadNumber
         else let v = (if neg then - int (decVal ds) else int (decVal ds))
              in if v < - (2 ^ 63) \<or> 2 ^ 63 \<le> v then Inl BadNumber else Inr v)"

lemma atoi_itoa [string_simps]: "- (2 ^ 63) \<le> i \<Longrightarrow> i < 2 ^ 63 \<Longrightarrow> atoi (itoa i) = Inr i"
proof -
  assume rng: "- (2 ^ 63) \<le> i" "i < 2 ^ 63"
  have hd: "hd (natDigits n) \<noteq> CHR ''-''" "hd (natDigits n) \<noteq> CHR ''+''" for n
    using natDigits_digits [of "hd (natDigits n)" n] by (auto simp: isDigitChar_def)
  have "list_all isDigitChar (natDigits n)" for n
    by (auto simp: list_all_iff natDigits_digits)
  with rng hd show ?thesis
    by (auto simp: atoi_def itoa_def decVal_natDigits Let_def)
qed

lemma itoa_nonneg_digits: "0 \<le> i \<Longrightarrow> c \<in> set (itoa i) \<Longrightarrow> isDigitChar c"
  by (auto simp: itoa_def natDigits_digits)

section \<open>File name tokens\<close>

text \<open>The replacer of \<open>main.go\<close>: each of five characters becomes an underscore.\<close>

definition safeFileToken :: "string \<Rightarrow> string" where
  "safeFileToken =
     map (\<lambda>c. if c \<in> {CHR ''.'', CHR ''/'', CHR 0x5C, CHR '':'', CHR '' ''} then CHR ''_'' else c)"

lemma safeFileToken_no_dot: "CHR ''.'' \<notin> set (safeFileToken s)"
  by (auto simp: safeFileToken_def)

end
