(* ===== verification/Float64.thy ===== *)
theory Float64
  imports Complex_Main Prelude "HOL-Library.Log_Nat"
begin

text \<open>
  The \<open>float64\<close> arithmetic of the alert percentages.  A value is NaN, an infinity or a
  rational; comparisons are IEEE's (every comparison with NaN is false).  The operations the
  program uses (conversion of a \<open>uint64\<close>, multiplication and division of non-negative
  values, far from overflow and from the subnormals) round to 53 significant bits, ties to even.
\<close>

datatype f64 = NaN | PosInf | NegInf | Fin rat

fun f64_less :: "f64 \<Rightarrow> f64 \<Rightarrow> bool" where
  "f64_less NaN y = False"
| "f64_less x NaN = False"
| "f64_less (Fin x) (Fin y) = (x < y)"
| "f64_less NegInf y = (y \<noteq> NegInf)"
| "f64_less (Fin x) y = (y = PosInf)"
| "f64_less PosInf y = False"

fun f64_le :: "f64 \<Rightarrow> f64 \<Rightarrow> bool" where
  "f64_le NaN y = False"
| "f64_le x NaN = False"
| "f64_le (Fin x) (Fin y) = (x \<le> y)"
| "f64_le NegInf y = True"
| "f64_le (Fin x) y = (y = PosInf)"
| "f64_le PosInf y = (y = PosInf)"

definition isNaN :: "f64 \<Rightarrow> bool" where "isNaN x = (x = NaN)"
definition isInf :: "f64 \<Rightarrow> bool" where "isInf x = (x = PosInf \<or> x = NegInf)"

section \<open>Rounding\<close>

definition roundHalfEven :: "rat \<Rightarrow> int" where
  "roundHalfEven x =
     (let n = \<lfloor>x\<rfloor>; r = x - of_int n
      in if r < 1 / 2 then n else if r > 1 / 2 then n + 1 else if even n then n else n + 1)"

definition exponentOf :: "rat \<Rightarrow> int" where
  "exponentOf x =
     (let (a, b) = quotient_of x; e = bitlen a - bitlen b
      in if 2 powi e \<le> x then e else e - 1)"

definition roundF64 :: "rat \<Rightarrow> rat" where
  "roundF64 x =
     (if x \<le> 0 then 0
      else let e = exponentOf x - 52 in of_int (roundHalfEven (x / 2 powi e)) * 2 powi e)"

lemma roundHalfEven_int [simp]: "roundHalfEven (of_int n) = n"
  by (simp add: roundHalfEven_def)

lemma roundHalfEven_between: "\<lfloor>x\<rfloor> \<le> roundHalfEven x" "roundHalfEven x \<le> \<lfloor>x\<rfloor> + 1"
  by (auto simp: roundHalfEven_def Let_def)

lemma roundHalfEven_mono:
  assumes "x \<le> y"
  shows "roundHalfEven x \<le> roundHalfEven y"
proof -
  have fl: "\<lfloor>x\<rfloor> \<le> \<lfloor>y\<rfloor>" using assms by (rule floor_mono)
  show ?thesis
  proof (cases "\<lfloor>x\<rfloor> = \<lfloor>y\<rfloor>")
    case True
    with assms show ?thesis by (auto simp: roundHalfEven_def Let_def)
  next
    case False
    with fl have "\<lfloor>x\<rfloor> + 1 \<le> \<lfloor>y\<rfloor>" by simp
    with roundHalfEven_between [of x] roundHalfEven_between [of y] show ?thesis by linarith
  qed
qed

lemma roundHalfEven_le_int: "x \<le> of_int n \<Longrightarrow> roundHalfEven x \<le> n"
  using roundHalfEven_mono [of x "of_int n"] by simp

lemma roundHalfEven_ge_int: "of_int n \<le> x \<Longrightarrow> n \<le> roundHalfEven x"
  using roundHalfEven_mono [of "of_int n" x] by simp

lemma pow2_split: "(2 :: rat) powi (a + b) = 2 powi a * 2 powi b"
  by (simp add: power_int_add)

lemma pow2_pos: "0 < (2 :: rat) powi e"
  by simp

lemma bitlen_rat:
  assumes "0 < (a :: int)"
  shows "(2 :: rat) powi (bitlen a - 1) \<le> of_int a" "of_int a < (2 :: rat) powi bitlen a"
proof -
  have len: "0 < bitlen a" using assms bitlen_eq_zero_iff [of a] bitlen_nonneg [of a] by linarith
  have "2 ^ nat (bitlen a - 1) \<le> a" "a < 2 ^ nat (bitlen a)" using bitlen_bounds [OF assms] by auto
  then have "(of_int (2 ^ nat (bitlen a - 1)) :: rat) \<le> of_int a" "(of_int a :: rat) < of_int (2 ^ nat (bitlen a))"
    by (simp_all only: of_int_le_iff of_int_less_iff)
  with len show "(2 :: rat) powi (bitlen a - 1) \<le> of_int a" "of_int a < (2 :: rat) powi bitlen a"
    by (simp_all add: power_int_def)
qed

lemma exponentOf_bounds:
  assumes "0 < x"
  shows "2 powi exponentOf x \<le> x" "x < 2 powi (exponentOf x + 1)"
proof -
  obtain a b where q: "quotient_of x = (a, b)" by fastforce
  then have b: "0 < b" by (rule quotient_of_denom_pos)
  have x: "x = of_int a / of_int b" using q by (rule quotient_of_div)
  with assms b have a: "0 < a" by (simp add: zero_less_divide_iff)
  let ?e = "bitlen a - bitlen b"
  have "x * of_int b = of_int a" using x b by simp
  have "2 powi (bitlen a - 1) = 2 powi (?e - 1) * (2 :: rat) powi bitlen b"
    by (simp flip: pow2_split)
  also have "\<dots> > 2 powi (?e - 1) * of_int b" using bitlen_rat(2) [OF b] by simp
  finally have "2 powi (?e - 1) * of_int b < (of_int a :: rat)" using bitlen_rat(1) [OF a] by simp
  then have lower: "2 powi (?e - 1) < x" using x b by (simp add: pos_less_divide_eq)
  have "(of_int a :: rat) < 2 powi bitlen a" by (rule bitlen_rat(2) [OF a])
  also have "\<dots> = 2 powi (?e + 1) * 2 powi (bitlen b - 1)" by (simp flip: pow2_split)
  also have "\<dots> \<le> 2 powi (?e + 1) * of_int b" using bitlen_rat(1) [OF b] by simp
  finally have upper: "x < 2 powi (?e + 1)" using x b by (simp add: pos_divide_less_eq)
  show "2 powi exponentOf x \<le> x" "x < 2 powi (exponentOf x + 1)"
    using lower upper by (auto simp: exponentOf_def q Let_def)
qed

lemma exponentOf_mono:
  assumes "0 < x" "x \<le> y"
  shows "exponentOf x \<le> exponentOf y"
proof (rule ccontr)
  assume "\<not> exponentOf x \<le> exponentOf y"
  then have "(2 :: rat) powi (exponentOf y + 1) \<le> 2 powi exponentOf x"
    by (intro power_int_increasing) auto
  with exponentOf_bounds(2) [of y] exponentOf_bounds(1) [of x] assms show False by linarith
qed

lemma roundF64_bounds:
  assumes "0 < x"
  shows "2 powi exponentOf x \<le> roundF64 x" "roundF64 x \<le> 2 powi (exponentOf x + 1)"
proof -
  let ?e = "exponentOf x - 52"
  have low: "(2 :: rat) powi exponentOf x = of_int (2 ^ 52) * 2 powi ?e"
    using pow2_split [of 52 ?e] by simp
  have high: "(2 :: rat) powi (exponentOf x + 1) = of_int (2 ^ 53) * 2 powi ?e"
    using pow2_split [of 53 ?e] by (simp add: algebra_simps)
  have "of_int (2 ^ 52) \<le> x / 2 powi ?e"
    using exponentOf_bounds(1) [OF assms] unfolding low by (simp only: pos_le_divide_eq pow2_pos)
  then have "2 ^ 52 \<le> roundHalfEven (x / 2 powi ?e)" by (rule roundHalfEven_ge_int)
  then have "(of_int (2 ^ 52) :: rat) \<le> of_int (roundHalfEven (x / 2 powi ?e))" by (simp only: of_int_le_iff)
  then show "2 powi exponentOf x \<le> roundF64 x"
    using assms unfolding low roundF64_def by (simp add: Let_def)
  have "x / 2 powi ?e \<le> of_int (2 ^ 53)"
    using exponentOf_bounds(2) [OF assms] unfolding high
    by (simp only: pos_divide_le_eq pow2_pos less_imp_le)
  then have "roundHalfEven (x / 2 powi ?e) \<le> 2 ^ 53" by (rule roundHalfEven_le_int)
  then have "(of_int (roundHalfEven (x / 2 powi ?e)) :: rat) \<le> of_int (2 ^ 53)" by (simp only: of_int_le_iff)
  then show "roundF64 x \<le> 2 powi (exponentOf x + 1)"
    using assms unfolding high roundF64_def by (simp add: Let_def)
qed

lemma roundF64_nonneg: "0 \<le> roundF64 x"
proof (cases "0 < x")
  case True
  with roundF64_bounds(1) [of x] pow2_pos [of "exponentOf x"] show ?thesis by linarith
qed (simp add: roundF64_def)

lemma roundF64_pos: "0 < x \<Longrightarrow> 0 < roundF64 x"
  using roundF64_bounds(1) [of x] pow2_pos [of "exponentOf x"] by linarith

lemma roundF64_mono:
  assumes "x \<le> y"
  shows "roundF64 x \<le> roundF64 y"
proof (cases "0 < x")
  case True
  with assms have "0 < y" by simp
  have le: "exponentOf x \<le> exponentOf y" by (rule exponentOf_mono [OF True assms])
  show ?thesis
  proof (cases "exponentOf x = exponentOf y")
    case same: True
    have "roundHalfEven (x / 2 powi (exponentOf y - 52)) \<le> roundHalfEven (y / 2 powi (exponentOf y - 52))"
      using assms by (intro roundHalfEven_mono divide_right_mono) (simp_all add: less_imp_le)
    with True \<open>0 < y\<close> same show ?thesis by (simp add: roundF64_def Let_def)
  next
    case False
    with le have "(2 :: rat) powi (exponentOf x + 1) \<le> 2 powi exponentOf y"
      by (intro power_int_increasing) auto
    with roundF64_bounds(2) [OF True] roundF64_bounds(1) [OF \<open>0 < y\<close>] show ?thesis by linarith
  qed
next
  case False
  then show ?thesis using roundF64_nonneg [of y] by (simp add: roundF64_def)
qed

text \<open>Integers of at most 53 bits are exact.\<close>

lemma roundF64_nat:
  assumes "n \<le> 2 ^ 53"
  shows "roundF64 (of_nat n) = of_nat n"
proof (cases "n = 0")
  case True
  then show ?thesis by (simp add: roundF64_def)
next
  case False
  let ?x = "of_nat n :: rat"
  let ?e = "exponentOf ?x - 52"
  have pos: "0 < ?x" using False by simp
  have "?x \<le> of_nat (2 ^ 53)" using assms by (simp only: of_nat_le_iff)
  then have "?x \<le> 2 powi 53" by simp
  with exponentOf_bounds(1) [OF pos] have "(2 :: rat) powi exponentOf ?x \<le> 2 powi 53" by linarith
  then have le: "?e \<le> 1" using power_int_le_imp_le_exp [of "2 :: rat" "exponentOf ?x" 53] by linarith
  have "\<exists>k :: int. ?x / 2 powi ?e = of_int k"
  proof (cases "?e \<le> 0")
    case True
    then have "?x / 2 powi ?e = of_int (int n * 2 ^ nat (- ?e))"
      by (simp add: power_int_def field_simps)
    then show ?thesis by blast
  next
    case False
    with le have e1: "?e = 1" by simp
    then have "(2 :: rat) powi 53 \<le> ?x" using exponentOf_bounds(1) [OF pos] by simp
    then have "(of_nat (2 ^ 53) :: rat) \<le> of_nat n" by simp
    then have "2 ^ 53 \<le> n" by (simp only: of_nat_le_iff)
    with assms have "n = 2 ^ 53" by simp
    then have "?x / 2 powi ?e = of_int (2 ^ 52)" unfolding e1 by simp
    then show ?thesis by blast
  qed
  then obtain k where "?x / 2 powi ?e = of_int k" by blast
  then have "of_int (roundHalfEven (?x / 2 powi ?e)) = ?x / 2 powi ?e" by simp
  with pos show ?thesis by (simp add: roundF64_def Let_def)
qed

section \<open>Percentages\<close>

definition f64OfUint :: "u64 \<Rightarrow> rat" where
  "f64OfUint n = roundF64 (of_nat (unat n))"

definition percentage :: "u64 \<Rightarrow> u64 \<Rightarrow> f64" where
  "percentage numerator denominator =
     (if denominator = 0 then Fin 0
      else Fin (roundF64 (roundF64 (f64OfUint numerator * 100) / f64OfUint denominator)))"

text \<open>
  As long as the products fit 53 bits, the quotient is rounded once, so a comparison with an
  integer threshold is decided by the exact fraction on the safe side.
\<close>

declare of_nat_unat [simp del]

lemma f64OfUint_exact: "unat n \<le> 2 ^ 53 \<Longrightarrow> f64OfUint n = of_nat (unat n)"
  by (simp add: f64OfUint_def roundF64_nat)

lemma percentage_value:
  assumes "d \<noteq> 0" "unat n * 100 \<le> 2 ^ 53" "unat d \<le> 2 ^ 53"
  shows "percentage n d = Fin (roundF64 (of_nat (unat n * 100) / of_nat (unat d)))"
proof -
  have "unat n \<le> 2 ^ 53" using assms(2) by simp
  moreover have "roundF64 (of_nat (unat n) * 100) = of_nat (unat n * 100)"
    using roundF64_nat [OF assms(2)] by simp
  ultimately show ?thesis using assms by (simp add: percentage_def f64OfUint_exact)
qed

lemma percentage_ge:
  assumes "unat n * 100 \<le> 2 ^ 53" "unat d \<le> 2 ^ 53" "k \<le> 2 ^ 53" "d \<noteq> 0"
    and "k * unat d \<le> unat n * 100"
  shows "f64_le (Fin (of_nat k)) (percentage n d)"
proof -
  have d: "0 < (of_nat (unat d) :: rat)" using assms(4) by (simp add: unat_gt_0)
  have "(of_nat (k * unat d) :: rat) \<le> of_nat (unat n * 100)" using assms(5) by (simp only: of_nat_le_iff)
  then have "(of_nat k :: rat) \<le> of_nat (unat n * 100) / of_nat (unat d)"
    using d by (simp add: pos_le_divide_eq)
  then have "roundF64 (of_nat k) \<le> roundF64 (of_nat (unat n * 100) / of_nat (unat d))" by (rule roundF64_mono)
  then show ?thesis using assms by (simp add: percentage_value roundF64_nat)
qed

lemma percentage_le:
  assumes "unat n * 100 \<le> 2 ^ 53" "unat d \<le> 2 ^ 53" "k \<le> 2 ^ 53" "d \<noteq> 0"
    and "unat n * 100 \<le> k * unat d"
  shows "f64_le (percentage n d) (Fin (of_nat k))"
proof -
  have d: "0 < (of_nat (unat d) :: rat)" using assms(4) by (simp add: unat_gt_0)
  have "(of_nat (unat n * 100) :: rat) \<le> of_nat (k * unat d)" using assms(5) by (simp only: of_nat_le_iff)
  then have "of_nat (unat n * 100) / of_nat (unat d) \<le> (of_nat k :: rat)"
    using d by (simp add: pos_divide_le_eq)
  then have "roundF64 (of_nat (unat n * 100) / of_nat (unat d)) \<le> roundF64 (of_nat k)" by (rule roundF64_mono)
  then show ?thesis using assms by (simp add: percentage_value roundF64_nat)
qed

lemma percentage_pos:
  assumes "d \<noteq> 0" "n \<noteq> 0" "unat n * 100 \<le> 2 ^ 53" "unat d \<le> 2 ^ 53"
  shows "\<exists>p > 0. percentage n d = Fin p"
  using assms by (simp add: percentage_value roundF64_pos unat_gt_0)

lemma percentage_zero [simp]: "percentage 0 d = Fin 0"
  by (simp add: percentage_def f64OfUint_def roundF64_def)

text \<open>\<open>percentage\<close> of a part and its whole, while \<open>100 * whole\<close> fits 53 bits, is a finite
  number between 0 and 100, is 0 exactly when the part is 0, and is compared with a whole-number
  threshold \<open>k\<close> as the exact fraction is: it reaches \<open>k\<close> when \<open>k * whole <= 100 * part\<close>
  and does not exceed it when \<open>100 * part <= k * whole\<close>.\<close>

theorem percentage_in_range:
  assumes "unat n \<le> unat d" "100 * unat d \<le> 2 ^ 53"
  shows "\<exists>p. percentage n d = Fin p \<and> 0 \<le> p \<and> p \<le> 100 \<and> (p = 0 \<longleftrightarrow> n = 0) \<and>
           (\<forall>k \<le> 2 ^ 53. d \<noteq> 0 \<longrightarrow>
              (k * unat d \<le> 100 * unat n \<longrightarrow> of_nat k \<le> p) \<and>
              (100 * unat n \<le> k * unat d \<longrightarrow> p \<le> of_nat k))"
proof (cases "d = 0")
  case True
  then have "n = 0" using assms(1) by (simp add: unat_eq_zero)
  with True show ?thesis by (auto simp: percentage_def)
next
  case False
  have size: "unat n * 100 \<le> 2 ^ 53" "unat d \<le> 2 ^ 53" using assms by simp_all
  obtain p where p: "percentage n d = Fin p" using percentage_value [OF False size] by blast
  have lo: "of_nat k \<le> p" if "k \<le> 2 ^ 53" "k * unat d \<le> 100 * unat n" for k
    using percentage_ge [OF size that(1) False] that(2) p by (simp add: mult.commute)
  have hi: "p \<le> of_nat k" if "k \<le> 2 ^ 53" "100 * unat n \<le> k * unat d" for k
    using percentage_le [OF size that(1) False] that(2) p by (simp add: mult.commute)
  have "0 \<le> p" using lo [of 0] by simp
  moreover have "p \<le> 100" using hi [of 100] assms(1) by simp
  moreover have "p = 0 \<longleftrightarrow> n = 0" using percentage_pos [OF False _ size] p percentage_zero [of d] by auto
  ultimately show ?thesis using p lo hi by blast
qed

theorem percentage_in_range_witness:
  "\<exists>p. percentage 1 3 = Fin p \<and> 0 \<le> p \<and> p \<le> 100 \<and> of_nat 33 \<le> p \<and> p \<le> of_nat 34"
proof -
  have three: "unat (3 :: u64) = 3" "unat (1 :: u64) = 1" by simp_all
  have "unat (1 :: u64) \<le> unat (3 :: u64)" "100 * unat (3 :: u64) \<le> 2 ^ 53" by simp_all
  from percentage_in_range [OF this] obtain p where p: "percentage 1 3 = Fin p" "0 \<le> p" "p \<le> 100"
    and k: "\<And>k. k \<le> 2 ^ 53 \<Longrightarrow> (k * 3 \<le> 100 \<longrightarrow> of_nat k \<le> p) \<and> (100 \<le> k * 3 \<longrightarrow> p \<le> of_nat k)"
    unfolding three by auto
  from k [of 33] k [of 34] have "of_nat 33 \<le> p" "p \<le> of_nat 34" by simp_all
  with p show ?thesis by blast
qed

end
