(* ===== verification/Env.thy ===== *)
theory Env
  imports GoStrings Float64
begin

text \<open>
  Environment variables as the two programs read them: the collector's \<open>getEnv\<close>,
  \<open>getEnvInt\<close>, \<open>getEnvBool\<close> (\<open>main.go\<close>), \<open>getEnvFloat\<close>, \<open>getEnvUint64\<close>
  (\<open>alerts.go\<close>), which fall back to the default on a bad value, and the reprocessor's
  (\<open>reprocesador/config.go\<close>, \<open>reprocess_alerts.go\<close>), most of which report it.  The parsers of
  \<open>strconv\<close> are modelled on decimal syntax; hexadecimal floats and results below the normal
  range are not.
\<close>

type_synonym env = "string \<Rightarrow> string option"

definition emptyEnv :: env where "emptyEnv = (\<lambda>_. None)"

section \<open>Parsers of \<open>strconv\<close>\<close>

definition parseUint :: "string \<Rightarrow> num_error + u64" where
  "parseUint s =
     (if s = [] \<or> \<not> list_all isDigitChar s \<or> decVal s \<ge> 2 ^ 64 then Inl BadNumber
      else Inr (of_nat (decVal s)))"

definition parseBool :: "string \<Rightarrow> num_error + bool" where
  "parseBool s =
     (if s \<in> {''1'', ''t'', ''T'', ''TRUE'', ''true'', ''True''} then Inr True
      else if s \<in> {''0'', ''f'', ''F'', ''FALSE'', ''false'', ''False''} then Inr False
      else Inl BadNumber)"

text \<open>Digits, an optional fraction, an optional exponent: the exact value, before rounding.\<close>

definition decimalExponent :: "string \<Rightarrow> int option" where
  "decimalExponent s =
     (case s of
        [] \<Rightarrow> Some 0
      | c # r \<Rightarrow>
          (if c \<noteq> CHR ''e'' \<and> c \<noteq> CHR ''E'' then None
           else let neg = (r \<noteq> [] \<and> hd r = CHR ''-'');
                    ds = (if r \<noteq> [] \<and> (hd r = CHR ''-'' \<or> hd r = CHR ''+'') then tl r else r)
                in if ds = [] \<or> \<not> list_all isDigitChar ds then None
                   else Some (if neg then - int (decVal ds) else int (decVal ds))))"

definition decimalValue :: "string \<Rightarrow> rat option" where
  "decimalValue s =
     (let whole = takeWhile isDigitChar s;
          r = dropWhile isDigitChar s;
          dotted = (r \<noteq> [] \<and> hd r = CHR ''.'');
          frac = (if dotted then takeWhile isDigitChar (tl r) else []);
          r = (if dotted then dropWhile isDigitChar (tl r) else r)
      in if whole = [] \<and> frac = [] then None
         else map_option (\<lambda>e. of_nat (decVal (whole @ frac)) * 10 powi (e - int (length frac))) (decimalExponent r))"

definition parseFloat :: "string \<Rightarrow> num_error + f64" where
  "parseFloat s =
     (let signed = (s \<noteq> [] \<and> (hd s = CHR ''-'' \<or> hd s = CHR ''+''));
          neg = (signed \<and> hd s = CHR ''-'');
          r = (if signed then tl s else s)
      in if toLower r \<in> {''inf'', ''infinity''} then Inr (if neg then NegInf else PosInf)
         else if \<not> signed \<and> toLower r = ''nan'' then Inr NaN
         else (case decimalValue r of
                 None \<Rightarrow> Inl BadNumber
               | Some v \<Rightarrow> (let x = roundF64 v
                            in if x \<ge> 2 ^ 1024 then Inl BadNumber else Inr (Fin (if neg then - x else x)))))"

section \<open>The collector\<close>

definition osGetenv :: "env \<Rightarrow> string \<Rightarrow> string" where
  "osGetenv env key = (case env key of None \<Rightarrow> [] | Some v \<Rightarrow> v)"

definition getEnv :: "env \<Rightarrow> string \<Rightarrow> string \<Rightarrow> string" where
  "getEnv env key defaultValue =
     (let value = trimSpace (osGetenv env key) in if value = [] then defaultValue else value)"

definition getEnvInt :: "env \<Rightarrow> string \<Rightarrow> int \<Rightarrow> int" where
  "getEnvInt env key defaultValue =
     (let value = trimSpace (osGetenv env key)
      in if value = [] then defaultValue
         else case atoi value of Inl _ \<Rightarrow> defaultValue | Inr number \<Rightarrow> number)"

definition getEnvBool :: "env \<Rightarrow> string \<Rightarrow> bool \<Rightarrow> bool" where
  "getEnvBool env key defaultValue =
     (let value = toLower (trimSpace (osGetenv env key))
      in if value = [] then defaultValue
         else if value \<in> {''1'', ''true'', ''yes'', ''y'', ''on'', ''si'', ''s''} then True
         else if value \<in> {''0'', ''false'', ''no'', ''n'', ''off''} then False
         else defaultValue)"

definition getEnvFloat :: "env \<Rightarrow> string \<Rightarrow> f64 \<Rightarrow> f64" where
  "getEnvFloat env key defaultValue =
     (let value = trimSpace (osGetenv env key)
      in if value = [] then defaultValue
         else case parseFloat value of Inl _ \<Rightarrow> defaultValue | Inr number \<Rightarrow> number)"

definition getEnvUint64 :: "env \<Rightarrow> string \<Rightarrow> u64 \<Rightarrow> u64" where
  "getEnvUint64 env key defaultValue =
     (let value = trimSpace (osGetenv env key)
      in if value = [] then defaultValue
         else case parseUint value of Inl _ \<Rightarrow> defaultValue | Inr number \<Rightarrow> number)"

section \<open>The reprocessor\<close>

datatype env_error = NotAnInteger string | NotABool string | NotANumber string

definition lookupTrimmed :: "env \<Rightarrow> string \<Rightarrow> string option" where
  "lookupTrimmed env key =
     (case env key of None \<Rightarrow> None | Some v \<Rightarrow> (if trimSpace v = [] then None else Some (trimSpace v)))"

definition reprocessGetEnv :: "env \<Rightarrow> string \<Rightarrow> string \<Rightarrow> string" where
  "reprocessGetEnv env key fallback = (case lookupTrimmed env key of None \<Rightarrow> fallback | Some v \<Rightarrow> v)"

definition reprocessGetEnvInt :: "env \<Rightarrow> string \<Rightarrow> int \<Rightarrow> env_error + int" where
  "reprocessGetEnvInt env key fallback =
     (case lookupTrimmed env key of
        None \<Rightarrow> Inr fallback
      | Some v \<Rightarrow> (case atoi v of Inl _ \<Rightarrow> Inl (NotAnInteger key) | Inr n \<Rightarrow> Inr n))"

definition reprocessGetEnvBool :: "env \<Rightarrow> string \<Rightarrow> bool \<Rightarrow> env_error + bool" where
  "reprocessGetEnvBool env key fallback =
     (case lookupTrimmed env key of
        None \<Rightarrow> Inr fallback
      | Some v \<Rightarrow> (case parseBool v of Inl _ \<Rightarrow> Inl (NotABool key) | Inr b \<Rightarrow> Inr b))"

lemma lookupTrimmed_empty [simp]: "lookupTrimmed emptyEnv key = None"
  by (simp add: lookupTrimmed_def emptyEnv_def)

lemma getEnv_empty [simp]:
  "getEnv emptyEnv key s = s" "getEnvInt emptyEnv key i = i" "getEnvBool emptyEnv key b = b"
  "getEnvFloat emptyEnv key x = x" "getEnvUint64 emptyEnv key n = n"
  by (simp_all add: getEnv_def getEnvInt_def getEnvBool_def getEnvFloat_def getEnvUint64_def osGetenv_def
      emptyEnv_def trimSpace_def trimLeft_def trimRight_def toLower_def)

text \<open>A value written by \<open>itoa\<close> is read back, with blanks around it or not.\<close>

lemma trimSpace_itoa: "trimSpace (itoa i) = itoa i"
proof (rule trimSpace_no_space)
  fix c
  assume "c \<in> set (itoa i)"
  then have "isDigitChar c \<or> c = CHR ''-''" by (auto simp: itoa_def natDigits_digits split: if_splits)
  then show "\<not> isSpaceChar c" by (auto simp: isDigitChar_def isSpaceChar_def)
qed

lemma itoa_not_Nil: "itoa i \<noteq> []"
  by (simp add: itoa_def)

lemma getEnvInt_itoa:
  "env key = Some (itoa i) \<Longrightarrow> - (2 ^ 63) \<le> i \<Longrightarrow> i < 2 ^ 63 \<Longrightarrow> getEnvInt env key d = i"
  by (simp add: getEnvInt_def osGetenv_def trimSpace_itoa itoa_not_Nil atoi_itoa Let_def)

end
