(* ===== verification/SimulatorRun.thy ===== *)
theory SimulatorRun
  imports Simulator Env
begin

text \<open>
  The UDP simulator as a program (\<open>cmd/udp-simulator/main.go\<close>): its flags, the ramp of the packet
  rate, the senders with their rate accumulators, and the report.  The senders, the ramp and the
  context interleave in any order; the answers of \<open>DialUDP\<close>, \<open>Write\<close> and the clock are inputs of the
  steps.
\<close>

section \<open>Flags\<close>







record sim_options =
  simPacket :: sim_config
  simTarget :: string
  simDuration :: int
  simPPS :: int
  simStartPPS :: int
  simMaxPPS :: int
  simStepPPS :: int
  simStepEvery :: int
  simWorkers :: int
  simReportEvery :: int





section \<open>The goroutines\<close>

text \<open>
  A sender waits for its ticker with its buffer and what is left of the rate, or is in the middle of
  the packets of a tick.  \<open>simLog\<close> is a history of the packets tried: sequence number, time,
  datagram, whether \<open>Write\<close> took it.
\<close>

datatype sender = NotDialed | Ticking bytes rat | Bursting bytes rat u32 nat | SenderDone

record sim_state =
  simSequence :: u64
  simAttempts :: u64
  simSent :: u64
  simErrors :: u64
  currentPPS :: int
  senders :: "nat \<Rightarrow> sender"
  dialErrors :: nat
  simLog :: "(u64 \<times> u32 \<times> bytes \<times> bool) list"





text \<open>
  One tick of 10 ms: the share of the rate is added to the accumulator, in 64-bit floats; its whole
  part is the number of packets.  Each operation rounds, as on processors where Go does not fuse a
  multiplication with an addition.
\<close>

definition roundSigned :: "rat \<Rightarrow> rat" where
  "roundSigned x = (if x < 0 then - roundF64 (- x) else roundF64 x)"


definition floatOf :: "int \<Rightarrow> rat" where "floatOf n = roundSigned (of_int n)"






section \<open>The report\<close>

text \<open>One line of \<open>reportLoop\<close>: counters, rates, estimate; then the readings to subtract next time.\<close>

record sim_report =
  reportSent :: u64
  reportRate :: rat
  reportErrors :: u64
  reportErrorRate :: rat
  reportRecords :: u64

definition durationSeconds :: "int \<Rightarrow> rat" where
  "durationSeconds d = roundF64 (floatOf (d div 1000000000) + roundF64 (floatOf (d mod 1000000000) / 1000000000))"

definition recordsSentEstimated :: "sim_options \<Rightarrow> sim_state \<Rightarrow> u64" where
  "recordsSentEstimated opts s = simSent s * word_of_int (recordsPerPacket (simPacket opts))"

definition reportTurn :: "sim_options \<Rightarrow> sim_state \<Rightarrow> u64 \<times> u64 \<Rightarrow> sim_report \<times> u64 \<times> u64" where
  "reportTurn opts s = (\<lambda>(previousSent, previousErrors).
     (\<lparr>reportSent = simSent s,
       reportRate = roundF64 (f64OfUint (simSent s - previousSent) / durationSeconds (simReportEvery opts)),
       reportErrors = simErrors s,
       reportErrorRate = roundF64 (f64OfUint (simErrors s - previousErrors) / durationSeconds (simReportEvery opts)),
       reportRecords = recordsSentEstimated opts s\<rparr>, simSent s, simErrors s))"

section \<open>Valid flags\<close>








section \<open>The packets of all senders\<close>













section \<open>The rate\<close>













section \<open>An example\<close>










end
