(* ===== verification/FileSys.thy ===== *)
theory FileSys
  imports Prelude "HOL-Library.AList" "HOL-Library.Char_ord" "HOL-Library.List_Lexorder"
begin

text \<open>
  The files the program keeps on disk, as the \<open>os\<close> package shows them.  A file has a
  directory and a base name; its content is a complete value or torn (created or truncated, the
  write not finished).  Every call takes the next entry of \<open>faults\<close> (True: the call fails; an
  exhausted list means success), and every state the disk goes through is recorded in
  \<open>trace\<close>: these are the states a crash can leave behind.  A JSON document is modelled by the
  value it encodes, so \<open>json.Unmarshal\<close> fails exactly on torn files.
\<close>

section \<open>The disk\<close>

type_synonym path = "string \<times> string"

datatype 'c content = Whole 'c | Torn

type_synonym 'c disk = "(path \<times> 'c content) list"

record 'c world =
  files :: "'c disk"
  faults :: "bool list"
  suffixes :: "string list"
  trace :: "'c disk list"

definition fileAt :: "'c world \<Rightarrow> path \<Rightarrow> 'c content option" where
  "fileAt w p = map_of (files w) p"

definition popOr :: "'a \<Rightarrow> 'a list \<Rightarrow> 'a \<times> 'a list" where
  "popOr d xs = (case xs of [] \<Rightarrow> (d, []) | x # r \<Rightarrow> (x, r))"

definition changeTo :: "'c disk \<Rightarrow> 'c world \<Rightarrow> 'c world" where
  "changeTo d w = w\<lparr>files := d, trace := trace w @ [d]\<rparr>"

text \<open>A call that succeeds does \<open>good\<close> to the disk, one that fails does \<open>bad\<close>.\<close>

definition sysCall :: "('c disk \<Rightarrow> 'c disk) \<Rightarrow> ('c disk \<Rightarrow> 'c disk) \<Rightarrow> 'c world \<Rightarrow> bool \<times> 'c world" where
  "sysCall good bad w =
     (let (fault, rest) = popOr False (faults w);
          w = w\<lparr>faults := rest\<rparr>
      in if fault then (False, changeTo (bad (files w)) w) else (True, changeTo (good (files w)) w))"

definition openTrunc :: "path \<Rightarrow> 'c world \<Rightarrow> bool \<times> 'c world" where
  "openTrunc p = sysCall (AList.update p Torn) (\<lambda>d. d)"

definition writeContent :: "path \<Rightarrow> 'c \<Rightarrow> 'c world \<Rightarrow> bool \<times> 'c world" where
  "writeContent p v = sysCall (AList.update p (Whole v)) (AList.update p Torn)"

text \<open>\<open>Chmod\<close>, \<open>Sync\<close> and \<open>Close\<close> change no content.\<close>

definition quietCall :: "'c world \<Rightarrow> bool \<times> 'c world" where
  "quietCall = sysCall (\<lambda>d. d) (\<lambda>d. d)"

definition renameFile :: "path \<Rightarrow> path \<Rightarrow> 'c world \<Rightarrow> bool \<times> 'c world" where
  "renameFile src dst w =
     (case fileAt w src of
        None \<Rightarrow> (False, w)
      | Some c \<Rightarrow> sysCall (\<lambda>d. AList.update dst c (AList.delete src d)) (\<lambda>d. d) w)"

definition removeFile :: "path \<Rightarrow> 'c world \<Rightarrow> bool \<times> 'c world" where
  "removeFile p w =
     (case fileAt w p of None \<Rightarrow> (False, w) | Some _ \<Rightarrow> sysCall (AList.delete p) (\<lambda>d. d) w)"

definition readFile :: "path \<Rightarrow> 'c world \<Rightarrow> 'c content option \<times> 'c world" where
  "readFile p w =
     (case fileAt w p of
        None \<Rightarrow> (None, w)
      | Some c \<Rightarrow> (let (ok, w) = quietCall w in (if ok then Some c else None, w)))"

text \<open>\<open>os.ReadDir\<close> returns the names of a directory in increasing order.\<close>

definition namesIn :: "string \<Rightarrow> 'c disk \<Rightarrow> string list" where
  "namesIn dir d = sort (remdups (map snd (filter (\<lambda>p. fst p = dir) (map fst d))))"

definition readDir :: "string \<Rightarrow> 'c world \<Rightarrow> string list option \<times> 'c world" where
  "readDir dir w = (let (ok, w) = quietCall w in (if ok then Some (namesIn dir (files w)) else None, w))"

text \<open>
  \<open>os.CreateTemp\<close> with the last random suffix it tried: it fails when that name is taken.
\<close>

definition createTemp :: "string \<Rightarrow> string \<Rightarrow> string \<Rightarrow> 'c world \<Rightarrow> path option \<times> 'c world" where
  "createTemp dir prefix suffix w =
     (let (random, rest) = popOr ''0'' (suffixes w);
          p = (dir, prefix @ random @ suffix);
          w = w\<lparr>suffixes := rest\<rparr>
      in if fileAt w p \<noteq> None then (None, w)
         else let (ok, w) = openTrunc p w in (if ok then Some p else None, w))"

lemmas file_ops = openTrunc_def writeContent_def quietCall_def

lemma namesIn_set: "set (namesIn dir d) = {n. map_of d (dir, n) \<noteq> None}"
  by (force simp: namesIn_def map_of_eq_None_iff)

section \<open>What the calls do to one path\<close>

text \<open>
  \<open>keeps Q w w'\<close>: going from \<open>w\<close> to \<open>w'\<close> the disk only went through states
  with the property \<open>Q\<close>.
\<close>

definition keeps :: "('c disk \<Rightarrow> bool) \<Rightarrow> 'c world \<Rightarrow> 'c world \<Rightarrow> bool" where
  "keeps Q w w' = (\<exists>t. trace w' = trace w @ t \<and> (\<forall>d \<in> set t. Q d))"

lemma keeps_refl [simp]: "keeps Q w w"
  by (simp add: keeps_def)

lemma keeps_trans: "keeps Q w w' \<Longrightarrow> keeps Q w' w'' \<Longrightarrow> keeps Q w w''"
  by (fastforce simp: keeps_def)

lemma keeps_mono: "keeps Q w w' \<Longrightarrow> (\<And>d. Q d \<Longrightarrow> R d) \<Longrightarrow> keeps R w w'"
  by (fastforce simp: keeps_def)

lemma keeps_irrelevant [simp]:
  "keeps Q (w\<lparr>suffixes := x\<rparr>) w' = keeps Q w w'"
  "keeps Q w (w'\<lparr>suffixes := x\<rparr>) = keeps Q w w'"
  by (simp_all add: keeps_def)

lemma fileAt_suffixes [simp]: "fileAt (w\<lparr>suffixes := x\<rparr>) p = fileAt w p"
  by (simp add: fileAt_def)

lemma sysCall_cases:
  assumes "sysCall good bad w = (ok, w')"
  obtains "ok" "files w' = good (files w)" "trace w' = trace w @ [good (files w)]"
  | "\<not> ok" "files w' = bad (files w)" "trace w' = trace w @ [bad (files w)]"
  using assms by (auto simp: sysCall_def changeTo_def Let_def split: prod.splits if_splits)

lemma sysCall_keeps:
  assumes "sysCall good bad w = (ok, w')" "Q (good (files w))" "Q (bad (files w))"
  shows "keeps Q w w'" "Q (files w')"
  using assms by (auto simp: keeps_def elim!: sysCall_cases)

lemma map_of_change [simp]:
  "map_of (AList.update k v d) p = (if p = k then Some v else map_of d p)"
  "map_of (AList.delete k d) p = (if p = k then None else map_of d p)"
  by (simp_all add: update_conv' delete_conv')

text \<open>A property of the disk that both outcomes of a call keep is kept by the call.\<close>

lemma renameFile_keeps:
  assumes "renameFile src dst w = (ok, w')" "Q (files w)"
    and "\<And>c. fileAt w src = Some c \<Longrightarrow> Q (AList.update dst c (AList.delete src (files w)))"
  shows "keeps Q w w' \<and> Q (files w')"
  using assms by (auto simp: renameFile_def split: option.splits dest: sysCall_keeps [where Q = Q])

lemma removeFile_keeps:
  assumes "removeFile p w = (ok, w')" "Q (files w)" "Q (AList.delete p (files w))"
  shows "keeps Q w w' \<and> Q (files w')"
  using assms by (auto simp: removeFile_def split: option.splits dest: sysCall_keeps [where Q = Q])

lemma openTrunc_keeps:
  assumes "openTrunc p w = (ok, w')" "Q (files w)" "Q (AList.update p Torn (files w))"
  shows "keeps Q w w' \<and> Q (files w')"
  using assms by (auto simp: openTrunc_def dest: sysCall_keeps [where Q = Q])

lemma writeContent_keeps:
  assumes "writeContent p v w = (ok, w')"
    "Q (AList.update p (Whole v) (files w))" "Q (AList.update p Torn (files w))"
  shows "keeps Q w w' \<and> Q (files w')"
  using assms by (auto simp: writeContent_def dest: sysCall_keeps [where Q = Q])

lemma quietCall_keeps:
  assumes "quietCall w = (ok, w')" "Q (files w)"
  shows "keeps Q w w' \<and> Q (files w')"
  using assms by (auto simp: quietCall_def dest: sysCall_keeps [where Q = Q])

lemma createTemp_keeps:
  assumes "createTemp dir prefix suffix w = (r, w')" "Q (files w)"
    and "\<And>x. map_of (files w) (dir, prefix @ x @ suffix) = None
           \<Longrightarrow> Q (AList.update (dir, prefix @ x @ suffix) Torn (files w))"
  shows "keeps Q w w' \<and> Q (files w')"
proof -
  obtain x rest where pop: "popOr ''0'' (suffixes w) = (x, rest)" by fastforce
  show ?thesis
  proof (cases "map_of (files w) (dir, prefix @ x @ suffix)")
    case None
    obtain ok w1 where o: "openTrunc (dir, prefix @ x @ suffix) (w\<lparr>suffixes := rest\<rparr>) = (ok, w1)" by fastforce
    with None assms(1) pop have "w1 = w'" by (auto simp: createTemp_def fileAt_def split: if_splits)
    with o None assms(2,3) show ?thesis
      using openTrunc_keeps [where Q = Q, OF o] by simp
  next
    case (Some c)
    with assms pop show ?thesis by (auto simp: createTemp_def fileAt_def)
  qed
qed

section \<open>Atomic replacement\<close>

text \<open>
  \<open>writeJSONAtomically\<close> and \<open>writeReprocessAlertFile\<close>: write a temporary file in the same
  directory, flush it and rename it over the target; the deferred \<open>os.Remove\<close> runs on every
  path once the temporary file exists.
\<close>

definition writeTemporary :: "path \<Rightarrow> path \<Rightarrow> 'c \<Rightarrow> 'c world \<Rightarrow> bool \<times> 'c world" where
  "writeTemporary p tmp v w =
     (let (chmod, w) = quietCall w
      in if \<not> chmod then (False, snd (quietCall w))
      else let (written, w) = writeContent tmp v w
      in if \<not> written then (False, snd (quietCall w))
      else let (synced, w) = quietCall w
      in if \<not> synced then (False, snd (quietCall w))
      else let (closed, w) = quietCall w
      in if \<not> closed then (False, w)
      else renameFile tmp p w)"

definition writeAtomically :: "string \<Rightarrow> path \<Rightarrow> 'c \<Rightarrow> 'c world \<Rightarrow> bool \<times> 'c world" where
  "writeAtomically prefix p v w =
     (case createTemp (fst p) prefix ''.tmp'' w of
        (None, w) \<Rightarrow> (False, w)
      | (Some tmp, w) \<Rightarrow> (let (ok, w) = writeTemporary p tmp v w in (ok, snd (removeFile tmp w))))"

definition writeJSONAtomically :: "path \<Rightarrow> 'c \<Rightarrow> 'c world \<Rightarrow> bool \<times> 'c world" where
  "writeJSONAtomically = writeAtomically ''.alert-''"

definition writeReprocessAlertFile :: "path \<Rightarrow> 'c \<Rightarrow> 'c world \<Rightarrow> bool \<times> 'c world" where
  "writeReprocessAlertFile = writeAtomically ''.reprocess-alert-''"

definition isTempName :: "string \<Rightarrow> bool" where
  "isTempName n = (\<exists>x. n = x @ ''.tmp'')"

text \<open>
  The contract of an atomic writer: success puts the value at the path, failure leaves the path
  alone, no crash point shows anything but the old or the new content there, and no other file
  that is not a temporary one is touched.
\<close>

locale atomic_writer =
  fixes write_file :: "path \<Rightarrow> 'c \<Rightarrow> 'c world \<Rightarrow> bool \<times> 'c world"
  assumes stored: "write_file p v w = (True, w') \<Longrightarrow> \<not> isTempName (snd p) \<Longrightarrow> fileAt w' p = Some (Whole v)"
    and refused: "write_file p v w = (False, w') \<Longrightarrow> \<not> isTempName (snd p) \<Longrightarrow> fileAt w' p = fileAt w p"
    and atomic: "write_file p v w = (ok, w') \<Longrightarrow> \<not> isTempName (snd p)
      \<Longrightarrow> keeps (\<lambda>d. map_of d p = fileAt w p \<or> map_of d p = Some (Whole v)) w w'"
    and others: "write_file p v w = (ok, w') \<Longrightarrow> q \<noteq> p \<Longrightarrow> \<not> isTempName (snd q)
      \<Longrightarrow> keeps (\<lambda>d. map_of d q = fileAt w q) w w' \<and> fileAt w' q = fileAt w q"
begin

text \<open>Whatever was readable stays readable, at every crash point.\<close>

lemma never_torn:
  assumes "write_file p v w = (ok, w')" "\<not> isTempName (snd q)" "fileAt w q \<noteq> Some Torn"
  shows "keeps (\<lambda>d. map_of d q \<noteq> Some Torn) w w' \<and> fileAt w' q \<noteq> Some Torn"
proof (cases "q = p")
  case True
  with assms have "keeps (\<lambda>d. map_of d q \<noteq> Some Torn) w w'"
    by (auto intro: keeps_mono [OF atomic])
  moreover have "fileAt w' q \<noteq> Some Torn"
    using assms True stored [of p v w w'] refused [of p v w w'] by (cases ok) auto
  ultimately show ?thesis by simp
next
  case False
  with others [OF assms(1) False assms(2)] assms(3) show ?thesis
    by (auto intro: keeps_mono)
qed

end

section \<open>The writers meet the contract\<close>

lemma quietCall_files: "quietCall w = (ok, w') \<Longrightarrow> files w' = files w"
  by (auto simp: quietCall_def elim: sysCall_cases)

lemma quietCall_fileAt: "quietCall w = (ok, w') \<Longrightarrow> fileAt w' q = fileAt w q"
  by (simp add: fileAt_def quietCall_files)

lemma writeContent_stored: "writeContent p v w = (True, w') \<Longrightarrow> fileAt w' p = Some (Whole v)"
  by (auto simp: writeContent_def fileAt_def elim!: sysCall_cases)

lemma renameFile_stored:
  "renameFile src dst w = (True, w') \<Longrightarrow> fileAt w src = Some c \<Longrightarrow> fileAt w' dst = Some c"
  by (auto simp: renameFile_def fileAt_def elim!: sysCall_cases)

lemma renameFile_refused: "renameFile src dst w = (False, w') \<Longrightarrow> files w' = files w"
  by (auto simp: renameFile_def split: option.splits elim!: sysCall_cases)

text \<open>
  Every run of \<open>writeTemporary\<close> either stops before the rename, or reaches it with the whole
  value in the temporary file; until then only the temporary file changes.
\<close>

lemma writeTemporary_cases:
  assumes "writeTemporary p tmp v w = (ok, w')" and start: "Q (files w)"
    and step: "\<And>d c. Q d \<Longrightarrow> Q (AList.update tmp c d)"
  obtains (stopped) "\<not> ok" "keeps Q w w'" "Q (files w')"
  | (renamed) x where "keeps Q w x" "Q (files x)" "fileAt x tmp = Some (Whole v)" "renameFile tmp p x = (ok, w')"
proof -
  have quiet: "keeps Q x x' \<and> Q (files x')" if "quietCall x = (b, x')" "Q (files x)" for x b x'
    using that by (rule quietCall_keeps)
  obtain b1 w1 where 1: "quietCall w = (b1, w1)" by fastforce
  obtain b2 w2 where 2: "writeContent tmp v w1 = (b2, w2)" by fastforce
  obtain b3 w3 where 3: "quietCall w2 = (b3, w3)" by fastforce
  obtain b4 w4 where 4: "quietCall w3 = (b4, w4)" by fastforce
  obtain b5 w5 where 5: "quietCall w1 = (b5, w5)" by fastforce
  note k1 = quiet [OF 1 start]
  have k2: "keeps Q w1 w2 \<and> Q (files w2)" using k1 step by (intro writeContent_keeps [OF 2]) simp_all
  note k3 = quiet [OF 3 conjunct2 [OF k2]]
  note k4 = quiet [OF 4 conjunct2 [OF k3]]
  note k5 = quiet [OF 5 conjunct2 [OF k1]]
  have upto: "keeps Q w w3" "keeps Q w w4" "keeps Q w w5" using k1 k2 k3 k4 k5 by (blast intro: keeps_trans)+
  consider "\<not> b1" "ok = False" "w' = w5" | "b1" "\<not> b2" "ok = False" "w' = w3"
    | "b1" "b2" "\<not> b3" "ok = False" "w' = w4" | "b1" "b2" "b3" "\<not> b4" "ok = False" "w' = w4"
    | "b1" "b2" "b3" "b4" "renameFile tmp p w4 = (ok, w')"
    using assms(1) unfolding writeTemporary_def by (auto simp: 1 2 3 4 5 Let_def split: if_splits)
  then show thesis
  proof cases
    case 5
    have "fileAt w4 tmp = Some (Whole v)"
      using writeContent_stored [of tmp v w1 w2] 2 3 4 5 by (simp add: quietCall_fileAt)
    with 5 upto(2) k4 show ?thesis by (intro renamed [of w4]) simp_all
  qed (use upto k3 k4 k5 stopped in simp_all)
qed

lemma writeTemporary_other:
  assumes "writeTemporary p tmp v w = (ok, w')" "q \<noteq> tmp" "q \<noteq> p"
  shows "keeps (\<lambda>d. map_of d q = fileAt w q) w w' \<and> fileAt w' q = fileAt w q"
proof -
  define Q where "Q = (\<lambda>d. map_of d q = fileAt w q)"
  have start: "Q (files w)" by (simp add: Q_def fileAt_def)
  have "keeps Q w w' \<and> Q (files w')"
  proof (rule writeTemporary_cases [OF assms(1), of Q, OF start])
    show "Q (AList.update tmp c d)" if "Q d" for d c using that assms(2) by (simp add: Q_def)
  next
    fix x assume x: "keeps Q w x" "Q (files x)" "renameFile tmp p x = (ok, w')"
    have "keeps Q x w' \<and> Q (files w')"
      using x(2) assms(2,3) by (intro renameFile_keeps [OF x(3)]) (simp_all add: Q_def)
    with x(1) show ?thesis by (auto intro: keeps_trans)
  qed simp
  then show ?thesis by (simp add: Q_def fileAt_def)
qed

text \<open>The target changes from its old content to the new one in a single step.\<close>

lemma writeTemporary_target:
  assumes "writeTemporary p tmp v w = (ok, w')" "p \<noteq> tmp"
  shows "keeps (\<lambda>d. map_of d p = fileAt w p \<or> map_of d p = Some (Whole v)) w w'
       \<and> fileAt w' p = (if ok then Some (Whole v) else fileAt w p)"
proof -
  define Q where "Q = (\<lambda>d. map_of d p = fileAt w p)"
  define R where "R = (\<lambda>d. map_of d p = fileAt w p \<or> map_of d p = Some (Whole v))"
  have QR: "Q d \<Longrightarrow> R d" for d by (simp add: Q_def R_def)
  have start: "Q (files w)" by (simp add: Q_def fileAt_def)
  have "keeps R w w' \<and> fileAt w' p = (if ok then Some (Whole v) else fileAt w p)"
  proof (rule writeTemporary_cases [OF assms(1), of Q, OF start])
    show "Q (AList.update tmp c d)" if "Q d" for d c using that assms(2) by (simp add: Q_def)
  next
    fix x assume x: "keeps Q w x" "Q (files x)" "fileAt x tmp = Some (Whole v)" "renameFile tmp p x = (ok, w')"
    have "keeps R x w' \<and> R (files w')"
      using x assms(2) by (intro renameFile_keeps [OF x(4)]) (auto simp: Q_def R_def)
    then have "keeps R x w'" by simp
    moreover have "keeps R w x" by (rule keeps_mono [OF x(1)]) (rule QR)
    ultimately have "keeps R w w'" by (rule keeps_trans [rotated])
    with x show ?thesis
      using renameFile_stored [of tmp p x w'] renameFile_refused [of tmp p x w']
      by (cases ok) (simp_all add: Q_def fileAt_def)
  next
    assume stop: "\<not> ok" "keeps Q w w'" "Q (files w')"
    have "keeps R w w'" by (rule keeps_mono [OF stop(2)]) (rule QR)
    with stop show ?thesis by (simp add: Q_def fileAt_def)
  qed
  then show ?thesis by (simp add: R_def)
qed

lemma removeFile_other:
  assumes "removeFile tmp w = (ok, w')" "q \<noteq> tmp" "P (fileAt w q)"
  shows "keeps (\<lambda>d. P (map_of d q)) w w' \<and> fileAt w' q = fileAt w q"
proof -
  have "keeps (\<lambda>d. map_of d q = fileAt w q) w w' \<and> map_of (files w') q = fileAt w q"
    using assms(2) by (intro removeFile_keeps [OF assms(1)]) (simp_all add: fileAt_def)
  with assms(3) show ?thesis by (auto simp: fileAt_def intro: keeps_mono)
qed

lemma tempName [simp]: "isTempName (prefix @ x @ ''.tmp'')"
  unfolding isTempName_def by (metis append.assoc)

lemma createTemp_name:
  assumes "createTemp dir prefix ''.tmp'' w = (Some tmp, w')" "\<not> isTempName (snd q)"
  shows "q \<noteq> tmp"
proof -
  obtain x rest where pop: "popOr ''0'' (suffixes w) = (x, rest)" by fastforce
  obtain ok w1 where open_tmp: "openTrunc (dir, prefix @ x @ ''.tmp'') (w\<lparr>suffixes := rest\<rparr>) = (ok, w1)" by fastforce
  from assms(1) have "tmp = (dir, prefix @ x @ ''.tmp'')"
    unfolding createTemp_def Let_def by (simp only: pop open_tmp prod.case split: if_splits) simp_all
  with assms(2) show ?thesis by auto
qed

lemma createTemp_other:
  assumes "createTemp dir prefix ''.tmp'' w = (r, w')" "\<not> isTempName (snd q)" "P (fileAt w q)"
  shows "keeps (\<lambda>d. P (map_of d q)) w w' \<and> fileAt w' q = fileAt w q"
proof -
  have "q \<noteq> (dir, prefix @ x @ ''.tmp'')" for x using assms(2) by auto
  then have "keeps (\<lambda>d. map_of d q = fileAt w q) w w' \<and> map_of (files w') q = fileAt w q"
    by (intro createTemp_keeps [OF assms(1)]) (auto simp: fileAt_def)
  with assms(3) show ?thesis by (auto simp: fileAt_def intro: keeps_mono)
qed

lemma writeAtomically_cases:
  assumes "writeAtomically prefix p v w = (ok, w')"
  obtains "createTemp (fst p) prefix ''.tmp'' w = (None, w')" "\<not> ok"
  | tmp w1 w2 b where "createTemp (fst p) prefix ''.tmp'' w = (Some tmp, w1)"
      "writeTemporary p tmp v w1 = (ok, w2)" "removeFile tmp w2 = (b, w')"
proof -
  obtain r w1 where c: "createTemp (fst p) prefix ''.tmp'' w = (r, w1)" by fastforce
  show thesis
  proof (cases r)
    case None
    with c assms show ?thesis by (intro that(1)) (simp_all add: writeAtomically_def)
  next
    case (Some tmp)
    obtain ok2 w2 where t: "writeTemporary p tmp v w1 = (ok2, w2)" by fastforce
    obtain b w3 where r: "removeFile tmp w2 = (b, w3)" by fastforce
    from Some c t r assms have "ok2 = ok" "w3 = w'" by (simp_all add: writeAtomically_def Let_def)
    with Some c t r show ?thesis by (intro that(2)) simp_all
  qed
qed

lemma writeAtomically_target:
  assumes "writeAtomically prefix p v w = (ok, w')" "\<not> isTempName (snd p)"
  shows "keeps (\<lambda>d. map_of d p = fileAt w p \<or> map_of d p = Some (Whole v)) w w'
       \<and> fileAt w' p = (if ok then Some (Whole v) else fileAt w p)"
  using assms(1)
proof (cases rule: writeAtomically_cases)
  case 1
  with createTemp_other [OF 1(1) assms(2), of "\<lambda>c. c = fileAt w p \<or> c = Some (Whole v)"] show ?thesis by simp
next
  case (2 tmp w1 w2 b)
  let ?P = "\<lambda>c. c = fileAt w p \<or> c = Some (Whole v)"
  note c = createTemp_other [OF 2(1) assms(2), of ?P]
  note t = writeTemporary_target [OF 2(2) createTemp_name [OF 2(1) assms(2)]]
  have "?P (fileAt w2 p)" using c t by (simp split: if_splits)
  note r = removeFile_other [OF 2(3) createTemp_name [OF 2(1) assms(2)], of ?P, OF this]
  from c t r show ?thesis by (auto intro: keeps_trans)
qed

lemma writeAtomically_other:
  assumes "writeAtomically prefix p v w = (ok, w')" "q \<noteq> p" "\<not> isTempName (snd q)"
  shows "keeps (\<lambda>d. map_of d q = fileAt w q) w w' \<and> fileAt w' q = fileAt w q"
  using assms(1)
proof (cases rule: writeAtomically_cases)
  case 1
  with createTemp_other [OF 1(1) assms(3), of "\<lambda>c. c = fileAt w q"] show ?thesis by simp
next
  case (2 tmp w1 w2 b)
  note c = createTemp_other [OF 2(1) assms(3), of "\<lambda>c. c = fileAt w q"]
  note t = writeTemporary_other [OF 2(2) createTemp_name [OF 2(1) assms(3)] assms(2)]
  have "fileAt w2 q = fileAt w q" using c t by simp
  note r = removeFile_other [OF 2(3) createTemp_name [OF 2(1) assms(3)], of "\<lambda>c. c = fileAt w q", OF this]
  from c t r show ?thesis by (auto intro: keeps_trans)
qed

interpretation json_writer: atomic_writer writeJSONAtomically
  unfolding writeJSONAtomically_def
  by unfold_locales (blast dest: writeAtomically_other | use writeAtomically_target in fastforce)+

interpretation reprocess_writer: atomic_writer writeReprocessAlertFile
  unfolding writeReprocessAlertFile_def
  by unfold_locales (blast dest: writeAtomically_other | use writeAtomically_target in fastforce)+

text \<open>Replacing a JSON file (\<open>writeJSONAtomically\<close>): whatever call fails, and wherever the process
  is killed, the file holds its old or its complete new content; it holds the new one when the
  call returns no error and the old one when it returns an error.\<close>

theorem json_replacement_atomic:
  assumes "\<not> isTempName (snd p)" "writeJSONAtomically p v w = (ok, w')"
  shows "keeps (\<lambda>d. map_of d p = fileAt w p \<or> map_of d p = Some (Whole v)) w w'
       \<and> fileAt w' p = (if ok then Some (Whole v) else fileAt w p)"
  using assms json_writer.atomic [of p v w ok w'] json_writer.stored [of p v w w'] json_writer.refused [of p v w w']
  by (cases ok) simp_all

theorem json_replacement_atomic_witness:
  "let p = (''state'', ''state.json'');
       w = \<lparr>files = [(p, Whole (1 :: nat))], faults = [False, False, False, False, False, True],
            suffixes = [''42''], trace = []\<rparr>
   in fst (writeJSONAtomically p 2 w) = False \<and> fileAt (snd (writeJSONAtomically p 2 w)) p = Some (Whole 1)
      \<and> length (trace (snd (writeJSONAtomically p 2 w))) = 7"
proof -
  define p where "p = (''state'', ''state.json'')"
  define w where "w = \<lparr>files = [(p, Whole (1 :: nat))], faults = [False, False, False, False, False, True],
            suffixes = [''42''], trace = []\<rparr>"
  obtain ok w' where run: "writeJSONAtomically p 2 w = (ok, w')" by fastforce
  have facts: "fst (writeJSONAtomically p 2 w) = False" "length (trace (snd (writeJSONAtomically p 2 w))) = 7"
    unfolding p_def w_def by code_simp+
  have "drop (length x) (x @ ''.tmp'') = ''.tmp''" for x :: string by simp
  have "\<not> isTempName (snd p)"
    by (auto simp: p_def isTempName_def append_eq_Cons_conv Cons_eq_append_conv)
  from json_replacement_atomic [OF this run] run facts
  show ?thesis by (simp add: p_def [symmetric] w_def [symmetric]) (simp add: w_def fileAt_def)
qed

end
