(* ===== verification/Calendar.thy ===== *)
theory Calendar
  imports GoStrings
begin

text \<open>
  The calendar that \<open>time.Time.Format\<close> prints in the program's fixed zone (\<open>peruTZ\<close>,
  UTC-5): the proleptic Gregorian date and the time of day of a Unix time.  Days are counted in
  400-year cycles from 1600-01-01, years and months inside a cycle by subtraction.
\<close>

definition leapYear :: "nat \<Rightarrow> bool" where
  "leapYear y = (4 dvd y \<and> (\<not> 100 dvd y \<or> 400 dvd y))"

definition yearLen :: "nat \<Rightarrow> nat" where
  "yearLen y = (if leapYear y then 366 else 365)"

definition monthLens :: "nat \<Rightarrow> nat list" where
  "monthLens y = [31, if leapYear y then 29 else 28, 31, 30, 31, 30, 31, 31, 30, 31, 30, 31]"

lemma yearLen_pos [simp]: "0 < yearLen y" by (simp add: yearLen_def)

lemma sum_monthLens: "sum_list (monthLens y) = yearLen y"
  by (simp add: monthLens_def yearLen_def)

section \<open>Counting\<close>

function splitYears :: "nat \<Rightarrow> nat \<Rightarrow> nat \<times> nat" where
  "splitYears y d = (if d < yearLen y then (y, d) else splitYears (Suc y) (d - yearLen y))"
  by pat_completeness auto
termination
proof (relation "measure snd")
  fix y d :: nat
  assume "\<not> d < yearLen y"
  with yearLen_pos [of y] have "0 < d" by linarith
  with yearLen_pos have "d - yearLen y < d" by (intro diff_less)
  then show "((Suc y, d - yearLen y), y, d) \<in> measure snd" by simp
qed simp

declare splitYears.simps [simp del]

fun splitMonths :: "nat \<Rightarrow> nat list \<Rightarrow> nat \<Rightarrow> nat \<times> nat" where
  "splitMonths m [] d = (m, Suc d)"
| "splitMonths m (l # ls) d = (if d < l then (m, Suc d) else splitMonths (Suc m) ls (d - l))"

fun daysInYears :: "nat \<Rightarrow> nat \<Rightarrow> nat" where
  "daysInYears y 0 = 0"
| "daysInYears y (Suc n) = yearLen y + daysInYears (Suc y) n"

lemma splitYears_spec:
  "splitYears y d = (y', r) \<Longrightarrow> y \<le> y' \<and> r < yearLen y' \<and> d = daysInYears y (y' - y) + r"
proof (induction y d rule: splitYears.induct)
  case (1 y d)
  show ?case
  proof (cases "d < yearLen y")
    case True
    with "1.prems" show ?thesis by (auto simp: splitYears.simps [of y d])
  next
    case False
    with "1.prems" have "splitYears (Suc y) (d - yearLen y) = (y', r)"
      by (simp add: splitYears.simps [of y d])
    with "1.IH" False have "Suc y \<le> y'" "r < yearLen y'"
      "d - yearLen y = daysInYears (Suc y) (y' - Suc y) + r" by auto
    moreover from this have "y' - y = Suc (y' - Suc y)" by simp
    ultimately show ?thesis using False by simp
  qed
qed

lemma splitMonths_spec:
  "splitMonths m ls d = (m', q) \<Longrightarrow>
     m \<le> m' \<and> m' \<le> m + length ls \<and> 0 < q \<and> d = sum_list (take (m' - m) ls) + (q - 1)"
proof (induction m ls d rule: splitMonths.induct)
  case (1 m d)
  then show ?case by auto
next
  case (2 m l ls d)
  show ?case
  proof (cases "d < l")
    case True
    with "2.prems" show ?thesis by auto
  next
    case False
    with 2 have ih: "Suc m \<le> m'" "m' \<le> Suc m + length ls" "0 < q"
      "d - l = sum_list (take (m' - Suc m) ls) + (q - 1)" by auto
    then have "m' - m = Suc (m' - Suc m)" by simp
    with ih False show ?thesis by simp
  qed
qed

lemma splitMonths_bounds:
  "d < sum_list ls \<Longrightarrow> splitMonths m ls d = (m', q) \<Longrightarrow> m' < m + length ls \<and> q \<le> Max (set ls)"
proof (induction m ls d rule: splitMonths.induct)
  case (1 m d)
  then show ?case by simp
next
  case (2 m l ls d)
  show ?case
  proof (cases "d < l")
    case True
    with "2.prems" have "m' = m" "q \<le> l" by auto
    moreover have "l \<le> Max (set (l # ls))" by (rule Max_ge) auto
    ultimately have "q \<le> Max (set (l # ls))" by (blast intro: order_trans)
    with \<open>m' = m\<close> show ?thesis by simp
  next
    case False
    with 2 have ih: "m' < Suc m + length ls" "q \<le> Max (set ls)" by auto
    moreover have "ls \<noteq> []" using "2.prems" False by auto
    then have "Max (set ls) \<le> Max (set (l # ls))" by simp
    ultimately show ?thesis by simp
  qed
qed

section \<open>Dates\<close>

text \<open>Year, month and day of a day number counted from 1970-01-01.\<close>

definition civilOfDays :: "int \<Rightarrow> int \<times> nat \<times> nat" where
  "civilOfDays days =
     (let n = days + 135140;
          era = n div 146097;
          (y, r) = splitYears 1600 (nat (n mod 146097));
          (m, d) = splitMonths 1 (monthLens y) r
      in (int y + 400 * era, m, d))"

lemma daysInYears_numeral:
  "daysInYears y (numeral k) = yearLen y + daysInYears (Suc y) (pred_numeral k)"
  by (simp add: numeral_eq_Suc)

lemma daysInYears_cycle: "daysInYears 1600 400 = 146097"
  by (simp add: daysInYears_numeral yearLen_def leapYear_def)

lemma daysInYears_add: "daysInYears y (m + n) = daysInYears y m + daysInYears (y + m) n"
  by (induction m arbitrary: y) auto

lemma splitYears_cycle:
  assumes "d < 146097" "splitYears 1600 d = (y, r)"
  shows "1600 \<le> y" "y < 2000"
proof -
  note spec = splitYears_spec [OF assms(2)]
  show "1600 \<le> y" using spec by simp
  show "y < 2000"
  proof (rule ccontr)
    assume "\<not> y < 2000"
    then have "y - 1600 = 400 + (y - 2000)" by linarith
    then have "daysInYears 1600 (y - 1600) = 146097 + daysInYears (1600 + 400) (y - 2000)"
      by (simp only: daysInYears_add daysInYears_cycle)
    with spec assms(1) show False by linarith
  qed
qed

lemma civilOfDays_inj: "civilOfDays a = civilOfDays b \<longleftrightarrow> a = b"
proof
  assume eq: "civilOfDays a = civilOfDays b"
  obtain ya ra where sa: "splitYears 1600 (nat ((a + 135140) mod 146097)) = (ya, ra)" by fastforce
  obtain yb rb where sb: "splitYears 1600 (nat ((b + 135140) mod 146097)) = (yb, rb)" by fastforce
  obtain ma da where ma: "splitMonths 1 (monthLens ya) ra = (ma, da)" by fastforce
  obtain mb db where mb: "splitMonths 1 (monthLens yb) rb = (mb, db)" by fastforce
  from eq have year: "int ya + 400 * ((a + 135140) div 146097) = int yb + 400 * ((b + 135140) div 146097)"
    and md: "ma = mb" "da = db"
    by (simp_all add: civilOfDays_def sa sb ma [simplified] mb [simplified] Let_def)
  have "nat ((a + 135140) mod 146097) < 146097" "nat ((b + 135140) mod 146097) < 146097"
    by (simp_all add: nat_less_iff)
  from splitYears_cycle [OF this(1) sa] splitYears_cycle [OF this(2) sb]
  have "1600 \<le> ya" "ya < 2000" "1600 \<le> yb" "yb < 2000" by auto
  with year have "(a + 135140) div 146097 \<le> (b + 135140) div 146097"
    "(b + 135140) div 146097 \<le> (a + 135140) div 146097" by linarith+
  with year have era: "(a + 135140) div 146097 = (b + 135140) div 146097" and y: "ya = yb"
    by linarith+
  from splitMonths_spec [OF ma] splitMonths_spec [OF mb] y md have "ra = rb" by simp
  with splitYears_spec [OF sa] splitYears_spec [OF sb] y
  have "nat ((a + 135140) mod 146097) = nat ((b + 135140) mod 146097)" by simp
  then have "(a + 135140) mod 146097 = (b + 135140) mod 146097" by (simp add: eq_nat_nat_iff)
  with era have "a + 135140 = b + 135140" by (metis div_mult_mod_eq)
  then show "a = b" by simp
qed simp

lemma civilOfDays_bounds:
  assumes "civilOfDays days = (y, m, d)"
  shows "1 \<le> m" "m \<le> 12" "1 \<le> d" "d \<le> 31"
proof -
  obtain ya ra where sa: "splitYears 1600 (nat ((days + 135140) mod 146097)) = (ya, ra)" by fastforce
  obtain ma da where ma: "splitMonths 1 (monthLens ya) ra = (ma, da)" by fastforce
  have md: "m = ma" "d = da" using assms by (simp_all add: civilOfDays_def sa ma [simplified] Let_def)
  have "ra < sum_list (monthLens ya)" using splitYears_spec [OF sa] by (simp add: sum_monthLens)
  from splitMonths_bounds [OF this ma] splitMonths_spec [OF ma] md
  show "1 \<le> m" "m \<le> 12" "1 \<le> d" "d \<le> 31"
    by (auto simp: monthLens_def split: if_splits)
qed

section \<open>Local time of the program\<close>

definition peruOffset :: int where "peruOffset = - 18000"

definition localDay :: "int \<Rightarrow> int" where
  "localDay unix = (unix + peruOffset) div 86400"

definition localSecond :: "int \<Rightarrow> nat" where
  "localSecond unix = nat ((unix + peruOffset) mod 86400)"

text \<open>\<open>Format("2006_01_02")\<close> with separator \<open>_\<close>; years of four digits.\<close>

definition formatDate :: "string \<Rightarrow> int \<Rightarrow> string" where
  "formatDate sep unix =
     (let (y, m, d) = civilOfDays (localDay unix)
      in padDigits 4 (nat y) @ sep @ padDigits 2 m @ sep @ padDigits 2 d)"

definition formatClock :: "string \<Rightarrow> int \<Rightarrow> string" where
  "formatClock sep unix =
     (let s = localSecond unix
      in padDigits 2 (s div 3600) @ sep @ padDigits 2 (s div 60 mod 60) @ sep @ padDigits 2 (s mod 60))"

lemma civil_year_bounds:
  assumes "civilOfDays days = (y, m, d)" "- 135140 \<le> days" "days < 2932897"
  shows "1600 \<le> y \<and> y < 10000"
proof -
  obtain ya ra where sa: "splitYears 1600 (nat ((days + 135140) mod 146097)) = (ya, ra)" by fastforce
  obtain ma da where ma: "splitMonths 1 (monthLens ya) ra = (ma, da)" by fastforce
  have y: "y = int ya + 400 * ((days + 135140) div 146097)"
    using assms(1) by (simp add: civilOfDays_def sa ma [simplified] Let_def)
  have "nat ((days + 135140) mod 146097) < 146097" by (simp add: nat_less_iff)
  from splitYears_cycle [OF this sa] have "1600 \<le> ya" "ya < 2000" .
  moreover have "0 \<le> (days + 135140) div 146097" "(days + 135140) div 146097 \<le> 20"
    using assms(2,3) by (simp_all add: div_le_mono pos_imp_zdiv_nonneg_iff) 
  ultimately show ?thesis using y by auto
qed

end
