(* ===== verification/Tables.thy ===== *)
theory Tables
  imports Calendar RowBinary
begin

text \<open>
  ClickHouse table names and statements of the collector (\<open>main.go\<close>:
  \<open>isValidClickHouseIdentifier\<close>, \<open>validateClickHouseTableName\<close>, \<open>dailyTableName\<close>,
  \<open>clickHouseInsertURL\<close>, \<open>clickHouseCreateTableDDL\<close>) and of the reprocessor
  (\<open>reprocesador/clickhouse_schema.go\<close>).  The two programs are separate Go modules with
  their own copies of the identifier check; both are modelled.
\<close>

section \<open>Identifiers\<close>

text \<open>
  The loop over \<open>range value\<close> with its index.  The code ranges over runes; a byte of a
  multi-byte rune is neither letter, digit nor underscore, so the byte loop rejects the same
  strings.
\<close>

fun identifierLoop :: "nat \<Rightarrow> string \<Rightarrow> bool" where
  "identifierLoop index [] = True"
| "identifierLoop index (c # cs) =
     (let isLetter = isLetterChar c; isDigit = isDigitChar c
      in if index = 0
         then (if \<not> isLetter \<and> c \<noteq> CHR ''_'' then False else identifierLoop (index + 1) cs)
         else (if \<not> isLetter \<and> \<not> isDigit \<and> c \<noteq> CHR ''_'' then False
               else identifierLoop (index + 1) cs))"

definition isValidClickHouseIdentifier :: "string \<Rightarrow> bool" where
  "isValidClickHouseIdentifier s = (if s = [] then False else identifierLoop 0 s)"

datatype table_error = InvalidTableName string | InvalidIdentifier string string

fun identifierParts :: "string \<Rightarrow> string list \<Rightarrow> table_error option" where
  "identifierParts tableName [] = None"
| "identifierParts tableName (part # parts) =
     (if \<not> isValidClickHouseIdentifier part then Some (InvalidIdentifier part tableName)
      else identifierParts tableName parts)"

definition validateClickHouseTableName :: "string \<Rightarrow> table_error option" where
  "validateClickHouseTableName tableName =
     (let parts = splitOn (CHR ''.'') tableName
      in if length parts = 0 \<or> length parts > 2 then Some (InvalidTableName tableName)
         else identifierParts tableName parts)"

definition identChar :: "char \<Rightarrow> bool" where
  "identChar c = (isLetterChar c \<or> isDigitChar c \<or> c = CHR ''_'')"

lemma identifierLoop_Suc: "identifierLoop (Suc i) s = list_all identChar s"
  by (induction s arbitrary: i) (auto simp: identChar_def Let_def)

lemma isValid_conv:
  "isValidClickHouseIdentifier s \<longleftrightarrow>
     s \<noteq> [] \<and> (isLetterChar (hd s) \<or> hd s = CHR ''_'') \<and> list_all identChar s"
  by (cases s) (auto simp: isValidClickHouseIdentifier_def identifierLoop_Suc identChar_def Let_def)

lemma identifierParts_None:
  "identifierParts t parts = None \<longleftrightarrow> list_all isValidClickHouseIdentifier parts"
  by (induction parts) auto

lemma dot_not_identChar: "\<not> identChar (CHR ''.'')"
  by (simp add: identChar_def isLetterChar_def isDigitChar_def)

lemma digits_identChar: "isDigitChar c \<Longrightarrow> identChar c"
  by (simp add: identChar_def)

text \<open>Valid names are exactly one identifier, or two joined by a dot.\<close>

lemma validate_None_iff:
  "validateClickHouseTableName t = None \<longleftrightarrow>
     isValidClickHouseIdentifier t
     \<or> (\<exists>a b. t = a @ CHR ''.'' # b \<and> isValidClickHouseIdentifier a \<and> isValidClickHouseIdentifier b)"
  (is "_ \<longleftrightarrow> ?rhs")
proof
  assume v: "validateClickHouseTableName t = None"
  have j: "joinWith ''.'' (splitOn (CHR ''.'') t) = t" by (rule join_split)
  consider a where "splitOn (CHR ''.'') t = [a]" | a b where "splitOn (CHR ''.'') t = [a, b]"
    using v by (auto simp: validateClickHouseTableName_def Let_def length_Suc_conv le_Suc_eq
        numeral_2_eq_2 not_less split: if_splits)
  then show ?rhs
  proof cases
    case 1
    with v j show ?thesis by (auto simp: validateClickHouseTableName_def identifierParts_None)
  next
    case 2
    with j have "t = a @ CHR ''.'' # b" by simp
    moreover from 2 v have "isValidClickHouseIdentifier a" "isValidClickHouseIdentifier b"
      by (auto simp: validateClickHouseTableName_def identifierParts_None Let_def
          simp del: identifierParts.simps)
    ultimately show ?thesis by blast
  qed
next
  have nodot: "CHR ''.'' \<notin> set s" if "isValidClickHouseIdentifier s" for s
    using that dot_not_identChar by (auto simp: isValid_conv list_all_iff)
  assume ?rhs
  then show "validateClickHouseTableName t = None"
    by (auto simp: validateClickHouseTableName_def identifierParts_None nodot splitOn_no_sep
        splitOn_append_sep)
qed

section \<open>Daily tables\<close>

definition dailyTableName :: "bool \<Rightarrow> string \<Rightarrow> u32 \<Rightarrow> string" where
  "dailyTableName dailyTables baseTable eventUnix =
     (if \<not> dailyTables then baseTable
      else let suffix = formatDate ''_'' (uint eventUnix);
               parts = splitOn (CHR ''.'') baseTable
           in if length parts = 2 then parts ! 0 @ ''.'' @ parts ! 1 @ ''_'' @ suffix
              else baseTable @ ''_'' @ suffix)"

lemma formatDate_identChar: "c \<in> set (formatDate ''_'' unix) \<Longrightarrow> identChar c"
  by (auto simp: formatDate_def Let_def identChar_def dest: padDigits_digits split: prod.splits)

lemma dailyTableName_append:
  "dailyTableName True base ts = base @ ''_'' @ formatDate ''_'' (uint ts)"
proof (cases "length (splitOn (CHR ''.'') base) = 2")
  case True
  then obtain a b where ab: "splitOn (CHR ''.'') base = [a, b]"
    by (auto simp: length_Suc_conv numeral_2_eq_2)
  moreover have "joinWith ''.'' (splitOn (CHR ''.'') base) = base" by (rule join_split)
  ultimately have "base = a @ ''.'' @ b" by simp
  with ab show ?thesis by (simp add: dailyTableName_def Let_def)
qed (simp add: dailyTableName_def Let_def)

lemma isValid_suffix:
  "isValidClickHouseIdentifier a \<Longrightarrow> list_all identChar s \<Longrightarrow> isValidClickHouseIdentifier (a @ s)"
  by (auto simp: isValid_conv hd_append)

lemma dailyTableName_no_error:
  assumes "validateClickHouseTableName base = None"
  shows "validateClickHouseTableName (dailyTableName daily base ts) = None"
proof (cases daily)
  case True
  have suf: "list_all identChar (''_'' @ formatDate ''_'' (uint ts))"
    by (auto simp: list_all_iff identChar_def dest: formatDate_identChar [unfolded identChar_def])
  from assms consider (one) "isValidClickHouseIdentifier base"
    | (two) a b where "base = a @ CHR ''.'' # b" "isValidClickHouseIdentifier a" "isValidClickHouseIdentifier b"
    by (auto simp: validate_None_iff)
  then show ?thesis
  proof cases
    case one
    with suf True show ?thesis
      by (auto simp: validate_None_iff dailyTableName_append intro: isValid_suffix)
  next
    case two
    from True two have "dailyTableName daily base ts = a @ CHR ''.'' # (b @ ''_'' @ formatDate ''_'' (uint ts))"
      by (simp add: dailyTableName_append)
    with isValid_suffix [OF two(3) suf] two(2) show ?thesis
      unfolding validate_None_iff by blast
  qed
qed (simp add: assms dailyTableName_def)

text \<open>
  Every table name the collector derives from a validated base name is
  itself a valid ClickHouse table name, for every event time: the statements interpolate nothing but
  letters, digits, underscores and at most one dot.
\<close>

theorem dailyTableName_valid:
  assumes "validateClickHouseTableName base = None"
  shows "validateClickHouseTableName (dailyTableName daily base ts) = None"
  using assms by (rule dailyTableName_no_error)

theorem dailyTableName_valid_witness:
  "validateClickHouseTableName (dailyTableName True ''cgnat.nat_v2'' 1753142399) = None"
  by (rule dailyTableName_valid)
    (simp add: validateClickHouseTableName_def isValidClickHouseIdentifier_def isLetterChar_def
      isDigitChar_def)

lemma localDay_uint_bounds: "- 135140 \<le> localDay (uint (ts :: u32))" "localDay (uint (ts :: u32)) < 2932897"
proof -
  have "uint ts < 4294967296" "0 \<le> uint ts" using uint_lt2p [of ts] by simp_all
  moreover have "uint ts + peruOffset = 86400 * localDay (uint ts) + (uint ts + peruOffset) mod 86400"
    "0 \<le> (uint ts + peruOffset) mod 86400" "(uint ts + peruOffset) mod 86400 < 86400"
    by (simp_all add: localDay_def)
  ultimately show "- 135140 \<le> localDay (uint ts)" "localDay (uint ts) < 2932897"
    unfolding peruOffset_def by linarith+
qed

lemma formatDate_inj:
  fixes a b :: u32
  shows "formatDate ''_'' (uint a) = formatDate ''_'' (uint b) \<longleftrightarrow> localDay (uint a) = localDay (uint b)"
proof
  obtain ya ma da where ca: "civilOfDays (localDay (uint a)) = (ya, ma, da)" by (cases "civilOfDays (localDay (uint a))")
  obtain yb mb db where cb: "civilOfDays (localDay (uint b)) = (yb, mb, db)" by (cases "civilOfDays (localDay (uint b))")
  have ya: "1600 \<le> ya" "ya < 10000" and yb: "1600 \<le> yb" "yb < 10000"
    using civil_year_bounds [OF ca localDay_uint_bounds] civil_year_bounds [OF cb localDay_uint_bounds] by auto
  then have len: "length (padDigits 4 (nat ya)) = length (padDigits 4 (nat yb))"
    by (simp add: length_padDigits)
  have "length (padDigits 2 ma) = length (padDigits 2 mb)"
    using civilOfDays_bounds [OF ca] civilOfDays_bounds [OF cb] by (simp add: length_padDigits)
  moreover assume "formatDate ''_'' (uint a) = formatDate ''_'' (uint b)"
  ultimately have "nat ya = nat yb" "ma = mb" "da = db"
    using len by (auto simp: formatDate_def ca cb padDigits_inj)
  with ya yb have "civilOfDays (localDay (uint a)) = civilOfDays (localDay (uint b))" by (simp add: ca cb)
  then show "localDay (uint a) = localDay (uint b)" by (simp add: civilOfDays_inj)
qed (simp add: formatDate_def)

text \<open>
  The daily table is a function of the local calendar day and separates the
  days: two events go to the same table exactly when they fall on the same day of UTC-5.
\<close>

theorem dailyTableName_day:
  "dailyTableName True base a = dailyTableName True base b \<longleftrightarrow> localDay (uint a) = localDay (uint b)"
  by (simp add: dailyTableName_append formatDate_inj)

end
