(* ===== verification/Cohorts.thy ===== *)
theory Cohorts
  imports Prelude
begin

text \<open>
  The cohort tracker of \<open>alert_cohorts.go\<close>: per-second counters kept in sharded ring
  buffers of \<open>retentionSeconds\<close> buckets.  The eight \<open>uint64\<close> counters of a bucket and
  of a snapshot are one function from the field names.  The model runs the record operations
  one after another; the atomics that let them run concurrently are not modelled (a writer that
  holds a bucket while another second claims it is outside the model).
\<close>

section \<open>Data\<close>

datatype cohort_field =
    ReceivedPackets | ParsedPackets | ParseFailedPackets | ExpectedRows
  | InsertedRows | SpooledRows | SpoolFailedRows | UDPKernelDrops

type_synonym counters = "cohort_field \<Rightarrow> u64"

record insertCohort =
  Second :: int
  Rows :: u64

record cohortBucket =
  second :: int
  counts :: counters

record cohortTracker =
  retentionSeconds :: int
  shards :: "cohortBucket list list"

definition minimumCohortRetentionSeconds :: int where
  "minimumCohortRetentionSeconds = 300"

declare minimumCohortRetentionSeconds_def [go_defs]

definition emptyBucket :: cohortBucket where
  "emptyBucket = \<lparr>second = 0, counts = (\<lambda>_. 0)\<rparr>"

definition newCohortTracker :: "int \<Rightarrow> int \<Rightarrow> cohortTracker" where
  "newCohortTracker shardCount retention =
     (let shardCount = (if shardCount < 1 then 1 else shardCount);
          retention = (if retention < minimumCohortRetentionSeconds
                       then minimumCohortRetentionSeconds else retention)
      in \<lparr>retentionSeconds = retention,
          shards = replicate (nat shardCount) (replicate (nat retention) emptyBucket)\<rparr>)"

section \<open>Buckets\<close>

text \<open>Go's remainder truncates towards zero.\<close>

definition goRem :: "int \<Rightarrow> int \<Rightarrow> int" where
  "goRem a b = sgn a * (\<bar>a\<bar> mod \<bar>b\<bar>)"

definition bucketIndex :: "int \<Rightarrow> int \<Rightarrow> nat" where
  "bucketIndex retention sec =
     (let index = goRem sec retention
      in nat (if index < 0 then index + retention else index))"

definition shardIndex :: "nat \<Rightarrow> int \<Rightarrow> nat" where
  "shardIndex count shardID =
     (let shardID = (if shardID < 0 then - shardID else shardID)
      in nat (goRem shardID (int count)))"

text \<open>
  \<open>bucket(second, shardID)\<close> followed by an atomic addition: the bucket is reset when it
  belongs to another second, then field \<open>f\<close> grows by \<open>n\<close>.
\<close>

definition claimBucket :: "int \<Rightarrow> cohortBucket \<Rightarrow> cohortBucket" where
  "claimBucket sec b = (if second b = sec then b else \<lparr>second = sec, counts = (\<lambda>_. 0)\<rparr>)"

definition bump :: "cohort_field \<Rightarrow> u64 \<Rightarrow> cohortBucket \<Rightarrow> cohortBucket" where
  "bump f n b = b\<lparr>counts := (counts b)(f := counts b f + n)\<rparr>"

definition addToBucket :: "cohortTracker \<Rightarrow> int \<Rightarrow> int \<Rightarrow> (cohortBucket \<Rightarrow> cohortBucket) \<Rightarrow> cohortTracker" where
  "addToBucket t sec shardID g =
     (let s = shardIndex (length (shards t)) shardID;
          i = bucketIndex (retentionSeconds t) sec;
          buckets = shards t ! s
      in t\<lparr>shards := (shards t)[s := buckets[i := g (claimBucket sec (buckets ! i))]]\<rparr>)"

section \<open>Record operations\<close>

definition recordReceived :: "cohortTracker \<Rightarrow> int \<Rightarrow> int \<Rightarrow> cohortTracker" where
  "recordReceived t sec shardID = addToBucket t sec shardID (bump ReceivedPackets 1)"

definition recordParseResult :: "cohortTracker \<Rightarrow> int \<Rightarrow> int \<Rightarrow> bool \<Rightarrow> u64 \<Rightarrow> cohortTracker" where
  "recordParseResult t sec shardID parsed expectedRows =
     (if parsed
      then addToBucket t sec shardID (bump ExpectedRows expectedRows \<circ> bump ParsedPackets 1)
      else addToBucket t sec shardID (bump ParseFailedPackets 1))"

definition isRetained :: "cohortTracker \<Rightarrow> int \<Rightarrow> int \<Rightarrow> bool" where
  "isRetained t sec nowSecond = (sec \<le> nowSecond + 1 \<and> sec > nowSecond - retentionSeconds t)"

fun recordCohorts :: "cohort_field \<Rightarrow> cohortTracker \<Rightarrow> insertCohort list \<Rightarrow> int \<Rightarrow> int \<Rightarrow> cohortTracker" where
  "recordCohorts f t [] shardID nowSecond = t"
| "recordCohorts f t (c # cs) shardID nowSecond =
     recordCohorts f
       (if isRetained t (Second c) nowSecond
        then addToBucket t (Second c) shardID (bump f (Rows c)) else t)
       cs shardID nowSecond"

definition recordInserted :: "cohortTracker \<Rightarrow> insertCohort list \<Rightarrow> int \<Rightarrow> int \<Rightarrow> cohortTracker" where
  "recordInserted = recordCohorts InsertedRows"

definition recordSpooled :: "cohortTracker \<Rightarrow> insertCohort list \<Rightarrow> int \<Rightarrow> int \<Rightarrow> cohortTracker" where
  "recordSpooled = recordCohorts SpooledRows"

definition recordSpoolFailure :: "cohortTracker \<Rightarrow> insertCohort list \<Rightarrow> int \<Rightarrow> int \<Rightarrow> cohortTracker" where
  "recordSpoolFailure = recordCohorts SpoolFailedRows"

definition recordUDPKernelDrops :: "cohortTracker \<Rightarrow> int \<Rightarrow> int \<Rightarrow> u64 \<Rightarrow> cohortTracker" where
  "recordUDPKernelDrops t sec shardID drops =
     (if drops = 0 then t else addToBucket t sec shardID (bump UDPKernelDrops drops))"

section \<open>Snapshots\<close>

definition addBucket :: "int \<Rightarrow> cohortBucket \<Rightarrow> counters \<Rightarrow> counters" where
  "addBucket sec b result = (if second b \<noteq> sec then result else (\<lambda>f. result f + counts b f))"

definition snapshotSecond :: "cohortTracker \<Rightarrow> int \<Rightarrow> counters \<Rightarrow> counters" where
  "snapshotSecond t sec result =
     fold (\<lambda>buckets. addBucket sec (buckets ! bucketIndex (retentionSeconds t) sec)) (shards t) result"

definition snapshot :: "cohortTracker \<Rightarrow> int \<Rightarrow> int \<Rightarrow> counters" where
  "snapshot t startSecond endSecond =
     (if endSecond < startSecond then (\<lambda>_. 0)
      else fold (snapshotSecond t) [startSecond..endSecond] (\<lambda>_. 0))"

definition saturatingDifference :: "u64 \<Rightarrow> u64 \<Rightarrow> u64" where
  "saturatingDifference whole completed = (if completed \<ge> whole then 0 else whole - completed)"

section \<open>Cohorts of a batch\<close>

definition addInsertCohort :: "insertCohort list \<Rightarrow> int \<Rightarrow> u64 \<Rightarrow> insertCohort list" where
  "addInsertCohort cohorts sec rows =
     (if rows = 0 then cohorts
      else let minimum = int (length cohorts) - 4;
               minimum = (if minimum < 0 then 0 else minimum)
           in case find (\<lambda>index. Second (cohorts ! index) = sec) (rev [nat minimum..<length cohorts]) of
                Some index \<Rightarrow> cohorts[index := (cohorts ! index)\<lparr>Rows := Rows (cohorts ! index) + rows\<rparr>]
              | None \<Rightarrow> cohorts @ [\<lparr>Second = sec, Rows = rows\<rparr>])"

definition cohortRows :: "insertCohort list \<Rightarrow> int \<Rightarrow> u64" where
  "cohortRows cohorts sec = sum_list (map Rows (filter (\<lambda>c. Second c = sec) cohorts))"

lemma cohortRows_simps [simp]:
  "cohortRows [] sec = 0"
  "cohortRows (c # cs) sec = (if Second c = sec then Rows c else 0) + cohortRows cs sec"
  "cohortRows (cs @ ds) sec = cohortRows cs sec + cohortRows ds sec"
  by (simp_all add: cohortRows_def)

lemma cohortRows_update:
  assumes "i < length cs" "Second (cs ! i) = sec"
  shows "cohortRows (cs[i := (cs ! i)\<lparr>Rows := Rows (cs ! i) + n\<rparr>]) s
         = cohortRows cs s + (if s = sec then n else 0)"
proof -
  have "cs = take i cs @ cs ! i # drop (Suc i) cs" using assms(1) by (rule id_take_nth_drop)
  then have "cohortRows cs s = cohortRows (take i cs @ cs ! i # drop (Suc i) cs) s" by simp
  with assms show ?thesis by (simp add: upd_conv_take_nth_drop)
qed

lemma find_SomeD: "find P xs = Some x \<Longrightarrow> x \<in> set xs \<and> P x"
  by (induction xs) (auto split: if_splits)

lemma addInsertCohort_rows:
  "cohortRows (addInsertCohort cs sec n) s = cohortRows cs s + (if s = sec then n else 0)"
proof (cases "n = 0")
  case True
  then show ?thesis by (simp add: addInsertCohort_def)
next
  case False
  let ?is = "rev [nat (if int (length cs) - 4 < 0 then 0 else int (length cs) - 4)..<length cs]"
  show ?thesis
  proof (cases "find (\<lambda>index. Second (cs ! index) = sec) ?is")
    case None
    with False show ?thesis by (simp add: addInsertCohort_def Let_def)
  next
    case (Some i)
    then have "i \<in> set ?is" "Second (cs ! i) = sec" by (auto dest: find_SomeD)
    then have "i < length cs" by auto
    with Some False \<open>Second (cs ! i) = sec\<close> cohortRows_update [of i cs sec n s] show ?thesis
      by (simp add: addInsertCohort_def Let_def)
  qed
qed

section \<open>Well-formed trackers\<close>

definition wf_tracker :: "cohortTracker \<Rightarrow> bool" where
  "wf_tracker t \<longleftrightarrow> 0 < retentionSeconds t \<and> shards t \<noteq> []
     \<and> (\<forall>buckets \<in> set (shards t). length buckets = nat (retentionSeconds t))"

lemma goRem_euclid: "0 < b \<Longrightarrow> (if goRem a b < 0 then goRem a b + b else goRem a b) = a mod b"
  by (auto simp: goRem_def sgn_if zmod_zminus1_eq_if split: if_splits)
    (auto simp: not_less dest: pos_mod_bound [of b a] pos_mod_sign [of b a])

lemma bucketIndex_mod: "0 < r \<Longrightarrow> bucketIndex r sec = nat (sec mod r)"
  using goRem_euclid [of r sec] by (simp add: bucketIndex_def Let_def)

lemma bucketIndex_bound: "0 < r \<Longrightarrow> bucketIndex r sec < nat r"
  by (simp add: bucketIndex_mod)

lemma shardIndex_bound: "0 < n \<Longrightarrow> shardIndex n shardID < n"
  by (auto simp: shardIndex_def goRem_def sgn_if Let_def nat_less_iff)

lemma wf_newCohortTracker: "wf_tracker (newCohortTracker n r)"
  by (auto simp: wf_tracker_def newCohortTracker_def go_defs Let_def)

lemma wf_addToBucket: "wf_tracker t \<Longrightarrow> wf_tracker (addToBucket t sec shardID g)"
proof -
  assume wf: "wf_tracker t"
  have "shardIndex (length (shards t)) shardID < length (shards t)"
    using wf by (intro shardIndex_bound) (auto simp: wf_tracker_def)
  with wf show ?thesis
    by (auto simp: wf_tracker_def addToBucket_def Let_def dest!: set_update_subset_insert [THEN subsetD])
qed

lemma retention_addToBucket [simp]: "retentionSeconds (addToBucket t sec shardID g) = retentionSeconds t"
  by (simp add: addToBucket_def Let_def)

section \<open>What a tracker remembers of a second\<close>

definition liveIn :: "int \<Rightarrow> int \<Rightarrow> cohort_field \<Rightarrow> cohortBucket list \<Rightarrow> u64" where
  "liveIn r sec f buckets =
     (let b = buckets ! bucketIndex r sec in if second b = sec then counts b f else 0)"

definition live :: "cohortTracker \<Rightarrow> int \<Rightarrow> cohort_field \<Rightarrow> u64" where
  "live t sec f = sum_list (map (liveIn (retentionSeconds t) sec f) (shards t))"

lemma snapshotSecond_live: "snapshotSecond t sec result f = result f + live t sec f"
proof -
  have "fold (\<lambda>buckets. addBucket sec (buckets ! bucketIndex r sec)) bs result f
      = result f + sum_list (map (liveIn r sec f) bs)" for bs r
    by (induction bs arbitrary: result) (simp_all add: addBucket_def liveIn_def Let_def)
  then show ?thesis by (simp add: snapshotSecond_def live_def)
qed

lemma snapshot_live: "snapshot t a b f = sum_list (map (\<lambda>s. live t s f) [a..b])"
proof -
  have "fold (snapshotSecond t) ss result f = result f + sum_list (map (\<lambda>s. live t s f) ss)" for ss result
    by (induction ss arbitrary: result) (simp_all add: snapshotSecond_live add.assoc)
  then show ?thesis by (simp add: snapshot_def)
qed

lemma sum_list_map_update:
  fixes h :: "'a \<Rightarrow> 'b::ab_group_add"
  assumes "i < length xs"
  shows "sum_list (map h (xs[i := y])) = sum_list (map h xs) + (h y - h (xs ! i))"
proof -
  have "xs = take i xs @ xs ! i # drop (Suc i) xs" using assms by (rule id_take_nth_drop)
  then have "sum_list (map h xs) = sum_list (map h (take i xs @ xs ! i # drop (Suc i) xs))" by simp
  with assms show ?thesis by (simp add: upd_conv_take_nth_drop algebra_simps)
qed

text \<open>An update of a claimed bucket that adds \<open>d f\<close> to every field \<open>f\<close>.\<close>

definition adds :: "(cohortBucket \<Rightarrow> cohortBucket) \<Rightarrow> counters \<Rightarrow> bool" where
  "adds g d \<longleftrightarrow> (\<forall>b. second (g b) = second b \<and> (\<forall>f. counts (g b) f = counts b f + d f))"

lemma adds_bump: "adds (bump f n) ((\<lambda>_. 0)(f := n))"
  by (simp add: adds_def bump_def)

lemma adds_comp: "adds g d \<Longrightarrow> adds h e \<Longrightarrow> adds (g \<circ> h) (\<lambda>f. e f + d f)"
  by (simp add: adds_def add.assoc)

lemma same_slot:
  fixes s e r :: int
  assumes "s mod r = e mod r" "\<bar>e - s\<bar> < r"
  shows "e = s"
proof -
  have dvd: "r dvd e - s" using assms(1) by (metis mod_eq_dvd_iff)
  show ?thesis
  proof (rule ccontr)
    assume "e \<noteq> s"
    with dvd have "\<bar>r\<bar> \<le> \<bar>e - s\<bar>" by (intro dvd_imp_le_int) auto
    with assms(2) show False by linarith
  qed
qed

text \<open>
  Recording for second \<open>e\<close> adds to what is remembered of \<open>e\<close> and leaves every other second
  closer than the retention alone: no eviction inside the retention.
\<close>

lemma live_addToBucket:
  assumes wf: "wf_tracker t" and adds: "adds g d" and close: "\<bar>e - s\<bar> < retentionSeconds t"
  shows "live (addToBucket t e shardID g) s f = live t s f + (if s = e then d f else 0)"
proof -
  let ?r = "retentionSeconds t" and ?k = "shardIndex (length (shards t)) shardID"
  let ?i = "bucketIndex ?r e" and ?j = "bucketIndex ?r s"
  let ?bs = "shards t ! ?k"
  let ?new = "?bs[?i := g (claimBucket e (?bs ! ?i))]"
  have r: "0 < ?r" and k: "?k < length (shards t)"
    using wf by (auto simp: wf_tracker_def intro: shardIndex_bound)
  have len: "length ?bs = nat ?r" using wf k by (simp add: wf_tracker_def)
  have i: "?i < length ?bs" and j: "?j < length ?bs" using r len by (simp_all add: bucketIndex_bound)
  have change: "liveIn ?r s f ?new - liveIn ?r s f ?bs = (if s = e then d f else 0)"
  proof (cases "s = e")
    case True
    with i adds show ?thesis by (auto simp: liveIn_def claimBucket_def adds_def Let_def)
  next
    case False
    have "?j \<noteq> ?i"
    proof
      assume "?j = ?i"
      then have "s mod ?r = e mod ?r" using r by (simp add: bucketIndex_mod nat_eq_iff2)
      with close False show False by (auto dest: same_slot)
    qed
    with False show ?thesis by (simp add: liveIn_def)
  qed
  have "live (addToBucket t e shardID g) s f
      = sum_list (map (liveIn ?r s f) ((shards t)[?k := ?new]))"
    by (simp add: live_def addToBucket_def Let_def)
  also have "\<dots> = live t s f + (liveIn ?r s f ?new - liveIn ?r s f ?bs)"
    unfolding live_def by (rule sum_list_map_update [OF k])
  finally show ?thesis by (simp add: change)
qed

section \<open>Runs of record operations\<close>

text \<open>The calls the collector makes, as events.\<close>

datatype cohort_event =
    Received int int
  | ParseResult int int bool u64
  | Inserted "insertCohort list" int int
  | Spooled "insertCohort list" int int
  | SpoolFailure "insertCohort list" int int
  | KernelDrops int int u64

fun applyEvent :: "cohortTracker \<Rightarrow> cohort_event \<Rightarrow> cohortTracker" where
  "applyEvent t (Received sec sh) = recordReceived t sec sh"
| "applyEvent t (ParseResult sec sh parsed rows) = recordParseResult t sec sh parsed rows"
| "applyEvent t (Inserted cs sh now) = recordInserted t cs sh now"
| "applyEvent t (Spooled cs sh now) = recordSpooled t cs sh now"
| "applyEvent t (SpoolFailure cs sh now) = recordSpoolFailure t cs sh now"
| "applyEvent t (KernelDrops sec sh drops) = recordUDPKernelDrops t sec sh drops"

definition retainedCohorts :: "int \<Rightarrow> int \<Rightarrow> insertCohort list \<Rightarrow> insertCohort list" where
  "retainedCohorts r now cs = filter (\<lambda>c. Second c \<le> now + 1 \<and> Second c > now - r) cs"

text \<open>The seconds an event writes, and what it adds to field \<open>f\<close> of second \<open>s\<close>.\<close>

fun touched :: "int \<Rightarrow> cohort_event \<Rightarrow> int set" where
  "touched r (Received sec sh) = {sec}"
| "touched r (ParseResult sec sh parsed rows) = {sec}"
| "touched r (Inserted cs sh now) = Second ` set (retainedCohorts r now cs)"
| "touched r (Spooled cs sh now) = Second ` set (retainedCohorts r now cs)"
| "touched r (SpoolFailure cs sh now) = Second ` set (retainedCohorts r now cs)"
| "touched r (KernelDrops sec sh drops) = {sec}"

fun contribution :: "int \<Rightarrow> int \<Rightarrow> cohort_field \<Rightarrow> cohort_event \<Rightarrow> u64" where
  "contribution r s f (Received sec sh) = (if s = sec \<and> f = ReceivedPackets then 1 else 0)"
| "contribution r s f (ParseResult sec sh parsed rows) =
     (if s \<noteq> sec then 0
      else if parsed then (if f = ParsedPackets then 1 else if f = ExpectedRows then rows else 0)
      else (if f = ParseFailedPackets then 1 else 0))"
| "contribution r s f (Inserted cs sh now) =
     (if f = InsertedRows then cohortRows (retainedCohorts r now cs) s else 0)"
| "contribution r s f (Spooled cs sh now) =
     (if f = SpooledRows then cohortRows (retainedCohorts r now cs) s else 0)"
| "contribution r s f (SpoolFailure cs sh now) =
     (if f = SpoolFailedRows then cohortRows (retainedCohorts r now cs) s else 0)"
| "contribution r s f (KernelDrops sec sh drops) =
     (if s = sec \<and> f = UDPKernelDrops then drops else 0)"

lemma recordCohorts_live:
  assumes "wf_tracker t"
    and "\<forall>e \<in> Second ` set (retainedCohorts (retentionSeconds t) now cs). \<bar>e - s\<bar> < retentionSeconds t"
  shows "live (recordCohorts g t cs sh now) s f
         = live t s f + (if f = g then cohortRows (retainedCohorts (retentionSeconds t) now cs) s else 0)
         \<and> wf_tracker (recordCohorts g t cs sh now)
         \<and> retentionSeconds (recordCohorts g t cs sh now) = retentionSeconds t"
  using assms
proof (induction cs arbitrary: t)
  case Nil
  then show ?case by (simp add: retainedCohorts_def)
next
  case (Cons c cs)
  let ?t = "if isRetained t (Second c) now then addToBucket t (Second c) sh (bump g (Rows c)) else t"
  have "wf_tracker ?t" using Cons.prems by (simp add: wf_addToBucket)
  moreover have "retentionSeconds ?t = retentionSeconds t" by simp
  ultimately have ih: "live (recordCohorts g ?t cs sh now) s f
         = live ?t s f + (if f = g then cohortRows (retainedCohorts (retentionSeconds t) now cs) s else 0)
         \<and> wf_tracker (recordCohorts g ?t cs sh now)
         \<and> retentionSeconds (recordCohorts g ?t cs sh now) = retentionSeconds t"
    using Cons.IH [of ?t] Cons.prems(2) by (simp add: retainedCohorts_def)
  show ?case
  proof (cases "isRetained t (Second c) now")
    case True
    then have "Second c \<in> Second ` set (retainedCohorts (retentionSeconds t) now (c # cs))"
      by (simp add: retainedCohorts_def isRetained_def)
    with Cons.prems(2) have "\<bar>Second c - s\<bar> < retentionSeconds t" by blast
    from live_addToBucket [OF Cons.prems(1) adds_bump [of g "Rows c"] this, of sh f] ih True
    show ?thesis by (auto simp: retainedCohorts_def isRetained_def)
  next
    case False
    with ih show ?thesis by (auto simp: retainedCohorts_def isRetained_def)
  qed
qed

lemma applyEvent_live:
  assumes wf: "wf_tracker t" and close: "\<forall>e \<in> touched (retentionSeconds t) ev. \<bar>e - s\<bar> < retentionSeconds t"
  shows "live (applyEvent t ev) s f = live t s f + contribution (retentionSeconds t) s f ev
         \<and> wf_tracker (applyEvent t ev) \<and> retentionSeconds (applyEvent t ev) = retentionSeconds t"
proof (cases ev)
  case (Received sec sh)
  with live_addToBucket [OF wf adds_bump [of ReceivedPackets 1], of sec s sh f] close
  show ?thesis by (simp add: recordReceived_def wf_addToBucket wf)
next
  case (ParseResult sec sh parsed rows)
  note both = adds_comp [OF adds_bump [of ExpectedRows rows] adds_bump [of ParsedPackets 1]]
  from ParseResult live_addToBucket [OF wf both, of sec s sh f]
    live_addToBucket [OF wf adds_bump [of ParseFailedPackets 1], of sec s sh f] close
  show ?thesis by (auto simp: recordParseResult_def wf_addToBucket wf)
next
  case (Inserted cs sh now)
  with recordCohorts_live [OF wf, of now cs s InsertedRows sh f] close
  show ?thesis by (simp add: recordInserted_def)
next
  case (Spooled cs sh now)
  with recordCohorts_live [OF wf, of now cs s SpooledRows sh f] close
  show ?thesis by (simp add: recordSpooled_def)
next
  case (SpoolFailure cs sh now)
  with recordCohorts_live [OF wf, of now cs s SpoolFailedRows sh f] close
  show ?thesis by (simp add: recordSpoolFailure_def)
next
  case (KernelDrops sec sh drops)
  with live_addToBucket [OF wf adds_bump [of UDPKernelDrops drops], of sec s sh f] close
  show ?thesis by (auto simp: recordUDPKernelDrops_def wf_addToBucket wf)
qed

lemma applyEvents_live:
  assumes "wf_tracker t"
    and "\<forall>ev \<in> set evs. \<forall>e \<in> touched (retentionSeconds t) ev. \<bar>e - s\<bar> < retentionSeconds t"
  shows "live (foldl applyEvent t evs) s f
         = live t s f + sum_list (map (contribution (retentionSeconds t) s f) evs)"
  using assms
proof (induction evs arbitrary: t)
  case Nil
  then show ?case by simp
next
  case (Cons ev evs)
  then have "live (applyEvent t ev) s f = live t s f + contribution (retentionSeconds t) s f ev"
    "wf_tracker (applyEvent t ev)" "retentionSeconds (applyEvent t ev) = retentionSeconds t"
    using applyEvent_live [of t ev s f] by auto
  with Cons.IH [of "applyEvent t ev"] Cons.prems(2) show ?case by (simp add: add.assoc)
qed

lemma live_new: "live (newCohortTracker n r) s f = 0"
proof -
  have empty: "liveIn r' s f (replicate (nat r') emptyBucket) = 0" if "0 < r'" for r'
    using that by (auto simp: liveIn_def emptyBucket_def Let_def bucketIndex_bound)
  then show ?thesis
    by (auto simp: live_def newCohortTracker_def Let_def go_defs sum_list_replicate)
qed

section \<open>Long runs\<close>

text \<open>
  A second no bucket belongs to; it stays so until an event touches it, whatever older seconds
  are written and overwritten meanwhile.
\<close>

definition absent :: "cohortTracker \<Rightarrow> int \<Rightarrow> bool" where
  "absent t s = (\<forall>buckets \<in> set (shards t). \<forall>f. liveIn (retentionSeconds t) s f buckets = 0)"

lemma absent_live: "absent t s \<Longrightarrow> live t s f = 0"
  unfolding live_def absent_def by (simp cong: map_cong)

lemma absent_addToBucket:
  assumes wf: "wf_tracker t" and adds: "adds g d" and ne: "e \<noteq> s" and absent: "absent t s"
  shows "absent (addToBucket t e shardID g) s"
proof -
  let ?r = "retentionSeconds t" and ?k = "shardIndex (length (shards t)) shardID"
  let ?i = "bucketIndex ?r e" and ?bs = "shards t ! ?k"
  let ?new = "?bs[?i := g (claimBucket e (?bs ! ?i))]"
  have r: "0 < ?r" and k: "?k < length (shards t)" using wf by (auto simp: wf_tracker_def intro: shardIndex_bound)
  then have "?i < length ?bs" using wf by (simp add: wf_tracker_def bucketIndex_bound)
  moreover have "second (g (claimBucket e (?bs ! ?i))) = e" using adds by (simp add: adds_def claimBucket_def)
  moreover have "liveIn ?r s f ?bs = 0" for f using absent k by (simp add: absent_def)
  ultimately have "liveIn ?r s f ?new = 0" for f
    using ne by (cases "bucketIndex ?r s = ?i") (auto simp: liveIn_def Let_def)
  then show ?thesis using absent
    by (auto simp: absent_def addToBucket_def Let_def dest!: set_update_subset_insert [THEN subsetD])
qed

lemma absent_recordCohorts:
  assumes "wf_tracker t" "absent t s" "s \<notin> Second ` set (retainedCohorts (retentionSeconds t) now cs)"
  shows "absent (recordCohorts g t cs sh now) s \<and> wf_tracker (recordCohorts g t cs sh now)
       \<and> retentionSeconds (recordCohorts g t cs sh now) = retentionSeconds t"
  using assms
proof (induction cs arbitrary: t)
  case (Cons c cs)
  let ?t = "if isRetained t (Second c) now then addToBucket t (Second c) sh (bump g (Rows c)) else t"
  have "absent ?t s" using Cons.prems absent_addToBucket [OF Cons.prems(1) adds_bump]
    by (auto simp: retainedCohorts_def isRetained_def)
  moreover have "wf_tracker ?t" "retentionSeconds ?t = retentionSeconds t" using Cons.prems by (simp_all add: wf_addToBucket)
  ultimately show ?case using Cons.IH [of ?t] Cons.prems(3) by (auto simp: retainedCohorts_def split: if_splits)
qed simp

lemma applyEvent_absent:
  assumes "wf_tracker t" "absent t s" "s \<notin> touched (retentionSeconds t) ev"
  shows "absent (applyEvent t ev) s \<and> wf_tracker (applyEvent t ev)
       \<and> retentionSeconds (applyEvent t ev) = retentionSeconds t"
  using assms absent_addToBucket [OF assms(1) adds_bump]
    absent_addToBucket [OF assms(1) adds_comp [OF adds_bump adds_bump]] absent_recordCohorts [OF assms(1,2)]
  by (cases ev) (auto simp: recordReceived_def recordParseResult_def recordInserted_def recordSpooled_def
      recordSpoolFailure_def recordUDPKernelDrops_def wf_addToBucket)

lemma applyEvents_absent:
  assumes "wf_tracker t" "absent t s" "\<forall>ev \<in> set evs. s \<notin> touched (retentionSeconds t) ev"
  shows "absent (foldl applyEvent t evs) s \<and> wf_tracker (foldl applyEvent t evs)
       \<and> retentionSeconds (foldl applyEvent t evs) = retentionSeconds t"
  using assms
proof (induction evs arbitrary: t)
  case (Cons ev evs)
  with applyEvent_absent [of t s ev] Cons.IH [of "applyEvent t ev"] show ?case by simp
qed simp

lemma contribution_untouched: "s \<notin> touched r ev \<Longrightarrow> contribution r s f ev = 0"
proof -
  have "s \<notin> Second ` set cs \<Longrightarrow> cohortRows cs s = 0" for cs by (induction cs) auto
  then show "s \<notin> touched r ev \<Longrightarrow> contribution r s f ev = 0" by (cases ev) auto
qed

lemma absent_new: "absent (newCohortTracker n r) s"
  by (auto simp: absent_def newCohortTracker_def Let_def go_defs liveIn_def emptyBucket_def bucketIndex_bound)

text \<open>
  A timeline: every call happens at a time, times do not decrease, and a call at \<open>t\<close> writes
  seconds of the last \<open>retentionSeconds\<close>, none in the future.
\<close>

definition timeline :: "int \<Rightarrow> int \<Rightarrow> (int \<times> cohort_event) list \<Rightarrow> bool" where
  "timeline r now calls = (sorted (map fst calls)
     \<and> (\<forall>(t, ev) \<in> set calls. t \<le> now \<and> touched r ev \<subseteq> {t - r<..t}))"

lemma timeline_live:
  assumes "wf_tracker t0" "absent t0 s" "timeline (retentionSeconds t0) now calls" "now - retentionSeconds t0 < s"
  shows "live (foldl applyEvent t0 (map snd calls)) s f
       = sum_list (map (contribution (retentionSeconds t0) s f) (map snd calls))"
proof -
  let ?r = "retentionSeconds t0"
  let ?old = "\<lambda>(t, ev). s \<notin> touched ?r ev"
  let ?olds = "takeWhile ?old calls" and ?news = "dropWhile ?old calls"
  have split: "calls = ?olds @ ?news" by simp
  have sorted: "sorted (map fst (?olds @ ?news))" using assms(3) by (simp only: timeline_def takeWhile_dropWhile_id)
  have olds: "\<forall>ev \<in> set (map snd ?olds). s \<notin> touched ?r ev" by (auto dest: set_takeWhileD)
  let ?t = "foldl applyEvent t0 (map snd ?olds)"
  have t: "absent ?t s" "wf_tracker ?t" "retentionSeconds ?t = ?r"
    using applyEvents_absent [OF assms(1,2) olds] by simp_all
  have close: "\<bar>e - s\<bar> < ?r" if ev: "ev \<in> set (map snd ?news)" and e: "e \<in> touched ?r ev" for ev e
  proof -
    obtain u where u: "(u, ev) \<in> set ?news" using ev by auto
    then obtain v first rest where news: "?news = (v, first) # rest" by (cases ?news) auto
    then have "s \<in> touched ?r first" using hd_dropWhile [of ?old calls] by force
    moreover have "(v, first) \<in> set calls" "(u, ev) \<in> set calls"
      using news u by (auto dest: set_dropWhileD intro: set_dropWhileD [of _ ?old])
    ultimately have "s \<in> {v - ?r<..v}" "u \<le> now" "e \<in> {u - ?r<..u}"
      using assms(3) e unfolding timeline_def by blast+
    moreover have "sorted (map fst ?news)"
      using sorted unfolding map_append sorted_append by blast
    then have "v \<le> u" using u news by force
    ultimately show ?thesis using assms(4) by auto
  qed
  have "live (foldl applyEvent t0 (map snd calls)) s f = live (foldl applyEvent ?t (map snd ?news)) s f"
    by (simp only: foldl_append [symmetric] map_append [symmetric] takeWhile_dropWhile_id)
  also have "\<dots> = live ?t s f + sum_list (map (contribution ?r s f) (map snd ?news))"
    using applyEvents_live [OF t(2), of "map snd ?news" s f] close t(3) by auto
  also have "live ?t s f = 0" using t(1) by (rule absent_live)
  also have "0 + sum_list (map (contribution ?r s f) (map snd ?news))
      = sum_list (map (contribution ?r s f) (map snd ?olds)) + sum_list (map (contribution ?r s f) (map snd ?news))"
    using olds contribution_untouched by (simp add: map_idI cong: map_cong)
  also have "\<dots> = sum_list (map (contribution ?r s f) (map snd calls))"
    by (simp only: sum_list_append [symmetric] map_append [symmetric] takeWhile_dropWhile_id)
  finally show ?thesis .
qed

lemma snapshot_timeline:
  assumes "wf_tracker t0" "\<forall>s \<in> {a..b}. absent t0 s" "timeline (retentionSeconds t0) now calls" "now - retentionSeconds t0 < a"
  shows "snapshot (foldl applyEvent t0 (map snd calls)) a b f
       = (\<Sum>s\<leftarrow>[a..b]. \<Sum>ev\<leftarrow>map snd calls. contribution (retentionSeconds t0) s f ev)"
proof -
  have "map (\<lambda>s. live (foldl applyEvent t0 (map snd calls)) s f) [a..b]
      = map (\<lambda>s. sum_list (map (contribution (retentionSeconds t0) s f) (map snd calls))) [a..b]"
    using timeline_live [OF assms(1) _ assms(3)] assms(2,4) by (intro map_cong) (simp_all del: map_map)
  then show ?thesis by (simp only: snapshot_live)
qed

lemma retention_new: "retentionSeconds (newCohortTracker n r) = max r minimumCohortRetentionSeconds"
  by (simp add: newCohortTracker_def Let_def max_def)

text \<open>
  C27. The sharded ring buffers implement the plain per-second count, for as
  long as the process runs: after any run of record calls in time order, each writing seconds of
  the last \<open>retentionSeconds\<close>, a snapshot of a window inside the retention is, field by field,
  exactly the sum of what all the calls contributed to the seconds of the window, whatever shards
  they used; the slots were reused for older seconds before, but nothing is lost and nothing from
  outside the window is counted.
\<close>

theorem snapshot_counts_events:
  fixes shardCount retention :: int
  defines "t0 \<equiv> newCohortTracker shardCount retention"
  assumes "timeline (retentionSeconds t0) now calls" "now - retentionSeconds t0 < a"
  shows "snapshot (foldl applyEvent t0 (map snd calls)) a b f
         = (\<Sum>s\<leftarrow>[a..b]. \<Sum>ev\<leftarrow>map snd calls. contribution (retentionSeconds t0) s f ev)"
  using assms by (intro snapshot_timeline) (simp_all add: t0_def wf_newCohortTracker absent_new)

theorem snapshot_counts_events_witness:
  "snapshot (foldl applyEvent (newCohortTracker 4 300)
      (map snd [(701, Received 701 1), (1000, Received 1000 2), (1001, ParseResult 1001 2 True 8),
        (1001, Inserted [\<lparr>Second = 1001, Rows = 7\<rparr>] 2 1001)]))
      1000 1001 InsertedRows = 7"
  using snapshot_counts_events [of 4 300 1001 "[(701, Received 701 1), (1000, Received 1000 2),
    (1001, ParseResult 1001 2 True 8), (1001, Inserted [\<lparr>Second = 1001, Rows = 7\<rparr>] 2 1001)]" 1000 1001 InsertedRows]
  by (simp add: newCohortTracker_def go_defs retainedCohorts_def upto_rec1 timeline_def)

text \<open>
  Attributing the rows of a batch to reception seconds loses nothing:
  after adding \<open>n\<close> rows of second \<open>sec\<close> the batch's cohorts hold \<open>n\<close> more rows of
  \<open>sec\<close> and as many of every other second as before, whether an existing cohort among the
  last four was extended or a new one appended.
\<close>

theorem addInsertCohort_conserves:
  "cohortRows (addInsertCohort cohorts sec n) s = cohortRows cohorts s + (if s = sec then n else 0)"
  by (rule addInsertCohort_rows)

end
