(* ===== verification/Spool.thy ===== *)
theory Spool
  imports FileSys Tables Cohorts
begin

text \<open>
  The failed-insert spool of the collector (\<open>main.go\<close>: \<open>spoolFailedInsertBatch\<close>): a batch
  ClickHouse did not take is written under \<open>open\<close>, flushed, renamed to \<open>done\<close>, and described by a
  JSON file beside it, from which the reprocessor inserts it later.
\<close>

section \<open>Batches and files\<close>

record InsertBatch =
  TableName :: string
  Body :: bytes
  BatchRows :: int
  Cohorts :: "insertCohort list"
  CohortShard :: int

record FailedInsertBatchMeta =
  SchemaVersion :: int
  CreatedTime :: string
  MetaTable :: string
  MetaRows :: int
  MetaBytes :: int
  Format :: string
  Error :: string

datatype spool_file = BodyFile bytes | MetaFile FailedInsertBatchMeta

section \<open>The state the collector's goroutines share\<close>

text \<open>The process-wide counters of \<open>main.go\<close>, by name.\<close>

datatype total =
    TotalReceived | TotalPacketProcessed | TotalPacketQueueDrops | TotalLiveInsertSkipped | TotalParsed
  | TotalInserted | TotalParseErrors | TotalInsertErrors | TotalInsertDroppedRows | TotalLiveSkippedRows
  | TotalBatchesInserted | TotalFailedBatchSpooled | TotalFailedRowsSpooled | TotalFailedSpoolErrors
  | TotalTablesCreated | TotalTableCreateErrors | TotalUDPKernelDrops

text \<open>
  \<open>clock\<close> holds what the next calls of \<open>time.Now().UnixNano()\<close> return; \<open>tracker\<close> is
  \<open>alertCohorts\<close>, \<open>None\<close> when alerting is off; \<open>batches\<close> are the batches sent to the
  insert workers and not yet taken by one, oldest first; \<open>channelAnswers\<close> is what each attempt
  to send finds: the length of the channel, and whether it takes the batch before the timer fires.
  Then the state of the insert workers: \<open>createdTables\<close>, what the next HTTP requests answer
  (\<open>None\<close>: success, \<open>Some\<close>: the text of the error), and the requests ClickHouse accepted (the
  statement, or the URL and the body).  \<open>outcomes\<close> is a history of the batches that left the
  pipeline and how; no code reads it.
\<close>

datatype request = CreateTable string | InsertRows string bytes

datatype settlement = InClickHouse | OnDisk | SpoolLost

record collector =
  spoolDisk :: "spool_file world"
  clock :: "int list"
  tracker :: "cohortTracker option"
  totals :: "total \<Rightarrow> u64"
  batches :: "InsertBatch list"
  channelAnswers :: "(int \<times> bool) list"
  createdTables :: "string list"
  httpAnswers :: "string option list"
  served :: "request list"
  outcomes :: "(settlement \<times> InsertBatch) list"

definition addTotal :: "total \<Rightarrow> u64 \<Rightarrow> collector \<Rightarrow> collector" where
  "addTotal t n c = c\<lparr>totals := (totals c)(t := totals c t + n)\<rparr>"

definition readClock :: "collector \<Rightarrow> int \<times> collector" where
  "readClock c = (let (nano, rest) = popOr 0 (clock c) in (nano, c\<lparr>clock := rest\<rparr>))"

text \<open>\<open>time.Now().Unix()\<close>.\<close>

definition readSecond :: "collector \<Rightarrow> int \<times> collector" where
  "readSecond c = (let (nano, c) = readClock c in (nano div 1000000000, c))"

section \<open>Writing a failed batch\<close>

definition rowBinarySchemaV2 :: int where "rowBinarySchemaV2 = 2"

text \<open>\<open>failed_%s_%s_%d_rows%d.rowbinary\<close>; the first clock reading gives the date, the second the number.\<close>

definition failedBaseName :: "int \<Rightarrow> int \<Rightarrow> InsertBatch \<Rightarrow> string" where
  "failedBaseName now nano batch =
     ''failed_'' @ safeFileToken (TableName batch) @ ''_'' @ formatDate '''' now @ ''_'' @ formatClock '''' now
     @ ''_'' @ itoa nano @ ''_rows'' @ itoa (BatchRows batch) @ ''.rowbinary''"

definition spoolOpenPath :: "string \<Rightarrow> string \<Rightarrow> path" where
  "spoolOpenPath base name = (base @ ''/open'', name @ ''.open'')"

definition spoolDonePath :: "string \<Rightarrow> string \<Rightarrow> path" where
  "spoolDonePath base name = (base @ ''/done'', name @ ''.done'')"

definition spoolMetaPath :: "string \<Rightarrow> string \<Rightarrow> path" where
  "spoolMetaPath base name = (base @ ''/done'', name @ ''.done.json'')"

definition failedMeta :: "int \<Rightarrow> InsertBatch \<Rightarrow> string \<Rightarrow> FailedInsertBatchMeta" where
  "failedMeta now batch err =
     \<lparr>SchemaVersion = rowBinarySchemaV2,
      CreatedTime = formatDate ''-'' now @ '' '' @ formatClock '':'' now,
      MetaTable = TableName batch, MetaRows = BatchRows batch, MetaBytes = int (length (Body batch)),
      Format = ''RowBinary'', Error = err\<rparr>"

text \<open>The body into the open file: create, write, flush, close; a failure removes the file.\<close>

definition writeOpenFile :: "path \<Rightarrow> bytes \<Rightarrow> spool_file world \<Rightarrow> bool \<times> spool_file world" where
  "writeOpenFile openPath body w =
     (let (opened, w) = openTrunc openPath w
      in if \<not> opened then (False, w)
      else let (written, w) = writeContent openPath (BodyFile body) w
      in if \<not> written then (let (_, w) = quietCall w; (_, w) = removeFile openPath w in (False, w))
      else let (synced, w) = quietCall w
      in if \<not> synced then (let (_, w) = quietCall w; (_, w) = removeFile openPath w in (False, w))
      else let (closed, w) = quietCall w
      in if \<not> closed then (let (_, w) = removeFile openPath w in (False, w)) else (True, w))"

text \<open>\<open>os.WriteFile\<close> is not atomic: it truncates, writes and closes.\<close>

definition writeFile :: "path \<Rightarrow> 'c \<Rightarrow> 'c world \<Rightarrow> bool \<times> 'c world" where
  "writeFile p v w =
     (let (opened, w) = openTrunc p w
      in if \<not> opened then (False, w)
      else let (written, w) = writeContent p v w; (closed, w) = quietCall w
      in (written \<and> closed, w))"

definition storeFailedBatch ::
  "string \<Rightarrow> int \<Rightarrow> int \<Rightarrow> InsertBatch \<Rightarrow> string \<Rightarrow> spool_file world \<Rightarrow> bool \<times> spool_file world" where
  "storeFailedBatch base now nano batch err w =
     (let name = failedBaseName now nano batch;
          (written, w) = writeOpenFile (spoolOpenPath base name) (Body batch) w
      in if \<not> written then (False, w)
      else let (renamed, w) = renameFile (spoolOpenPath base name) (spoolDonePath base name) w
      in if \<not> renamed then (let (_, w) = removeFile (spoolOpenPath base name) w in (False, w))
      else writeFile (spoolMetaPath base name) (MetaFile (failedMeta now batch err)) w)"

definition spoolFailedInsertBatch :: "string \<Rightarrow> InsertBatch \<Rightarrow> string \<Rightarrow> collector \<Rightarrow> bool \<times> collector" where
  "spoolFailedInsertBatch base batch err c =
     (if BatchRows batch = 0 \<or> length (Body batch) = 0 then (True, c)
      else let (now, c) = readSecond c;
               (nano, c) = readClock c;
               (ok, w) = storeFailedBatch base now nano batch err (spoolDisk c);
               c = c\<lparr>spoolDisk := w\<rparr>
           in if \<not> ok then (False, c)
              else (True, addTotal TotalFailedRowsSpooled (word_of_int (BatchRows batch))
                            (addTotal TotalFailedBatchSpooled 1 c)))"

section \<open>What a crash can leave\<close>

text \<open>A property that no change of the open file disturbs holds while the open file is written.\<close>

lemma writeOpenFile_keeps:
  assumes run: "writeOpenFile p body w = (ok, w')" and start: "Q (files w)"
    and upd: "\<And>d c. Q d \<Longrightarrow> Q (AList.update p c d)" and del: "\<And>d. Q d \<Longrightarrow> Q (AList.delete p d)"
  shows "keeps Q w w' \<and> Q (files w') \<and> (ok \<longrightarrow> fileAt w' p = Some (Whole (BodyFile body)))"
proof -
  obtain b1 w1 where 1: "openTrunc p w = (b1, w1)" by fastforce
  obtain b2 w2 where 2: "writeContent p (BodyFile body) w1 = (b2, w2)" by fastforce
  obtain b3 w3 where 3: "quietCall w2 = (b3, w3)" by fastforce
  obtain b4 w4 where 4: "quietCall w3 = (b4, w4)" by fastforce
  obtain b5 w5 where 5: "removeFile p w3 = (b5, w5)" by fastforce
  obtain b6 w6 where 6: "removeFile p w4 = (b6, w6)" by fastforce
  have k1: "keeps Q w w1 \<and> Q (files w1)" by (intro openTrunc_keeps [OF 1] start upd)
  then have k2: "keeps Q w1 w2 \<and> Q (files w2)" by (intro writeContent_keeps [OF 2] upd) simp_all
  then have k3: "keeps Q w2 w3 \<and> Q (files w3)" by (intro quietCall_keeps [OF 3]) simp
  then have k4: "keeps Q w3 w4 \<and> Q (files w4)" by (intro quietCall_keeps [OF 4]) simp
  from k3 have k5: "keeps Q w3 w5 \<and> Q (files w5)" by (intro removeFile_keeps [OF 5] del) simp_all
  from k4 have k6: "keeps Q w4 w6 \<and> Q (files w6)" by (intro removeFile_keeps [OF 6] del) simp_all
  have run3: "keeps Q w w3" using k1 k2 k3 keeps_trans by metis
  then have run4: "keeps Q w w4" "keeps Q w w5" using k4 k5 keeps_trans by metis+
  then have run6: "keeps Q w w6" using k6 keeps_trans by metis
  have "w' = w1 \<and> \<not> ok \<or> w' = w5 \<and> \<not> ok \<or> w' = w6 \<and> \<not> ok \<or> w' = w4 \<and> ok \<and> b2"
    using run 1 2 3 4 5 6 by (auto simp: writeOpenFile_def split: if_splits)
  moreover have "fileAt w4 p = Some (Whole (BodyFile body))" if b2
    using writeContent_stored [of p "BodyFile body" w1 w2] 2 that quietCall_fileAt [OF 3] quietCall_fileAt [OF 4] by simp
  ultimately show ?thesis using k1 k4 k5 k6 run4 run6 by blast
qed

text \<open>\<open>os.WriteFile\<close> leaves its file untouched, torn or complete.\<close>

lemma writeFile_keeps:
  assumes run: "writeFile p v w = (ok, w')" and start: "Q (files w)"
    and torn: "\<And>d. Q d \<Longrightarrow> Q (AList.update p Torn d)" and whole: "\<And>d. Q d \<Longrightarrow> Q (AList.update p (Whole v) d)"
  shows "keeps Q w w' \<and> Q (files w') \<and> (ok \<longrightarrow> fileAt w' p = Some (Whole v))"
proof -
  obtain b1 w1 where 1: "openTrunc p w = (b1, w1)" by fastforce
  obtain b2 w2 where 2: "writeContent p v w1 = (b2, w2)" by fastforce
  obtain b3 w3 where 3: "quietCall w2 = (b3, w3)" by fastforce
  have k1: "keeps Q w w1 \<and> Q (files w1)" by (intro openTrunc_keeps [OF 1] start torn)
  then have k2: "keeps Q w1 w2 \<and> Q (files w2)" by (intro writeContent_keeps [OF 2] torn whole) simp_all
  then have k3: "keeps Q w2 w3 \<and> Q (files w3)" by (intro quietCall_keeps [OF 3]) simp
  have run3: "keeps Q w w3" using k1 k2 k3 keeps_trans by metis
  have "w' = w1 \<and> \<not> ok \<or> w' = w3 \<and> (ok \<longrightarrow> b2)"
    using run 1 2 3 by (auto simp: writeFile_def split: if_splits)
  moreover have "fileAt w3 p = Some (Whole v)" if b2
    using writeContent_stored [of p v w1 w2] 2 that quietCall_fileAt [OF 3] by simp
  ultimately show ?thesis using k1 k3 run3 by blast
qed

text \<open>
  The states of the disk while a batch is spooled under a fresh name: the data file is absent or
  complete, the metadata appears only beside complete data, and every other file is as before.
\<close>

definition spool_state :: "path \<times> path \<times> path \<Rightarrow> bytes \<Rightarrow> FailedInsertBatchMeta \<Rightarrow> spool_file disk \<Rightarrow> spool_file disk \<Rightarrow> bool" where
  "spool_state = (\<lambda>(opened, target, metadata) body m d0 d.
     (map_of d target = None \<and> map_of d metadata = None
      \<or> map_of d target = Some (Whole (BodyFile body)) \<and> map_of d metadata \<in> {None, Some Torn, Some (Whole (MetaFile m))})
     \<and> (\<forall>q. q \<notin> {opened, target, metadata} \<longrightarrow> map_of d q = map_of d0 q))"

definition spoolPaths :: "string \<Rightarrow> int \<Rightarrow> int \<Rightarrow> InsertBatch \<Rightarrow> path \<times> path \<times> path" where
  "spoolPaths base now nano batch =
     (let name = failedBaseName now nano batch
      in (spoolOpenPath base name, spoolDonePath base name, spoolMetaPath base name))"

lemma spoolPaths_distinct:
  assumes "spoolPaths base now nano batch = (opened, target, metadata)"
  shows "opened \<noteq> target" "opened \<noteq> metadata" "target \<noteq> metadata"
  using assms by (auto simp: spoolPaths_def spoolOpenPath_def spoolDonePath_def spoolMetaPath_def Let_def)

lemma renameFile_refused_keeps:
  "renameFile src dst w = (False, w') \<Longrightarrow> Q (files w) \<Longrightarrow> keeps Q w w' \<and> Q (files w')"
  by (auto simp: renameFile_def keeps_def split: option.splits elim!: sysCall_cases)

lemma storeFailedBatch_states:
  assumes run: "storeFailedBatch base now nano batch err w = (ok, w')"
    and paths: "spoolPaths base now nano batch = (opened, target, metadata)"
    and fresh: "fileAt w target = None" "fileAt w metadata = None"
  shows "keeps (spool_state (opened, target, metadata) (Body batch) (failedMeta now batch err) (files w)) w w'
    \<and> spool_state (opened, target, metadata) (Body batch) (failedMeta now batch err) (files w) (files w')
    \<and> (ok \<longrightarrow> fileAt w' target = Some (Whole (BodyFile (Body batch)))
             \<and> fileAt w' metadata = Some (Whole (MetaFile (failedMeta now batch err))))"
proof -
  let ?S = "spool_state (opened, target, metadata) (Body batch) (failedMeta now batch err) (files w)"
  let ?Q = "\<lambda>d. map_of d target = None \<and> map_of d metadata = None
    \<and> (\<forall>q. q \<notin> {opened, target, metadata} \<longrightarrow> map_of d q = map_of (files w) q)"
  let ?R = "\<lambda>d. ?S d \<and> map_of d target = Some (Whole (BodyFile (Body batch)))"
  note neq = spoolPaths_distinct [OF paths]
  have QS: "?Q d \<Longrightarrow> ?S d" for d by (simp add: spool_state_def)
  obtain b1 w1 where 1: "writeOpenFile opened (Body batch) w = (b1, w1)" by fastforce
  obtain b2 w2 where 2: "renameFile opened target w1 = (b2, w2)" by fastforce
  obtain b3 w3 where 3: "writeFile metadata (MetaFile (failedMeta now batch err)) w2 = (b3, w3)" by fastforce
  obtain b4 w4 where 4: "removeFile opened w2 = (b4, w4)" by fastforce
  have k1: "keeps ?Q w w1 \<and> ?Q (files w1) \<and> (b1 \<longrightarrow> fileAt w1 opened = Some (Whole (BodyFile (Body batch))))"
    by (rule writeOpenFile_keeps [OF 1]) (use fresh neq in \<open>auto simp: fileAt_def\<close>)
  have s1: "keeps ?S w w1" by (rule keeps_mono [OF conjunct1 [OF k1] QS])
  have s1': "?S (files w1)" using k1 by (intro QS) simp
  consider (failed) "\<not> b1" "w' = w1" "\<not> ok" | (rename) "b1" "\<not> b2" "w' = w4" "\<not> ok" | (renamed) "b1" "b2" "w' = w3" "ok = b3"
    using run 1 2 3 4 paths by (cases b1; cases b2) (auto simp: storeFailedBatch_def spoolPaths_def Let_def)
  then show ?thesis
  proof cases
    case failed
    with s1 s1' show ?thesis by simp
  next
    case rename
    have k2: "keeps ?Q w1 w2 \<and> ?Q (files w2)"
      using k1 2 rename(2) by (intro renameFile_refused_keeps [of opened target w1 w2 ?Q]) simp_all
    have k4: "keeps ?Q w2 w4 \<and> ?Q (files w4)" by (rule removeFile_keeps [OF 4]) (use k2 neq in auto)
    have "keeps ?Q w w4"
      by (rule keeps_trans [OF conjunct1 [OF k1] keeps_trans [OF conjunct1 [OF k2] conjunct1 [OF k4]]])
    then have "keeps ?S w w4" by (rule keeps_mono) (rule QS)
    with rename(3,4) QS [OF conjunct2 [OF k4]] show ?thesis by simp
  next
    case renamed
    have k2: "keeps ?S w1 w2 \<and> ?S (files w2)"
      by (rule renameFile_keeps [OF 2]) (use s1' k1 renamed neq in \<open>auto simp: spool_state_def\<close>)
    have r2: "?R (files w2)" using k2 renameFile_stored [of opened target w1 w2] 2 k1 renamed by (simp add: fileAt_def)
    have "keeps ?R w2 w3 \<and> ?R (files w3) \<and> (b3 \<longrightarrow> fileAt w3 metadata = Some (Whole (MetaFile (failedMeta now batch err))))"
      by (rule writeFile_keeps [OF 3, where Q = ?R]) (use r2 neq in \<open>auto simp: spool_state_def\<close>)
    then have "keeps ?S w2 w3" "?S (files w3)" "fileAt w3 target = Some (Whole (BodyFile (Body batch)))"
      "b3 \<longrightarrow> fileAt w3 metadata = Some (Whole (MetaFile (failedMeta now batch err)))"
      by (auto simp: fileAt_def elim: keeps_mono)
    moreover have "keeps ?S w w2" by (rule keeps_trans [OF s1 conjunct1 [OF k2]])
    ultimately show ?thesis using renamed keeps_trans [of ?S w w2 w3] by simp
  qed
qed

section \<open>The operation on the collector's state\<close>

text \<open>Spooling changes the disk, the clock and its two counters only.\<close>

lemma spool_frame:
  assumes "spoolFailedInsertBatch base batch err c = (ok, c')"
  shows "tracker c' = tracker c \<and> batches c' = batches c \<and> channelAnswers c' = channelAnswers c
    \<and> createdTables c' = createdTables c \<and> httpAnswers c' = httpAnswers c \<and> served c' = served c
    \<and> outcomes c' = outcomes c
    \<and> (t \<noteq> TotalFailedBatchSpooled \<longrightarrow> t \<noteq> TotalFailedRowsSpooled \<longrightarrow> totals c' t = totals c t)"
proof (cases "BatchRows batch = 0 \<or> length (Body batch) = 0")
  case True
  with assms show ?thesis by (simp add: spoolFailedInsertBatch_def)
next
  case False
  obtain now r1 where 1: "popOr 0 (clock c) = (now, r1)" by fastforce
  obtain nano r2 where 2: "popOr 0 r1 = (nano, r2)" by fastforce
  obtain b w where 3: "storeFailedBatch base (now div 1000000000) nano batch err (spoolDisk c) = (b, w)" by fastforce
  from assms False 1 2 3 show ?thesis
    by (auto simp: spoolFailedInsertBatch_def readSecond_def readClock_def addTotal_def Let_def split: if_splits)
qed

lemma spoolFailedInsertBatch_states:
  assumes run: "spoolFailedInsertBatch base batch err c = (ok, c')"
    and some: "BatchRows batch \<noteq> 0" "Body batch \<noteq> []"
    and clock: "clock c = now # nano # rest"
    and paths: "spoolPaths base (now div 1000000000) nano batch = (opened, target, metadata)"
    and fresh: "fileAt (spoolDisk c) target = None" "fileAt (spoolDisk c) metadata = None"
  defines "m \<equiv> failedMeta (now div 1000000000) batch err"
  shows "keeps (spool_state (opened, target, metadata) (Body batch) m (files (spoolDisk c))) (spoolDisk c) (spoolDisk c')
    \<and> spool_state (opened, target, metadata) (Body batch) m (files (spoolDisk c)) (files (spoolDisk c'))
    \<and> (if ok then fileAt (spoolDisk c') target = Some (Whole (BodyFile (Body batch)))
             \<and> fileAt (spoolDisk c') metadata = Some (Whole (MetaFile m))
             \<and> totals c' TotalFailedRowsSpooled = totals c TotalFailedRowsSpooled + word_of_int (BatchRows batch)
             \<and> totals c' TotalFailedBatchSpooled = totals c TotalFailedBatchSpooled + 1
        else totals c' = totals c)"
proof -
  obtain b w where store: "storeFailedBatch base (now div 1000000000) nano batch err (spoolDisk c) = (b, w)" by fastforce
  with run some clock have result: "ok = b" "spoolDisk c' = w"
      "totals c' = (if ok then (totals c)(TotalFailedBatchSpooled := totals c TotalFailedBatchSpooled + 1,
         TotalFailedRowsSpooled := totals c TotalFailedRowsSpooled + word_of_int (BatchRows batch)) else totals c)"
    by (auto simp: spoolFailedInsertBatch_def readSecond_def readClock_def popOr_def addTotal_def Let_def split: if_splits)
  from storeFailedBatch_states [OF store paths fresh] result show ?thesis by (simp add: m_def)
qed

text \<open>
  C14. Spooling a failed batch is safe at every crash point and honest about its
  result.  Whatever calls fail, and wherever the process stops, the data file under its fresh name
  is absent or holds the whole body, the metadata file exists only beside a complete data file, and
  no other file but the temporary one is touched.  Success means that both files are complete, the
  metadata naming the table, the rows and the size of the body; the counters grow by the batch
  exactly then.
\<close>

theorem spool_crash_safe:
  assumes run: "spoolFailedInsertBatch base batch err c = (ok, c')"
    and some: "BatchRows batch \<noteq> 0" "Body batch \<noteq> []"
    and clock: "clock c = now # nano # rest"
    and paths: "spoolPaths base (now div 1000000000) nano batch = (opened, target, metadata)"
    and fresh: "fileAt (spoolDisk c) target = None" "fileAt (spoolDisk c) metadata = None"
  defines "m \<equiv> failedMeta (now div 1000000000) batch err"
  shows "keeps (spool_state (opened, target, metadata) (Body batch) m (files (spoolDisk c))) (spoolDisk c) (spoolDisk c')
    \<and> spool_state (opened, target, metadata) (Body batch) m (files (spoolDisk c)) (files (spoolDisk c'))
    \<and> (if ok then fileAt (spoolDisk c') target = Some (Whole (BodyFile (Body batch)))
             \<and> fileAt (spoolDisk c') metadata = Some (Whole (MetaFile m))
             \<and> totals c' TotalFailedRowsSpooled = totals c TotalFailedRowsSpooled + word_of_int (BatchRows batch)
             \<and> totals c' TotalFailedBatchSpooled = totals c TotalFailedBatchSpooled + 1
        else totals c' = totals c)"
  unfolding m_def by (rule spoolFailedInsertBatch_states [OF run some clock paths fresh])

definition example_batch :: InsertBatch where
  "example_batch = \<lparr>TableName = ''cgnat.nat'', Body = replicate 35 7, BatchRows = 1,
     Cohorts = [\<lparr>Second = 1753142399, Rows = 1\<rparr>], CohortShard = 5\<rparr>"

definition example_collector :: collector where
  "example_collector = \<lparr>spoolDisk = \<lparr>files = [], faults = [], suffixes = [], trace = []\<rparr>,
     clock = [1753142400000000000, 1753142400000000123], tracker = None, totals = (\<lambda>_. 0), batches = [],
     channelAnswers = [], createdTables = [], httpAnswers = [], served = [], outcomes = []\<rparr>"

theorem spool_crash_safe_witness:
  "\<exists>c' opened target metadata. spoolFailedInsertBatch ''/spool'' example_batch ''timeout'' example_collector = (True, c')
    \<and> spoolPaths ''/spool'' 1753142400 1753142400000000123 example_batch = (opened, target, metadata)
    \<and> fileAt (spoolDisk c') target = Some (Whole (BodyFile (replicate 35 7)))
    \<and> totals c' TotalFailedRowsSpooled = 1"
proof -
  obtain opened target metadata where paths:
    "spoolPaths ''/spool'' (1753142400000000000 div 1000000000) 1753142400000000123 example_batch = (opened, target, metadata)"
    by (metis prod_cases3)
  obtain ok c' where run: "spoolFailedInsertBatch ''/spool'' example_batch ''timeout'' example_collector = (ok, c')" by fastforce
  have "ok"
    using run by (auto simp: spoolFailedInsertBatch_def storeFailedBatch_def writeOpenFile_def writeFile_def file_ops
        renameFile_def sysCall_def changeTo_def popOr_def fileAt_def readSecond_def readClock_def addTotal_def
        example_batch_def example_collector_def Let_def)
  moreover have "spool_state (opened, target, metadata) (Body example_batch)
      (failedMeta (1753142400000000000 div 1000000000) example_batch ''timeout'') (files (spoolDisk example_collector))
      (files (spoolDisk c')) \<and> fileAt (spoolDisk c') target = Some (Whole (BodyFile (Body example_batch)))
      \<and> totals c' TotalFailedRowsSpooled = totals example_collector TotalFailedRowsSpooled + 1"
    using spool_crash_safe [OF run _ _ _ paths] \<open>ok\<close>
    by (simp add: example_batch_def example_collector_def fileAt_def)
  ultimately show ?thesis using run paths by (auto simp: example_batch_def example_collector_def)
qed

end
