(* ===== verification/Outbox.thy ===== *)
theory Outbox
  imports FileSys GoStrings Float64
begin

text \<open>
  What the two alert managers (\<open>alerts.go\<close> and \<open>reprocesador/reprocess_alerts.go\<close>)
  have in common: the alert record and the persisted states, the manager's state, the random
  identifiers, the outbox directory that \<open>emit\<close> fills and the worker that empties it into
  ClickHouse.  The two programs have the same code here up to the prefix of the temporary files;
  the operations take the writer as an argument and each program instantiates it.
\<close>

section \<open>Data\<close>

record AlertRecord =
  recID :: string
  recHostname :: string
  recIP :: string
  recStartTime :: int
  recEndTime :: "int option"
  recName :: string
  recThreshold :: f64
  recIndicator :: f64
  recState :: string

record alertRuntimeState =
  Record :: AlertRecord
  Active :: bool
  BreachWindows :: int
  ClearWindows :: int
  LastEmitted :: int
  Dirty :: bool

text \<open>Times are nanoseconds since the Unix epoch; Go's zero time is year 1.\<close>

definition zeroTime :: int where "zeroTime = - 62135596800 * 10 ^ 9"

definition zeroRecord :: AlertRecord where
  "zeroRecord = \<lparr>recID = [], recHostname = [], recIP = [], recStartTime = zeroTime, recEndTime = None,
     recName = [], recThreshold = Fin 0, recIndicator = Fin 0, recState = []\<rparr>"

definition zeroState :: alertRuntimeState where
  "zeroState = \<lparr>Record = zeroRecord, Active = False, BreachWindows = 0, ClearWindows = 0,
     LastEmitted = zeroTime, Dirty = False\<rparr>"

type_synonym alert_states = "(string \<times> alertRuntimeState) list"

datatype alert_file = StatesFile alert_states | RecordFile AlertRecord

definition alertModeObserve :: string where "alertModeObserve = ''observe''"
definition alertModeClickHouse :: string where "alertModeClickHouse = ''clickhouse''"
definition alertStateActive :: string where "alertStateActive = ''ACTIVE''"
definition alertStateCleared :: string where "alertStateCleared = ''CLEARED''"

text \<open>The settings of a manager that do not change while it runs.\<close>

record alert_settings =
  Mode :: string
  ServerIP :: string
  hostname :: string
  triggerWindows :: int
  clearWindows :: int
  activeUpdate :: int
  statePath :: path
  outboxDir :: string
  badDir :: string

text \<open>
  The state: the alerts, the gauges and counters, the records logged in observe mode, the records
  queued in the outbox with the name of their file, and the environment: the disk, the random
  bytes (\<open>None\<close>: \<open>rand.Read\<close> fails), the values of \<open>time.Now().UnixNano()\<close>, and
  whether each delivery to the sink fails with the records the sink has accepted.
\<close>

record alertManager =
  settings :: alert_settings
  states :: alert_states
  activeAlerts :: int
  alertsOpened :: u64
  alertsCleared :: u64
  alertsDelivered :: u64
  deliveryErrs :: u64
  outboxPending :: int
  logged :: "AlertRecord list"
  queued :: "(string \<times> AlertRecord) list"
  disk :: "alert_file world"
  randoms :: "bytes option list"
  clocks :: "int list"
  sinkFaults :: "bool list"
  accepted :: "AlertRecord list"

type_synonym writer = "path \<Rightarrow> alert_file \<Rightarrow> alert_file world \<Rightarrow> bool \<times> alert_file world"

definition stateOf :: "alertManager \<Rightarrow> string \<Rightarrow> alertRuntimeState" where
  "stateOf m name = (case map_of (states m) name of None \<Rightarrow> zeroState | Some s \<Rightarrow> s)"

definition setState :: "string \<Rightarrow> alertRuntimeState \<Rightarrow> alertManager \<Rightarrow> alertManager" where
  "setState name s m = m\<lparr>states := AList.update name s (states m)\<rparr>"

definition emittedRecords :: "alertManager \<Rightarrow> AlertRecord set" where
  "emittedRecords m = set (logged m) \<union> snd ` set (queued m)"

lemma stateOf_setState [simp]: "stateOf (setState n s m) k = (if k = n then s else stateOf m k)"
  by (simp add: stateOf_def setState_def)

section \<open>Identifiers and file names\<close>

definition lowerHex :: "nat \<Rightarrow> char" where
  "lowerHex n = (if n < 10 then digitChar n else char_of (87 + n))"

definition hexEncode :: "bytes \<Rightarrow> string" where
  "hexEncode bs = concat (map (\<lambda>b. [lowerHex (unat b div 16), lowerHex (unat b mod 16)]) bs)"

definition newAlertID :: "bytes option \<Rightarrow> string option" where
  "newAlertID random =
     (case random of
        None \<Rightarrow> None
      | Some raw \<Rightarrow>
          (let raw = raw[6 := (raw ! 6 AND 0x0f) OR 0x40];
               raw = raw[8 := (raw ! 8 AND 0x3f) OR 0x80];
               encoded = hexEncode raw
           in Some (take 8 encoded @ ''-'' @ take 4 (drop 8 encoded) @ ''-'' @ take 4 (drop 12 encoded)
                    @ ''-'' @ take 4 (drop 16 encoded) @ ''-'' @ take 12 (drop 20 encoded))))"

definition safeReprocessAlertFileToken :: "string \<Rightarrow> string" where
  "safeReprocessAlertFileToken =
     map (\<lambda>c. if isLetterChar c \<or> isDigitChar c \<or> c = CHR ''_'' \<or> c = CHR ''-'' then c else CHR ''_'')"

definition jsonSuffix :: string where "jsonSuffix = ''.json''"

text \<open>\<open>%020d_%s_%s.json\<close>.\<close>

definition outboxName :: "(string \<Rightarrow> string) \<Rightarrow> int \<Rightarrow> AlertRecord \<Rightarrow> string" where
  "outboxName token nano r =
     (if nano < 0 then CHR ''-'' # padDigits 19 (nat (- nano)) else padDigits 20 (nat nano))
     @ ''_'' @ token (recName r) @ ''_'' @ recID r @ jsonSuffix"

section \<open>Filling the outbox\<close>

definition jsonNames :: "string list \<Rightarrow> string list" where
  "jsonNames = filter (\<lambda>n. hasSuffix n jsonSuffix)"

definition refreshOutboxPending :: "alertManager \<Rightarrow> alertManager" where
  "refreshOutboxPending m =
     (let (names, w) = readDir (outboxDir (settings m)) (disk m);
          m = m\<lparr>disk := w\<rparr>
      in case names of None \<Rightarrow> m | Some ns \<Rightarrow> m\<lparr>outboxPending := int (length (jsonNames ns))\<rparr>)"

definition enqueue :: "writer \<Rightarrow> (string \<Rightarrow> string) \<Rightarrow> AlertRecord \<Rightarrow> alertManager \<Rightarrow> bool \<times> alertManager" where
  "enqueue write token record m =
     (let (nano, rest) = popOr 0 (clocks m);
          filename = outboxName token nano record;
          (ok, w) = write (outboxDir (settings m), filename) (RecordFile record) (disk m);
          m = m\<lparr>clocks := rest, disk := w\<rparr>
      in if \<not> ok then (False, m)
         else (True, refreshOutboxPending (m\<lparr>queued := queued m @ [(filename, record)]\<rparr>)))"

definition emit :: "writer \<Rightarrow> (string \<Rightarrow> string) \<Rightarrow> AlertRecord \<Rightarrow> alertManager \<Rightarrow> bool \<times> alertManager" where
  "emit write token record m =
     (if Mode (settings m) = alertModeObserve then (True, m\<lparr>logged := logged m @ [record]\<rparr>)
      else let (ok, m) = enqueue write token record m
           in if ok then (True, m) else (False, m\<lparr>deliveryErrs := deliveryErrs m + 1\<rparr>))"

definition persistStates :: "writer \<Rightarrow> alertManager \<Rightarrow> bool \<times> alertManager" where
  "persistStates write m =
     (let (ok, w) = write (statePath (settings m)) (StatesFile (states m)) (disk m)
      in (ok, m\<lparr>disk := w\<rparr>))"

section \<open>Emptying the outbox\<close>

text \<open>
  \<open>json.Unmarshal\<close> into a record: a torn file is an error; a document without the record's
  fields decodes to the zero record.
\<close>

fun decodeRecord :: "alert_file content \<Rightarrow> AlertRecord option" where
  "decodeRecord Torn = None"
| "decodeRecord (Whole (RecordFile r)) = Some r"
| "decodeRecord (Whole (StatesFile _)) = Some zeroRecord"

definition countError :: "alertManager \<Rightarrow> alertManager" where
  "countError m = m\<lparr>deliveryErrs := deliveryErrs m + 1\<rparr>"

text \<open>\<open>sink.Upsert\<close>: the sink accepts the record unless the call fails.\<close>

definition upsert :: "AlertRecord \<Rightarrow> alertManager \<Rightarrow> bool \<times> alertManager" where
  "upsert r m =
     (let (fault, rest) = popOr False (sinkFaults m);
          m = m\<lparr>sinkFaults := rest\<rparr>
      in if fault then (False, m) else (True, m\<lparr>accepted := accepted m @ [r]\<rparr>))"

fun deliverLoop :: "string list \<Rightarrow> bool \<Rightarrow> alertManager \<Rightarrow> (bool \<times> bool) \<times> alertManager" where
  "deliverLoop [] delivered m = ((delivered, False), m)"
| "deliverLoop (filename # rest) delivered m =
     (let p = (outboxDir (settings m), filename);
          (payload, w) = readFile p (disk m);
          m = m\<lparr>disk := w\<rparr>
      in case payload of
           None \<Rightarrow> ((delivered, True), countError m)
         | Some content \<Rightarrow>
             (case decodeRecord content of
                None \<Rightarrow>
                  (let m = countError m;
                       (ok, w) = renameFile p (badDir (settings m), filename @ ''.bad'') (disk m);
                       m = m\<lparr>disk := w\<rparr>
                   in if \<not> ok then ((delivered, True), m) else deliverLoop rest delivered m)
              | Some r \<Rightarrow>
                  (let (ok, m) = upsert r m
                   in if \<not> ok then ((delivered, True), countError m)
                      else let (ok, w) = removeFile p (disk m);
                               m = m\<lparr>disk := w\<rparr>
                           in if \<not> ok then ((delivered, True), countError m)
                              else deliverLoop rest True (m\<lparr>alertsDelivered := alertsDelivered m + 1\<rparr>))))"

definition deliverOutbox :: "alertManager \<Rightarrow> (bool \<times> bool) \<times> alertManager" where
  "deliverOutbox m =
     (let (names, w) = readDir (outboxDir (settings m)) (disk m);
          m = m\<lparr>disk := w\<rparr>
      in case names of
           None \<Rightarrow> ((False, True), countError m)
         | Some ns \<Rightarrow>
             (let pending = sort (jsonNames ns);
                  ((delivered, failed), m) = deliverLoop pending False (m\<lparr>outboxPending := int (length pending)\<rparr>)
              in ((delivered, failed), if failed then m else refreshOutboxPending m)))"

section \<open>File names are ordered by time\<close>

lemma decVal_Cons: "decVal (c # s) = digitVal c * 10 ^ length s + decVal s"
proof (induction s rule: rev_induct)
  case Nil
  show ?case by (simp add: decVal_def)
next
  case (snoc d s)
  then show ?case using decVal_snoc [of "c # s" d] by (simp add: decVal_snoc algebra_simps)
qed

lemma digitVal_less: "isDigitChar c \<Longrightarrow> digitVal c < 10"
  by (auto simp: isDigitChar_def digitVal_def)

lemma decVal_less: "list_all isDigitChar s \<Longrightarrow> decVal s < 10 ^ length s"
proof (induction s)
  case Nil
  show ?case by (simp add: decVal_def)
next
  case (Cons c s)
  then have "digitVal c \<le> 9" "decVal s < 10 ^ length s" using digitVal_less [of c] by auto
  then have "digitVal c * 10 ^ length s \<le> 9 * 10 ^ length s" by (intro mult_right_mono) simp_all
  with \<open>decVal s < 10 ^ length s\<close> have "digitVal c * 10 ^ length s + decVal s < 10 * 10 ^ length s" by linarith
  then show ?case by (simp add: decVal_Cons)
qed

lemma digits_lex:
  assumes "length s = length t" "list_all isDigitChar s" "list_all isDigitChar t" "decVal s < decVal t"
  shows "s @ x < t @ y"
  using assms
proof (induction s t rule: list_induct2)
  case Nil
  then show ?case by simp
next
  case (Cons c s d t)
  have bounds: "decVal s < 10 ^ length s" "decVal t < 10 ^ length s"
    using Cons.prems Cons.hyps decVal_less [of s] decVal_less [of t] by simp_all
  have less: "digitVal c * 10 ^ length s + decVal s < digitVal d * 10 ^ length s + decVal t"
    using Cons.prems Cons.hyps by (simp add: decVal_Cons)
  have "\<not> digitVal d < digitVal c"
  proof
    assume "digitVal d < digitVal c"
    then have "(digitVal d + 1) * 10 ^ length s \<le> digitVal c * 10 ^ length s" by (intro mult_right_mono) simp_all
    with less bounds show False by simp
  qed
  then consider "digitVal c < digitVal d" | "digitVal c = digitVal d" by linarith
  then show ?case
  proof cases
    case 1
    with Cons.prems have "c < d" by (auto simp: isDigitChar_def digitVal_def less_char_def)
    then show ?thesis by simp
  next
    case 2
    have "48 \<le> (of_char c :: nat)" "48 \<le> (of_char d :: nat)" "of_char c - 48 = (of_char d - 48 :: nat)"
      using Cons.prems 2 by (simp_all add: isDigitChar_def digitVal_def)
    then have "(of_char c :: nat) = of_char d" by linarith
    then have "c = d" by (simp only: of_char_eq_iff)
    moreover have "decVal s < decVal t" using less 2 by simp
    ultimately show ?thesis using Cons by simp
  qed
qed

lemma padDigits_lex:
  assumes "a < b" "b < 10 ^ k" "0 < k"
  shows "padDigits k a @ x < padDigits k b @ y"
  using assms
  by (intro digits_lex) (auto simp: length_padDigits decVal_padDigits list_all_iff padDigits_digits)

text \<open>The files of the outbox sort by the time they were queued, for as long as a nanosecond counter
  has at most 20 digits, whatever the records; so the worker, which delivers the files in the order
  of their names, delivers an alert's ACTIVE record before its CLEARED record.\<close>

theorem outbox_names_chronological:
  assumes "0 \<le> t" "t < u" "u < 10 ^ 20"
  shows "outboxName token t r < outboxName token u s"
  using assms padDigits_lex [of "nat t" "nat u" 20] by (simp add: outboxName_def nat_less_iff)

theorem outbox_names_chronological_witness:
  "outboxName safeFileToken 999999999 (zeroRecord\<lparr>recName := ''b''\<rparr>)
   < outboxName safeFileToken 1000000000 (zeroRecord\<lparr>recName := ''a''\<rparr>)"
  by (rule outbox_names_chronological) simp_all

lemma not_isTempName_json: "\<not> isTempName (s @ jsonSuffix)"
proof
  assume "isTempName (s @ jsonSuffix)"
  then obtain x where "s @ ''.json'' = x @ ''.tmp''" by (auto simp: isTempName_def jsonSuffix_def)
  then have "last (s @ ''.json'') = last (x @ ''.tmp'')" by (rule arg_cong)
  then show False by simp
qed

lemma outboxName_not_temp [simp]: "\<not> isTempName (outboxName token t r)"
  unfolding outboxName_def append_assoc [symmetric] by (rule not_isTempName_json)

section \<open>Emitting and persisting\<close>

definition good_settings :: "alert_settings \<Rightarrow> bool" where
  "good_settings c =
     (outboxDir c \<noteq> fst (statePath c) \<and> outboxDir c \<noteq> badDir c \<and> \<not> isTempName (snd (statePath c)))"

definition stateFile :: "alertManager \<Rightarrow> alert_file content option" where
  "stateFile m = fileAt (disk m) (statePath (settings m))"

lemma readDir_result:
  assumes "readDir dir w = (r, w')"
  shows "files w' = files w" "r = None \<or> r = Some (namesIn dir (files w))"
proof -
  obtain ok w1 where q: "quietCall w = (ok, w1)" by fastforce
  with quietCall_files [OF q] assms
  show "files w' = files w" "r = None \<or> r = Some (namesIn dir (files w))"
    by (auto simp: readDir_def split: if_splits)
qed

lemma refresh_frame [simp]:
  "settings (refreshOutboxPending m) = settings m" "states (refreshOutboxPending m) = states m"
  "activeAlerts (refreshOutboxPending m) = activeAlerts m" "logged (refreshOutboxPending m) = logged m"
  "queued (refreshOutboxPending m) = queued m" "files (disk (refreshOutboxPending m)) = files (disk m)"
  "accepted (refreshOutboxPending m) = accepted m" "randoms (refreshOutboxPending m) = randoms m"
  by (auto simp: refreshOutboxPending_def Let_def readDir_result split: prod.splits option.splits)

lemma setState_frame [simp]:
  "settings (setState n s m) = settings m" "logged (setState n s m) = logged m"
  "queued (setState n s m) = queued m" "disk (setState n s m) = disk m"
  "activeAlerts (setState n s m) = activeAlerts m" "randoms (setState n s m) = randoms m"
  "stateFile (setState n s m) = stateFile m" "emittedRecords (setState n s m) = emittedRecords m"
  by (simp_all add: setState_def stateFile_def emittedRecords_def)

lemma persist_frame:
  assumes "persistStates write m = (ok, m')"
  shows "settings m' = settings m" "states m' = states m" "activeAlerts m' = activeAlerts m"
    "emittedRecords m' = emittedRecords m" "randoms m' = randoms m"
  using assms by (auto simp: persistStates_def emittedRecords_def split: prod.splits)

lemma emit_frame:
  assumes "emit write token r m = (ok, m')"
  shows "settings m' = settings m" "states m' = states m" "activeAlerts m' = activeAlerts m"
    "emittedRecords m' = (if ok then insert r (emittedRecords m) else emittedRecords m)"
    "randoms m' = randoms m"
  using assms
  by (auto simp: emit_def enqueue_def emittedRecords_def Let_def split: prod.splits if_splits)

text \<open>A manager writes its states and its outbox through a writer that meets the contract.\<close>

locale alert_writer = atomic_writer write_file
  for write_file :: writer +
  fixes token :: "string \<Rightarrow> string"
begin

lemma persist_stateFile:
  assumes "persistStates write_file m = (ok, m')" "good_settings (settings m)"
  shows "stateFile m' = (if ok then Some (Whole (StatesFile (states m))) else stateFile m)"
proof -
  obtain w where w: "write_file (statePath (settings m)) (StatesFile (states m)) (disk m) = (ok, w)" "m' = m\<lparr>disk := w\<rparr>"
    using assms(1) by (auto simp: persistStates_def split: prod.splits)
  with assms(2) show ?thesis
    using stored [of _ _ _ w] refused [of _ _ _ w] by (cases ok) (auto simp: stateFile_def good_settings_def)
qed

lemma emit_stateFile:
  assumes "emit write_file token r m = (ok, m')" "good_settings (settings m)"
  shows "stateFile m' = stateFile m"
proof (cases "Mode (settings m) = alertModeObserve")
  case True
  with assms show ?thesis by (auto simp: emit_def stateFile_def)
next
  case False
  let ?p = "(outboxDir (settings m), outboxName token (fst (popOr 0 (clocks m))) r)"
  obtain b w where w: "write_file ?p (RecordFile r) (disk m) = (b, w)" by fastforce
  have "statePath (settings m) \<noteq> ?p" "\<not> isTempName (snd (statePath (settings m)))"
    using assms(2) by (auto simp: good_settings_def)
  with others [OF w] have "fileAt w (statePath (settings m)) = fileAt (disk m) (statePath (settings m))" by blast
  with assms(1) w False show ?thesis
    by (auto simp: emit_def enqueue_def stateFile_def fileAt_def Let_def split: prod.splits if_splits)
qed

lemma emit_queues:
  assumes "emit write_file token r m = (True, m')" "Mode (settings m) \<noteq> alertModeObserve"
  shows "\<exists>n. hasSuffix n jsonSuffix \<and> fileAt (disk m') (outboxDir (settings m), n) = Some (Whole (RecordFile r))"
proof -
  let ?n = "outboxName token (fst (popOr 0 (clocks m))) r"
  obtain b w where w: "write_file (outboxDir (settings m), ?n) (RecordFile r) (disk m) = (b, w)" by fastforce
  with assms have b and d: "files (disk m') = files w"
    by (auto simp: emit_def enqueue_def Let_def split: prod.splits if_splits)
  with stored [of "(outboxDir (settings m), ?n)" "RecordFile r" "disk m" w] w
  have "fileAt (disk m') (outboxDir (settings m), ?n) = Some (Whole (RecordFile r))" by (simp add: fileAt_def)
  moreover have "hasSuffix ?n jsonSuffix" unfolding outboxName_def append_assoc [symmetric] by (rule hasSuffix_append)
  ultimately show ?thesis by blast
qed

end

interpretation collector_alerts: alert_writer writeJSONAtomically safeFileToken
  by unfold_locales

interpretation reprocess_alerts: alert_writer writeReprocessAlertFile safeReprocessAlertFileToken
  by unfold_locales

section \<open>Delivering in order\<close>

definition fileIn :: "alertManager \<Rightarrow> string \<Rightarrow> alert_file content option" where
  "fileIn m n = fileAt (disk m) (outboxDir (settings m), n)"

definition badFile :: "alertManager \<Rightarrow> string \<Rightarrow> alert_file content option" where
  "badFile m n = fileAt (disk m) (badDir (settings m), n)"

definition recordIn :: "alertManager \<Rightarrow> string \<Rightarrow> AlertRecord option" where
  "recordIn m n = (case fileIn m n of None \<Rightarrow> None | Some c \<Rightarrow> decodeRecord c)"

lemma decodeRecord_None: "decodeRecord c = None \<longleftrightarrow> c = Torn"
  by (cases c rule: decodeRecord.cases) simp_all

lemma readFile_files:
  "readFile p w = (r, w') \<Longrightarrow> files w' = files w \<and> (r = None \<or> r = fileAt w p)"
  by (auto simp: readFile_def split: option.splits prod.splits if_splits dest: quietCall_files)

lemma removeFile_result:
  assumes "removeFile p w = (ok, w')"
  shows "fileAt w' q = (if ok \<and> q = p then None else fileAt w q)"
  using assms by (auto simp: removeFile_def fileAt_def split: option.splits elim!: sysCall_cases)

lemma renameFile_result:
  assumes "renameFile src dst w = (ok, w')"
  shows "fileAt w' q = (if ok \<and> q = dst then fileAt w src else if ok \<and> q = src then None else fileAt w q)"
  using assms by (auto simp: renameFile_def fileAt_def split: option.splits elim!: sysCall_cases)

lemma countError_frame [simp]:
  "settings (countError m) = settings m" "disk (countError m) = disk m" "accepted (countError m) = accepted m"
  by (simp_all add: countError_def)

lemma upsert_frame:
  assumes "upsert r m = (ok, m')"
  shows "settings m' = settings m" "disk m' = disk m" "accepted m' = (if ok then accepted m @ [r] else accepted m)"
  using assms by (auto simp: upsert_def Let_def split: prod.splits if_splits)

text \<open>
  What the loop does to its files: the first \<open>j\<close> are gone, the others are as they were; the
  sink has accepted, in order, the records of the first \<open>k\<close>, where \<open>k\<close> is \<open>j\<close> or, when
  a removal failed, one more; torn files among the first \<open>j\<close> are in the bad directory.
\<close>

definition delivered_to :: "alertManager \<Rightarrow> string list \<Rightarrow> nat \<Rightarrow> nat \<Rightarrow> alertManager \<Rightarrow> bool" where
  "delivered_to m names j k m' =
     (j \<le> k \<and> k \<le> Suc j \<and> k \<le> length names \<and> settings m' = settings m
      \<and> accepted m' = accepted m @ List.map_filter (recordIn m) (take k names)
      \<and> (\<forall>n. fileIn m' n = (if n \<in> set (take j names) then None else fileIn m n))
      \<and> (\<forall>n \<in> set (take j names). fileIn m n = Some Torn \<longrightarrow> badFile m' (n @ ''.bad'') = Some Torn)
      \<and> (\<forall>b. (\<forall>n \<in> set names. b \<noteq> n @ ''.bad'') \<longrightarrow> badFile m' b = badFile m b))"

lemma delivered_refl: "settings m' = settings m \<Longrightarrow> accepted m' = accepted m \<Longrightarrow>
    (\<And>p. fileAt (disk m') p = fileAt (disk m) p) \<Longrightarrow> delivered_to m names 0 0 m'"
  by (simp add: delivered_to_def fileIn_def badFile_def)

lemma map_filter_agree: "(\<And>x. x \<in> set xs \<Longrightarrow> f x = g x) \<Longrightarrow> List.map_filter f xs = List.map_filter g xs"
proof (induction xs)
  case (Cons a xs)
  then have "f a = g a" "List.map_filter f xs = List.map_filter g xs" by auto
  then show ?case by (simp only: map_filter_simps)
qed simp

lemma delivered_Cons:
  assumes "delivered_to m1 names j k m'" "settings m1 = settings m"
    and "accepted m1 = accepted m @ (case recordIn m n of None \<Rightarrow> [] | Some r \<Rightarrow> [r])"
    and "\<And>x. fileIn m1 x = (if x = n then None else fileIn m x)"
    and "fileIn m n = Some Torn \<Longrightarrow> badFile m1 (n @ ''.bad'') = Some Torn"
    and "\<And>b. b \<noteq> n @ ''.bad'' \<Longrightarrow> badFile m1 b = badFile m b"
    and "n \<notin> set names"
  shows "delivered_to m (n # names) (Suc j) (Suc k) m'"
proof -
  have same: "recordIn m1 x = recordIn m x" if "x \<in> set names" for x
    using that assms(4,7) by (auto simp: recordIn_def)
  have "List.map_filter (recordIn m1) (take k names) = List.map_filter (recordIn m) (take k names)"
    by (rule map_filter_agree) (rule same, erule in_set_takeD)
  then have acc: "accepted m' = accepted m @ List.map_filter (recordIn m) (take (Suc k) (n # names))"
    using assms(1,3) by (simp add: delivered_to_def split: option.splits)
  have rest: "fileIn m' x = (if x \<in> set (take j names) then None else fileIn m1 x)" for x
    using assms(1) by (simp add: delivered_to_def)
  have bad: "badFile m' b = badFile m1 b" if "\<forall>x \<in> set names. b \<noteq> x @ ''.bad''" for b
    using assms(1) that unfolding delivered_to_def by blast
  have own: "\<forall>x \<in> set names. n @ ''.bad'' \<noteq> x @ ''.bad''" using assms(7) by auto
  have files: "fileIn m' x = (if x \<in> set (take (Suc j) (n # names)) then None else fileIn m x)" for x
    using rest [of x] assms(4) [of x] by auto
  have torn: "badFile m' (x @ ''.bad'') = Some Torn" if "x \<in> set (take (Suc j) (n # names))" "fileIn m x = Some Torn" for x
  proof (cases "x = n")
    case True
    with that assms(5) bad [OF own] show ?thesis by simp
  next
    case False
    with that have x: "x \<in> set (take j names)" by simp
    with that False assms(4) have "fileIn m1 x = Some Torn" by simp
    with assms(1) x show ?thesis unfolding delivered_to_def by blast
  qed
  have others: "badFile m' b = badFile m b" if "\<forall>x \<in> set (n # names). b \<noteq> x @ ''.bad''" for b
    using that bad [of b] assms(6) [of b] by simp
  show ?thesis unfolding delivered_to_def
    using assms(1,2) acc files torn others by (simp only: delivered_to_def) simp
qed

lemma deliverLoop_delivers:
  assumes "deliverLoop names d m = ((d', failed), m')" "distinct names"
    and "outboxDir (settings m) \<noteq> badDir (settings m)"
  shows "\<exists>j k. delivered_to m names j k m' \<and> (\<not> failed \<longrightarrow> j = length names)"
  using assms
proof (induction names arbitrary: d m)
  case Nil
  then show ?case using delivered_refl [of m m "[]"] by (intro exI [of _ 0]) auto
next
  case (Cons n rest)
  let ?p = "(outboxDir (settings m), n)"
  let ?goal = "\<exists>j k. delivered_to m (n # rest) j k m' \<and> (\<not> failed \<longrightarrow> j = length (n # rest))"
  note run = Cons.prems(1) and dirs = Cons.prems(3)
  obtain payload w where rd: "readFile ?p (disk m) = (payload, w)" by fastforce
  have w: "files w = files (disk m)" and pay: "payload = None \<or> payload = fileIn m n"
    using readFile_files [OF rd] by (auto simp: fileIn_def)
  have none: ?goal if "failed" "settings m' = settings m" "accepted m' = accepted m" "files (disk m') = files (disk m)"
    using that delivered_refl [of m' m "n # rest"] by (intro exI [of _ 0]) (simp add: fileAt_def)
  show ?case
  proof (cases payload)
    case None
    with run rd w show ?thesis by (intro none) auto
  next
    case (Some c)
    with pay have c: "fileIn m n = Some c" by simp
    show ?thesis
    proof (cases "decodeRecord c")
      case bad: None
      then have torn: "c = Torn" by (simp add: decodeRecord_None)
      obtain ok w2 where mv: "renameFile ?p (badDir (settings m), n @ ''.bad'') w = (ok, w2)" by fastforce
      show ?thesis
      proof (cases ok)
        case False
        with run rd w Some bad mv renameFile_refused [of ?p _ w w2] show ?thesis by (intro none) auto
      next
        case True
        let ?m2 = "(countError (m\<lparr>disk := w\<rparr>))\<lparr>disk := w2\<rparr>"
        have "deliverLoop rest d ?m2 = ((d', failed), m')" using run rd Some bad mv True by simp
        with Cons obtain j k where jk: "delivered_to ?m2 rest j k m'" "\<not> failed \<longrightarrow> j = length rest"
          using dirs by fastforce
        have "delivered_to m (n # rest) (Suc j) (Suc k) m'"
          using Cons.prems(2) dirs c torn w True renameFile_result [OF mv]
          by (intro delivered_Cons [OF jk(1)]) (auto simp: recordIn_def fileIn_def badFile_def fileAt_def)
        with jk(2) show ?thesis by auto
      qed
    next
      case r: (Some r)
      obtain ok m1 where up: "upsert r (m\<lparr>disk := w\<rparr>) = (ok, m1)" by fastforce
      note u = upsert_frame [OF up]
      show ?thesis
      proof (cases ok)
        case False
        with run rd w Some r up u show ?thesis by (intro none) auto
      next
        case True
        obtain rm w2 where del: "removeFile ?p w = (rm, w2)" by fastforce
        show ?thesis
        proof (cases rm)
          case False
          with run rd Some r up u True del have "failed" "m' = countError (m1\<lparr>disk := w2\<rparr>)" by auto
          with False u True w c r removeFile_result [OF del] show ?thesis
            by (intro exI [of _ 0] exI [of _ 1])
              (auto simp: delivered_to_def fileIn_def badFile_def fileAt_def recordIn_def)
        next
          case gone: True
          let ?m2 = "m1\<lparr>disk := w2, alertsDelivered := alertsDelivered m1 + 1\<rparr>"
          have "deliverLoop rest True ?m2 = ((d', failed), m')" using run rd Some r up u True del gone by simp
          with Cons obtain j k where jk: "delivered_to ?m2 rest j k m'" "\<not> failed \<longrightarrow> j = length rest"
            using dirs u by fastforce
          have "delivered_to m (n # rest) (Suc j) (Suc k) m'"
            using Cons.prems(2) dirs c r w u True gone removeFile_result [OF del]
            by (intro delivered_Cons [OF jk(1)]) (auto simp: recordIn_def fileIn_def badFile_def fileAt_def)
          with jk(2) show ?thesis by auto
        qed
      qed
    qed
  qed
qed

definition outboxJSON :: "alertManager \<Rightarrow> string list" where
  "outboxJSON m = jsonNames (namesIn (outboxDir (settings m)) (files (disk m)))"

lemma outboxJSON_sorted: "sorted (outboxJSON m)" "distinct (outboxJSON m)"
  by (simp_all add: outboxJSON_def jsonNames_def namesIn_def sorted_wrt_filter)

lemma outboxJSON_set: "set (outboxJSON m) = {n. hasSuffix n jsonSuffix \<and> fileIn m n \<noteq> None}"
  by (auto simp: outboxJSON_def jsonNames_def namesIn_set fileIn_def fileAt_def)

lemma deliverOutbox_delivers:
  assumes "deliverOutbox m = ((delivered, failed), m')" "outboxDir (settings m) \<noteq> badDir (settings m)"
  shows "\<exists>j k. delivered_to m (outboxJSON m) j k m' \<and> (\<not> failed \<longrightarrow> j = length (outboxJSON m))"
proof -
  obtain names w where rd: "readDir (outboxDir (settings m)) (disk m) = (names, w)" by fastforce
  note w = readDir_result(1) [OF rd] and names = readDir_result(2) [OF rd]
  show ?thesis
  proof (cases names)
    case None
    with assms(1) rd have "failed" "m' = countError (m\<lparr>disk := w\<rparr>)" by (auto simp: deliverOutbox_def)
    with w delivered_refl [of m' m "outboxJSON m"] have "delivered_to m (outboxJSON m) 0 0 m'" by (simp add: fileAt_def)
    with \<open>failed\<close> show ?thesis by blast
  next
    case (Some ns)
    let ?m = "m\<lparr>disk := w, outboxPending := int (length (outboxJSON m))\<rparr>"
    have pending: "sort (jsonNames ns) = outboxJSON m"
      using names Some w outboxJSON_sorted(1) [of m] by (simp add: outboxJSON_def sorted_sort_id)
    obtain d f m2 where run: "deliverLoop (outboxJSON m) False ?m = ((d, f), m2)" by (metis surj_pair)
    have "deliverOutbox m = ((d, f), if f then m2 else refreshOutboxPending m2)"
      using rd Some pending run by (simp add: deliverOutbox_def)
    with assms(1) have m': "failed = f" "m' = (if f then m2 else refreshOutboxPending m2)" by auto
    obtain j k where jk: "delivered_to ?m (outboxJSON m) j k m2" "\<not> f \<longrightarrow> j = length (outboxJSON m)"
      using deliverLoop_delivers [OF run outboxJSON_sorted(2)] assms(2) by auto
    have "fileIn ?m = fileIn m" "badFile ?m = badFile m"
      using w by (auto simp: fun_eq_iff fileIn_def badFile_def fileAt_def)
    moreover from this have "recordIn ?m = recordIn m" by (simp add: fun_eq_iff recordIn_def)
    moreover have "fileIn m' = fileIn m2" "badFile m' = badFile m2" "settings m' = settings m2" "accepted m' = accepted m2"
      using m' by (auto simp: fun_eq_iff fileIn_def badFile_def fileAt_def)
    ultimately have "delivered_to m (outboxJSON m) j k m'" using jk(1) by (simp add: delivered_to_def)
    with jk(2) m' show ?thesis by blast
  qed
qed

text \<open>C31. One round of \<open>deliverOutbox\<close>, whatever calls fail: the sink receives the records of a
  prefix of the outbox in the order of the file names, each once; a file disappears only after
  its record was accepted or, when it does not decode, into the bad directory; all the other files
  stay as they were, so they are delivered by a later round; at most one accepted record still
  has its file (its removal failed), and a round that reports no failure empties the outbox.\<close>

theorem outbox_delivery_in_order:
  assumes "deliverOutbox m = ((delivered, failed), m')" "outboxDir (settings m) \<noteq> badDir (settings m)"
  shows "\<exists>j k. j \<le> k \<and> k \<le> Suc j \<and> k \<le> length (outboxJSON m)
      \<and> sorted (outboxJSON m)
      \<and> accepted m' = accepted m @ List.map_filter (recordIn m) (take k (outboxJSON m))
      \<and> (\<forall>n. fileIn m' n = (if n \<in> set (take j (outboxJSON m)) then None else fileIn m n))
      \<and> (\<forall>n \<in> set (take j (outboxJSON m)). recordIn m n = None \<longrightarrow> badFile m' (n @ ''.bad'') = Some Torn)
      \<and> (failed \<or> outboxJSON m' = [])"
proof -
  from deliverOutbox_delivers [OF assms] obtain j k
    where jk: "delivered_to m (outboxJSON m) j k m'" "\<not> failed \<longrightarrow> j = length (outboxJSON m)" by blast
  have torn: "fileIn m n = Some Torn" if "n \<in> set (take j (outboxJSON m))" "recordIn m n = None" for n
  proof -
    have "n \<in> set (outboxJSON m)" using that(1) by (rule in_set_takeD)
    with that(2) show ?thesis
      by (auto simp: outboxJSON_set recordIn_def decodeRecord_None split: option.splits)
  qed
  have files: "\<forall>n. fileIn m' n = (if n \<in> set (take j (outboxJSON m)) then None else fileIn m n)"
    using jk(1) by (simp add: delivered_to_def)
  have "outboxJSON m' = []" if "\<not> failed"
  proof -
    have "set (outboxJSON m') = {}" using files jk(2) that outboxJSON_set [of m] by (auto simp: outboxJSON_set)
    then show ?thesis by simp
  qed
  with jk torn files outboxJSON_sorted(1) show ?thesis unfolding delivered_to_def by blast
qed

definition outbox_example :: alertManager where
  "outbox_example = \<lparr>
     settings = \<lparr>Mode = ''clickhouse'', ServerIP = ''10.0.0.1'', hostname = ''h'', triggerWindows = 1,
       clearWindows = 3, activeUpdate = 60000000000, statePath = (''a'', ''state.json''), outboxDir = ''a/outbox'',
       badDir = ''a/bad''\<rparr>,
     states = [], activeAlerts = 0, alertsOpened = 0, alertsCleared = 0, alertsDelivered = 0, deliveryErrs = 0,
     outboxPending = 0, logged = [], queued = [],
     disk = \<lparr>files = [((''a/outbox'', ''2.json''), Whole (RecordFile (zeroRecord\<lparr>recID := ''two''\<rparr>))),
                      ((''a/outbox'', ''1.json''), Torn),
                      ((''a/outbox'', ''3.json''), Whole (RecordFile (zeroRecord\<lparr>recID := ''three''\<rparr>)))],
             faults = [], suffixes = [], trace = []\<rparr>,
     randoms = [], clocks = [], sinkFaults = [False, True], accepted = []\<rparr>"


theorem outbox_delivery_in_order_witness:
  "\<exists>delivered m'. deliverOutbox outbox_example = ((delivered, True), m')
     \<and> accepted m' = [zeroRecord\<lparr>recID := ''two''\<rparr>]
     \<and> (\<exists>j k. j \<le> k \<and> accepted m' = List.map_filter (recordIn outbox_example) (take k (outboxJSON outbox_example)))"
proof -
  obtain d f m' where run: "deliverOutbox outbox_example = ((d, f), m')" by (metis surj_pair)
  have "snd (fst (deliverOutbox outbox_example)) = True"
    "accepted (snd (deliverOutbox outbox_example)) = [zeroRecord\<lparr>recID := ''two''\<rparr>]"
    by (simp_all add: outbox_example_def deliverOutbox_def readDir_def quietCall_def sysCall_def popOr_def changeTo_def
        jsonNames_def namesIn_def hasSuffix_def jsonSuffix_def readFile_def fileAt_def renameFile_def countError_def
        upsert_def removeFile_def) (simp_all add: Let_def)
  with run have f: "f" "accepted m' = [zeroRecord\<lparr>recID := ''two''\<rparr>]" by simp_all
  have "outboxDir (settings outbox_example) \<noteq> badDir (settings outbox_example)" "accepted outbox_example = []"
    by (simp_all add: outbox_example_def)
  note dirs = this
  from outbox_delivery_in_order [OF run dirs(1)] obtain j k where "j \<le> k"
    "accepted m' = accepted outbox_example @ List.map_filter (recordIn outbox_example) (take k (outboxJSON outbox_example))"
    by blast
  then have "j \<le> k \<and> accepted m' = List.map_filter (recordIn outbox_example) (take k (outboxJSON outbox_example))"
    by (simp only: dirs append_Nil)
  moreover have "deliverOutbox outbox_example = ((d, True), m')" using run f(1) by simp
  ultimately show ?thesis using f(2) by blast
qed

end
