(* ===== verification/AlertMachine.thy ===== *)
theory AlertMachine
  imports Outbox
begin

text \<open>
  The alert state machines: \<open>applyObservation\<close> of the collector (\<open>alerts.go\<close>) and of the
  reprocessor (\<open>reprocesador/reprocess_alerts.go\<close>), their start-up (\<open>loadStates\<close>,
  \<open>reconcileDirtyStates\<close>), and the abstract hysteresis that both refine.
\<close>

section \<open>One observation\<close>

record alertObservation =
  obsName :: string
  obsThreshold :: f64
  obsClearThreshold :: f64
  obsIndicator :: f64
  obsNumerator :: u64
  obsDenominator :: u64
  obsValid :: bool

datatype alert_error = PersistFailed | EmitFailed | AlertIDFailed

text \<open>
  The delivery of the current record of an alert, the same at every place: persist the states,
  emit the record, mark it delivered, persist again; each failure ends the operation.
\<close>

definition announce :: "writer \<Rightarrow> (string \<Rightarrow> string) \<Rightarrow> string \<Rightarrow> alertManager \<Rightarrow> alert_error option \<times> alertManager" where
  "announce write token name m =
     (let (ok, m) = persistStates write m
      in if \<not> ok then (Some PersistFailed, m)
      else let (ok, m) = emit write token (Record (stateOf m name)) m
      in if \<not> ok then (Some EmitFailed, m)
      else let m = setState name ((stateOf m name)\<lparr>Dirty := False\<rparr>) m;
               (ok, m) = persistStates write m
      in (if ok then None else Some PersistFailed, m))"

definition openRecord :: "alertManager \<Rightarrow> alertObservation \<Rightarrow> int \<Rightarrow> string \<Rightarrow> AlertRecord" where
  "openRecord m obs now ident =
     \<lparr>recID = ident, recHostname = hostname (settings m), recIP = ServerIP (settings m), recStartTime = now,
      recEndTime = None, recName = obsName obs, recThreshold = obsThreshold obs,
      recIndicator = obsIndicator obs, recState = alertStateActive\<rparr>"

text \<open>The part for an inactive alert, from \<open>state.ClearWindows = 0\<close> on.\<close>

definition inactiveStep :: "writer \<Rightarrow> (string \<Rightarrow> string) \<Rightarrow> alertObservation \<Rightarrow> int \<Rightarrow> alertManager \<Rightarrow> alert_error option \<times> alertManager" where
  "inactiveStep write token obs now m =
     (let name = obsName obs;
          s = (stateOf m name)\<lparr>ClearWindows := 0\<rparr>
      in if f64_less (obsIndicator obs) (obsThreshold obs) then (None, setState name (s\<lparr>BreachWindows := 0\<rparr>) m)
      else let s = s\<lparr>BreachWindows := BreachWindows s + 1\<rparr>
      in if BreachWindows s < triggerWindows (settings m) then (None, setState name s m)
      else let (random, rest) = popOr None (randoms m);
               m = m\<lparr>randoms := rest\<rparr>
      in case newAlertID random of
           None \<Rightarrow> (Some AlertIDFailed, setState name s m)
         | Some ident \<Rightarrow>
             announce write token name
               ((setState name (s\<lparr>Record := openRecord m obs now ident, Active := True, BreachWindows := 0,
                                  LastEmitted := now, Dirty := True\<rparr>) m)
                \<lparr>activeAlerts := activeAlerts m + 1, alertsOpened := alertsOpened m + 1\<rparr>))"

text \<open>The active alert's counters and peak after an observation.\<close>

definition observeActive :: "alertObservation \<Rightarrow> alertRuntimeState \<Rightarrow> alertRuntimeState" where
  "observeActive obs s =
     (let s = s\<lparr>BreachWindows := 0\<rparr>;
          s = (if f64_less (recIndicator (Record s)) (obsIndicator obs)
               then s\<lparr>Record := (Record s)\<lparr>recIndicator := obsIndicator obs\<rparr>, Dirty := True\<rparr> else s)
      in if f64_less (obsIndicator obs) (obsClearThreshold obs)
         then s\<lparr>ClearWindows := ClearWindows s + 1\<rparr> else s\<lparr>ClearWindows := 0\<rparr>)"

definition activeStep :: "writer \<Rightarrow> (string \<Rightarrow> string) \<Rightarrow> alertObservation \<Rightarrow> int \<Rightarrow> alertManager \<Rightarrow> alert_error option \<times> alertManager" where
  "activeStep write token obs now m =
     (let name = obsName obs;
          s = observeActive obs (stateOf m name)
      in if ClearWindows s \<ge> clearWindows (settings m)
         then announce write token name
                ((setState name (s\<lparr>Active := False, ClearWindows := 0,
                     Record := (Record s)\<lparr>recState := alertStateCleared, recEndTime := Some now\<rparr>,
                     LastEmitted := now, Dirty := True\<rparr>) m)
                 \<lparr>activeAlerts := activeAlerts m - 1, alertsCleared := alertsCleared m + 1\<rparr>)
         else if Dirty s \<and> now - LastEmitted s \<ge> activeUpdate (settings m)
         then announce write token name (setState name (s\<lparr>LastEmitted := now\<rparr>) m)
         else (None, setState name s m))"

text \<open>The collector first retries an undelivered record of an inactive alert.\<close>

definition applyObservation :: "writer \<Rightarrow> (string \<Rightarrow> string) \<Rightarrow> alertObservation \<Rightarrow> int \<Rightarrow> alertManager \<Rightarrow> alert_error option \<times> alertManager" where
  "applyObservation write token obs now m =
     (let name = obsName obs;
          s = stateOf m name;
          m = setState name s m
      in if Active s then activeStep write token obs now m
         else if Dirty s \<and> now - LastEmitted s \<ge> activeUpdate (settings m)
         then (case announce write token name (setState name (s\<lparr>LastEmitted := now\<rparr>) m) of
                 (None, m) \<Rightarrow> inactiveStep write token obs now m
               | (Some e, m) \<Rightarrow> (Some e, m))
         else inactiveStep write token obs now m)"

text \<open>The reprocessor has no such retry.\<close>

definition reprocessApplyObservation :: "writer \<Rightarrow> (string \<Rightarrow> string) \<Rightarrow> alertObservation \<Rightarrow> int \<Rightarrow> alertManager \<Rightarrow> alert_error option \<times> alertManager" where
  "reprocessApplyObservation write token obs now m =
     (let name = obsName obs;
          s = stateOf m name;
          m = setState name s m
      in if Active s then activeStep write token obs now m else inactiveStep write token obs now m)"

text \<open>\<open>evaluate\<close>: the valid observations, one after another; an error is only logged.\<close>

fun evaluateAll :: "(alertObservation \<Rightarrow> int \<Rightarrow> alertManager \<Rightarrow> alert_error option \<times> alertManager)
    \<Rightarrow> alertObservation list \<Rightarrow> int \<Rightarrow> alertManager \<Rightarrow> alertManager" where
  "evaluateAll step [] now m = m"
| "evaluateAll step (obs # rest) now m =
     evaluateAll step rest now (if obsValid obs then snd (step obs now m) else m)"

section \<open>Start-up\<close>

definition countActive :: "alert_states \<Rightarrow> int" where
  "countActive ss = int (length (filter (\<lambda>(_, s). Active s) ss))"

datatype load_error = StateReadError | StateDecodeError

definition loadStates :: "alertManager \<Rightarrow> load_error option \<times> alertManager" where
  "loadStates m =
     (let p = statePath (settings m) in
      if fileAt (disk m) p = None then (None, m)
      else let (payload, w) = readFile p (disk m);
               m = m\<lparr>disk := w\<rparr>
      in case payload of
           None \<Rightarrow> (Some StateReadError, m)
         | Some Torn \<Rightarrow> (Some StateDecodeError, m)
         | Some (Whole (RecordFile _)) \<Rightarrow> (None, m\<lparr>activeAlerts := countActive (states m)\<rparr>)
         | Some (Whole (StatesFile ss)) \<Rightarrow> (None, m\<lparr>states := ss, activeAlerts := countActive ss\<rparr>))"

text \<open>
  \<open>reconcileDirtyStates\<close> over the names in the order the map yields them, and the
  \<open>Start\<close> that persists when it changed something.
\<close>

fun reconcileDirtyStates :: "writer \<Rightarrow> (string \<Rightarrow> string) \<Rightarrow> string list \<Rightarrow> bool \<Rightarrow> alertManager \<Rightarrow> bool \<times> alertManager" where
  "reconcileDirtyStates write token [] changed m = (changed, m)"
| "reconcileDirtyStates write token (name # rest) changed m =
     (if \<not> Dirty (stateOf m name) then reconcileDirtyStates write token rest changed m
      else let (ok, m) = emit write token (Record (stateOf m name)) m
           in reconcileDirtyStates write token rest True
                (if ok then setState name ((stateOf m name)\<lparr>Dirty := False\<rparr>) m else m))"

definition startAlerts :: "writer \<Rightarrow> (string \<Rightarrow> string) \<Rightarrow> string list \<Rightarrow> alertManager \<Rightarrow> alertManager" where
  "startAlerts write token order m =
     (let (changed, m) = reconcileDirtyStates write token order False m
      in if changed then snd (persistStates write m) else m)"

section \<open>What an announcement changes\<close>

lemma announce_cases:
  assumes "announce write token name m = (e, m')"
  obtains (persist) m1 where "persistStates write m = (False, m1)" "e = Some PersistFailed" "m' = m1"
  | (emit) m1 m2 where "persistStates write m = (True, m1)" "emit write token (Record (stateOf m1 name)) m1 = (False, m2)"
      "e = Some EmitFailed" "m' = m2"
  | (sent) ok m1 m2 where "persistStates write m = (True, m1)" "emit write token (Record (stateOf m1 name)) m1 = (True, m2)"
      "persistStates write (setState name ((stateOf m2 name)\<lparr>Dirty := False\<rparr>) m2) = (ok, m')"
      "e = (if ok then None else Some PersistFailed)"
proof -
  obtain ok1 m1 where 1: "persistStates write m = (ok1, m1)" by fastforce
  obtain ok2 m2 where 2: "emit write token (Record (stateOf m1 name)) m1 = (ok2, m2)" by fastforce
  obtain ok3 m3 where 3: "persistStates write (setState name ((stateOf m2 name)\<lparr>Dirty := False\<rparr>) m2) = (ok3, m3)" by fastforce
  show thesis
    using assms 1 2 3 persist emit sent unfolding announce_def
    by (cases ok1; cases ok2) (auto simp: Let_def)
qed

lemma stateOf_cong: "states m' = states m \<Longrightarrow> stateOf m' = stateOf m"
  by (simp add: stateOf_def fun_eq_iff)

text \<open>
  Only the delivery mark of the alert changes; it is cleared only when the record was emitted.
\<close>

lemma announce_result:
  assumes "announce write token name m = (e, m')"
  shows "settings m' = settings m" "activeAlerts m' = activeAlerts m"
    and "states m' = states m \<or> states m' = AList.update name ((stateOf m name)\<lparr>Dirty := False\<rparr>) (states m)"
    and "emittedRecords m' = emittedRecords m \<and> stateOf m' name = stateOf m name \<and> e \<noteq> None
         \<or> emittedRecords m' = insert (Record (stateOf m name)) (emittedRecords m)
           \<and> stateOf m' name = (stateOf m name)\<lparr>Dirty := False\<rparr>"
    and "e = Some AlertIDFailed \<longleftrightarrow> False"
proof -
  have "settings m' = settings m \<and> activeAlerts m' = activeAlerts m
    \<and> (states m' = states m \<or> states m' = AList.update name ((stateOf m name)\<lparr>Dirty := False\<rparr>) (states m))
    \<and> (emittedRecords m' = emittedRecords m \<and> stateOf m' name = stateOf m name \<and> e \<noteq> None
         \<or> emittedRecords m' = insert (Record (stateOf m name)) (emittedRecords m)
           \<and> stateOf m' name = (stateOf m name)\<lparr>Dirty := False\<rparr>) \<and> (e = Some AlertIDFailed \<longleftrightarrow> False)"
    using assms
  proof (cases rule: announce_cases)
    case (persist m1)
    with persist_frame [OF persist(1)] stateOf_cong [of m1 m] show ?thesis by simp
  next
    case (emit m1 m2)
    with persist_frame [OF emit(1)] emit_frame [OF emit(2)] stateOf_cong [of m1 m] stateOf_cong [of m2 m] show ?thesis by simp
  next
    case (sent ok m1 m2)
    note p = persist_frame [OF sent(1)] and s = emit_frame [OF sent(2)] and q = persist_frame [OF sent(3)]
    have "stateOf m2 = stateOf m" "stateOf m1 = stateOf m" using p s stateOf_cong [of m1 m] stateOf_cong [of m2 m] by simp_all
    moreover from this q s p have "states m' = AList.update name ((stateOf m name)\<lparr>Dirty := False\<rparr>) (states m)"
      by (simp add: setState_def)
    moreover from this have "stateOf m' name = (stateOf m name)\<lparr>Dirty := False\<rparr>" by (simp add: stateOf_def)
    ultimately show ?thesis using p s q sent(4) by simp
  qed
  then show "settings m' = settings m" "activeAlerts m' = activeAlerts m"
    "states m' = states m \<or> states m' = AList.update name ((stateOf m name)\<lparr>Dirty := False\<rparr>) (states m)"
    "emittedRecords m' = emittedRecords m \<and> stateOf m' name = stateOf m name \<and> e \<noteq> None
         \<or> emittedRecords m' = insert (Record (stateOf m name)) (emittedRecords m)
           \<and> stateOf m' name = (stateOf m name)\<lparr>Dirty := False\<rparr>"
    "e = Some AlertIDFailed \<longleftrightarrow> False" by blast+
qed

lemma announce_other:
  assumes "announce write token name m = (e, m')" "n \<noteq> name"
  shows "stateOf m' n = stateOf m n"
  using announce_result(3) [OF assms(1)] assms(2) by (auto simp: stateOf_def)

section \<open>The hysteresis\<close>

datatype phase = Quiet int | Firing int

fun hstep :: "alert_settings \<Rightarrow> alertObservation \<Rightarrow> phase \<Rightarrow> phase" where
  "hstep c obs (Quiet b) =
     (if f64_less (obsIndicator obs) (obsThreshold obs) then Quiet 0
      else if b + 1 < triggerWindows c then Quiet (b + 1) else Firing 0)"
| "hstep c obs (Firing k) =
     (let k' = (if f64_less (obsIndicator obs) (obsClearThreshold obs) then k + 1 else 0)
      in if clearWindows c \<le> k' then Quiet 0 else Firing k')"

definition phaseOfState :: "alertRuntimeState \<Rightarrow> phase" where
  "phaseOfState s = (if Active s then Firing (ClearWindows s) else Quiet (BreachWindows s))"

definition phaseOf :: "alertManager \<Rightarrow> string \<Rightarrow> phase" where
  "phaseOf m n = phaseOfState (stateOf m n)"

text \<open>An announcement does not change the phase.\<close>

lemma announce_phase:
  assumes "announce write token name m = (e, m')"
  shows "phaseOf m' name = phaseOf m name"
  using announce_result(4) [OF assms] by (auto simp: phaseOf_def phaseOfState_def)

lemma stateOf_update_counters [simp]:
  "stateOf (m\<lparr>activeAlerts := a, alertsOpened := b\<rparr>) = stateOf m"
  "stateOf (m\<lparr>activeAlerts := a, alertsCleared := b\<rparr>) = stateOf m"
  "stateOf (m\<lparr>randoms := r\<rparr>) = stateOf m"
  by (rule stateOf_cong, simp)+

lemma phaseOf_simps [simp]:
  "phaseOf (setState n s m) k = (if k = n then phaseOfState s else phaseOf m k)"
  "phaseOf (m\<lparr>activeAlerts := a, alertsOpened := b\<rparr>) = phaseOf m"
  "phaseOf (m\<lparr>activeAlerts := a, alertsCleared := b\<rparr>) = phaseOf m"
  "phaseOf (m\<lparr>randoms := r\<rparr>) = phaseOf m"
  by (simp_all add: phaseOf_def fun_eq_iff)

lemma observeActive_simps [simp]:
  "Active (observeActive obs s) = Active s" "BreachWindows (observeActive obs s) = 0"
  "ClearWindows (observeActive obs s) =
     (if f64_less (obsIndicator obs) (obsClearThreshold obs) then ClearWindows s + 1 else 0)"
  by (simp_all add: observeActive_def Let_def)

lemma observeActive_dirty:
  "Dirty s \<Longrightarrow> Dirty (observeActive obs s)"
  "\<not> Dirty (observeActive obs s) \<Longrightarrow> Record (observeActive obs s) = Record s"
  by (auto simp: observeActive_def Let_def split: if_splits)

lemma inactiveStep_phase:
  assumes "inactiveStep write token obs now m = (e, m')" "\<not> Active (stateOf m (obsName obs))"
  shows "phaseOf m' (obsName obs) =
    (if e = Some AlertIDFailed then Quiet (BreachWindows (stateOf m (obsName obs)) + 1)
     else hstep (settings m) obs (phaseOf m (obsName obs)))"
  using assms
  unfolding inactiveStep_def Let_def
  by (auto simp: phaseOf_def [of m] phaseOfState_def split: if_splits option.splits prod.splits
      dest: announce_phase announce_result(5))

lemma activeStep_phase:
  assumes "activeStep write token obs now m = (e, m')" "Active (stateOf m (obsName obs))"
  shows "phaseOf m' (obsName obs) = hstep (settings m) obs (phaseOf m (obsName obs)) \<and> e \<noteq> Some AlertIDFailed"
  using assms
  unfolding activeStep_def Let_def
  by (auto simp: phaseOf_def [of m] phaseOfState_def split: if_splits
      dest: announce_phase announce_result(5))

section \<open>The gauge of active alerts\<close>

definition gauge_ok :: "alertManager \<Rightarrow> bool" where
  "gauge_ok m = (distinct (map fst (states m)) \<and> activeAlerts m = countActive (states m))"

lemma countActive_simps [simp]:
  "countActive [] = 0" "countActive ((n, s) # ss) = of_bool (Active s) + countActive ss"
  by (simp_all add: countActive_def)

lemma countActive_update:
  assumes "distinct (map fst ss)"
  shows "countActive (AList.update n s ss) =
    countActive ss - of_bool (case map_of ss n of None \<Rightarrow> False | Some t \<Rightarrow> Active t) + of_bool (Active s)"
  using assms
proof (induction ss)
  case (Cons p ss)
  obtain k t where p: "p = (k, t)" by fastforce
  show ?case
  proof (cases "k = n")
    case True
    with p show ?thesis by simp
  next
    case False
    with p Cons show ?thesis by simp
  qed
qed simp

lemma distinct_update_keys: "distinct (map fst ss) \<Longrightarrow> distinct (map fst (AList.update n s ss))"
  by (rule distinct_update)

lemma gauge_setState:
  assumes "gauge_ok m"
  shows "gauge_ok ((setState n s m)\<lparr>activeAlerts := activeAlerts m + of_bool (Active s) - of_bool (Active (stateOf m n))\<rparr>)"
  using assms countActive_update [of "states m" n s]
  by (auto simp: gauge_ok_def setState_def stateOf_def zeroState_def distinct_update_keys split: option.splits)

lemma gauge_cong: "states m' = states m \<Longrightarrow> activeAlerts m' = activeAlerts m \<Longrightarrow> gauge_ok m' = gauge_ok m"
  by (simp add: gauge_ok_def)

lemma gauge_same:
  assumes "gauge_ok m" "Active s = Active (stateOf m n)"
  shows "gauge_ok (setState n s m)"
  using gauge_setState [OF assms(1), where n = n and s = s] assms(2) by (simp add: gauge_ok_def setState_def)

lemma gauge_announce:
  assumes "announce write token name m = (e, m')" "gauge_ok m"
  shows "gauge_ok m'"
proof -
  from announce_result(3) [OF assms(1)] have "states m' = states m
    \<or> states m' = states (setState name ((stateOf m name)\<lparr>Dirty := False\<rparr>) m)"
    by (simp add: setState_def)
  moreover have "gauge_ok (setState name ((stateOf m name)\<lparr>Dirty := False\<rparr>) m)"
    using assms(2) by (rule gauge_same) simp
  ultimately show ?thesis using assms(2) announce_result(2) [OF assms(1)] by (auto simp: gauge_ok_def)
qed

lemma gauge_open:
  assumes "gauge_ok m" "\<not> Active (stateOf m n)" "Active s"
  shows "gauge_ok ((setState n s m)\<lparr>activeAlerts := activeAlerts m + 1, alertsOpened := x\<rparr>)"
  using gauge_setState [OF assms(1), where n = n and s = s] assms by (simp add: gauge_ok_def setState_def)

lemma gauge_close:
  assumes "gauge_ok m" "Active (stateOf m n)" "\<not> Active s"
  shows "gauge_ok ((setState n s m)\<lparr>activeAlerts := activeAlerts m - 1, alertsCleared := x\<rparr>)"
  using gauge_setState [OF assms(1), where n = n and s = s] assms by (simp add: gauge_ok_def setState_def)

lemma gauge_randoms [simp]: "gauge_ok (m\<lparr>randoms := r\<rparr>) = gauge_ok m"
  by (simp add: gauge_ok_def)

lemmas gauge_rules = gauge_same gauge_open gauge_close

lemma inactiveStep_gauge:
  assumes "inactiveStep write token obs now m = (e, m')" "gauge_ok m" "\<not> Active (stateOf m (obsName obs))"
  shows "gauge_ok m'"
proof -
  obtain random rest where pop: "popOr None (randoms m) = (random, rest)" by fastforce
  let ?m = "m\<lparr>randoms := rest\<rparr>"
  have open_it: "gauge_ok ((setState (obsName obs) s ?m)\<lparr>activeAlerts := activeAlerts ?m + 1, alertsOpened := x\<rparr>)"
    if "Active s" for s x
    using assms(2,3) that by (intro gauge_open) simp_all
  from assms(1) show ?thesis
    unfolding inactiveStep_def Let_def pop prod.case
    using assms(2,3) open_it
    by (auto split: if_splits option.splits dest!: gauge_announce intro!: gauge_same)
qed

lemma activeStep_gauge:
  assumes "activeStep write token obs now m = (e, m')" "gauge_ok m" "Active (stateOf m (obsName obs))"
  shows "gauge_ok m'"
  using assms unfolding activeStep_def Let_def
  by (auto split: if_splits dest!: gauge_announce intro!: gauge_same gauge_close)

section \<open>Nothing is marked delivered that was not emitted\<close>

definition settled :: "alertRuntimeState \<Rightarrow> AlertRecord set \<Rightarrow> bool" where
  "settled s E = (Dirty s \<or> recID (Record s) = [] \<or> Record s \<in> E)"

definition all_settled :: "alertManager \<Rightarrow> bool" where
  "all_settled m = (\<forall>n. settled (stateOf m n) (emittedRecords m))"

lemma settled_mono: "settled s E \<Longrightarrow> E \<subseteq> F \<Longrightarrow> settled s F"
  by (auto simp: settled_def)

lemma all_settled_cong:
  "stateOf m' = stateOf m \<Longrightarrow> emittedRecords m' = emittedRecords m \<Longrightarrow> all_settled m' = all_settled m"
  by (simp add: all_settled_def)

lemma emitted_counters [simp]:
  "emittedRecords (m\<lparr>activeAlerts := a, alertsOpened := b\<rparr>) = emittedRecords m"
  "emittedRecords (m\<lparr>activeAlerts := a, alertsCleared := b\<rparr>) = emittedRecords m"
  "emittedRecords (m\<lparr>randoms := r\<rparr>) = emittedRecords m"
  by (simp_all add: emittedRecords_def)

lemma all_settled_counters [simp]:
  "all_settled (m\<lparr>activeAlerts := a, alertsOpened := b\<rparr>) = all_settled m"
  "all_settled (m\<lparr>activeAlerts := a, alertsCleared := b\<rparr>) = all_settled m"
  "all_settled (m\<lparr>randoms := r\<rparr>) = all_settled m"
  by (simp_all add: all_settled_def)

lemma settled_setState:
  assumes "all_settled m" "Dirty s \<or> Record s = Record (stateOf m n) \<and> (Dirty (stateOf m n) \<longrightarrow> Dirty s)"
  shows "all_settled (setState n s m)"
  using assms by (auto simp: all_settled_def settled_def)

lemma settled_announce:
  assumes "announce write token name m = (e, m')" "all_settled m"
  shows "all_settled m'"
  unfolding all_settled_def
proof
  fix n
  have more: "emittedRecords m \<subseteq> emittedRecords m'" using announce_result(4) [OF assms(1)] by auto
  have old: "settled (stateOf m n) (emittedRecords m')"
    using assms(2) more by (auto simp: all_settled_def intro: settled_mono)
  show "settled (stateOf m' n) (emittedRecords m')"
  proof (cases "n = name")
    case True
    from announce_result(4) [OF assms(1)] show ?thesis
    proof
      assume "emittedRecords m' = insert (Record (stateOf m name)) (emittedRecords m) \<and> stateOf m' name = (stateOf m name)\<lparr>Dirty := False\<rparr>"
      with True show ?thesis by (simp add: settled_def)
    qed (use True old in simp)
  next
    case False
    with announce_other [OF assms(1)] old show ?thesis by simp
  qed
qed

lemma inactiveStep_settled:
  assumes "inactiveStep write token obs now m = (e, m')" "all_settled m"
  shows "all_settled m'"
proof -
  obtain random rest where pop: "popOr None (randoms m) = (random, rest)" by fastforce
  have same: "all_settled (setState n ((stateOf m n)\<lparr>ClearWindows := c, BreachWindows := b\<rparr>) m)"
    "all_settled (setState n ((stateOf m n)\<lparr>ClearWindows := c, BreachWindows := b\<rparr>) (m\<lparr>randoms := rest\<rparr>))" for n c b
    using assms(2) by (auto intro!: settled_setState)
  have fresh: "all_settled ((setState n s (m\<lparr>randoms := rest\<rparr>))\<lparr>activeAlerts := x, alertsOpened := y\<rparr>)"
    if "Dirty s" for n s x y
    unfolding all_settled_counters using assms(2) that by (intro settled_setState) simp_all
  from assms(1) same fresh show ?thesis
    unfolding inactiveStep_def Let_def pop prod.case
    by (auto split: if_splits option.splits dest: settled_announce)
qed

lemma activeStep_settled:
  assumes "activeStep write token obs now m = (e, m')" "all_settled m"
  shows "all_settled m'"
  using assms observeActive_dirty [where s = "stateOf m (obsName obs)" and obs = obs] unfolding activeStep_def Let_def
  by (auto split: if_splits dest!: settled_announce intro!: settled_setState)

section \<open>The two machines and their contract\<close>

lemma inactiveStep_frame:
  assumes "inactiveStep write token obs now m = (e, m')"
  shows "settings m' = settings m" "n \<noteq> obsName obs \<Longrightarrow> stateOf m' n = stateOf m n"
  using assms unfolding inactiveStep_def Let_def
  by (auto split: if_splits option.splits prod.splits dest: announce_result(1) announce_other)

lemma activeStep_frame:
  assumes "activeStep write token obs now m = (e, m')"
  shows "settings m' = settings m" "n \<noteq> obsName obs \<Longrightarrow> stateOf m' n = stateOf m n"
  using assms unfolding activeStep_def Let_def
  by (auto split: if_splits dest: announce_result(1) announce_other)

text \<open>
  What both step functions promise: without an error the phase of the observed alert makes the
  hysteresis step; other alerts and the settings stay; the gauge counts the active alerts and no
  alert is marked delivered that was not emitted, errors or not.
\<close>

locale hysteresis_machine =
  fixes step :: "alertObservation \<Rightarrow> int \<Rightarrow> alertManager \<Rightarrow> alert_error option \<times> alertManager"
  assumes refines: "step obs now m = (None, m') \<Longrightarrow> phaseOf m' (obsName obs) = hstep (settings m) obs (phaseOf m (obsName obs))"
    and others: "step obs now m = (e, m') \<Longrightarrow> n \<noteq> obsName obs \<Longrightarrow> stateOf m' n = stateOf m n"
    and fixed: "step obs now m = (e, m') \<Longrightarrow> settings m' = settings m"
    and gauge: "step obs now m = (e, m') \<Longrightarrow> gauge_ok m \<Longrightarrow> gauge_ok m'"
    and delivery: "step obs now m = (e, m') \<Longrightarrow> all_settled m \<Longrightarrow> all_settled m'"
begin

lemma evaluateAll_invariant:
  "gauge_ok m \<and> all_settled m \<Longrightarrow> gauge_ok (evaluateAll step obs now m) \<and> all_settled (evaluateAll step obs now m)"
proof (induction obs arbitrary: m)
  case (Cons ob obs)
  obtain e m1 where st: "step ob now m = (e, m1)" by fastforce
  with Cons gauge [OF st] delivery [OF st] show ?case by simp
qed simp

lemma rounds_invariant:
  "gauge_ok m \<and> all_settled m \<Longrightarrow>
     gauge_ok (fold (\<lambda>(obs, now). evaluateAll step obs now) rounds m)
     \<and> all_settled (fold (\<lambda>(obs, now). evaluateAll step obs now) rounds m)"
proof (induction rounds arbitrary: m)
  case (Cons r rounds)
  then show ?case using evaluateAll_invariant by (cases r) simp
qed simp

end

lemma applyObservation_contract:
  assumes run: "applyObservation write token obs now m = (e, m')"
  shows "(e = None \<longrightarrow> phaseOf m' (obsName obs) = hstep (settings m) obs (phaseOf m (obsName obs)))
    \<and> settings m' = settings m \<and> (n \<noteq> obsName obs \<longrightarrow> stateOf m' n = stateOf m n)
    \<and> (gauge_ok m \<longrightarrow> gauge_ok m') \<and> (all_settled m \<longrightarrow> all_settled m')"
proof -
  define m0 where "m0 = setState (obsName obs) (stateOf m (obsName obs)) m"
  have m0: "settings m0 = settings m" "phaseOf m0 = phaseOf m" "\<And>k. stateOf m0 k = stateOf m k"
    "gauge_ok m \<Longrightarrow> gauge_ok m0" "all_settled m \<Longrightarrow> all_settled m0"
    by (auto simp: m0_def phaseOf_def fun_eq_iff intro!: gauge_same settled_setState)
  let ?s = "stateOf m (obsName obs)"
  let ?m1 = "setState (obsName obs) (?s\<lparr>LastEmitted := now\<rparr>) m0"
  have m1: "settings ?m1 = settings m" "phaseOf ?m1 (obsName obs) = phaseOf m (obsName obs)"
    "\<And>k. k \<noteq> obsName obs \<Longrightarrow> stateOf ?m1 k = stateOf m k"
    "gauge_ok m \<Longrightarrow> gauge_ok ?m1" "all_settled m \<Longrightarrow> all_settled ?m1"
    using m0 by (auto simp: phaseOf_def phaseOfState_def intro!: gauge_same settled_setState)
  consider (active) "Active ?s" "activeStep write token obs now m0 = (e, m')"
    | (quiet) "\<not> Active ?s" "inactiveStep write token obs now m0 = (e, m')"
    | (retried) m2 where "\<not> Active ?s" "announce write token (obsName obs) ?m1 = (None, m2)" "inactiveStep write token obs now m2 = (e, m')"
    | (failed) "\<not> Active ?s" "announce write token (obsName obs) ?m1 = (e, m')" "e \<noteq> None"
    using run unfolding applyObservation_def Let_def m0_def [symmetric]
    by (auto split: if_splits prod.splits option.splits)
  then show ?thesis
  proof cases
    case active
    with m0 activeStep_phase [OF active(2)] activeStep_frame [OF active(2)] activeStep_gauge [OF active(2)]
      activeStep_settled [OF active(2)] show ?thesis by simp
  next
    case quiet
    with m0 inactiveStep_phase [OF quiet(2)] inactiveStep_frame [OF quiet(2)] inactiveStep_gauge [OF quiet(2)]
      inactiveStep_settled [OF quiet(2)] show ?thesis by simp
  next
    case (retried m2)
    have "\<not> Active (stateOf m2 (obsName obs))"
      using announce_result(4) [OF retried(2)] retried(1) m0(3) by auto
    with retried m1 announce_phase [OF retried(2)] announce_result(1) [OF retried(2)] announce_other [OF retried(2)]
      gauge_announce [OF retried(2)] settled_announce [OF retried(2)]
      inactiveStep_phase [OF retried(3)] inactiveStep_frame [OF retried(3)] inactiveStep_gauge [OF retried(3)]
      inactiveStep_settled [OF retried(3)] show ?thesis by simp
  next
    case failed
    with m1 announce_result(1) [OF failed(2)] announce_other [OF failed(2)]
      gauge_announce [OF failed(2)] settled_announce [OF failed(2)] show ?thesis by auto
  qed
qed

lemma reprocess_contract:
  assumes run: "reprocessApplyObservation write token obs now m = (e, m')"
  shows "(e = None \<longrightarrow> phaseOf m' (obsName obs) = hstep (settings m) obs (phaseOf m (obsName obs)))
    \<and> settings m' = settings m \<and> (n \<noteq> obsName obs \<longrightarrow> stateOf m' n = stateOf m n)
    \<and> (gauge_ok m \<longrightarrow> gauge_ok m') \<and> (all_settled m \<longrightarrow> all_settled m')"
proof -
  define m0 where "m0 = setState (obsName obs) (stateOf m (obsName obs)) m"
  have m0: "settings m0 = settings m" "phaseOf m0 = phaseOf m" "\<And>k. stateOf m0 k = stateOf m k"
    "gauge_ok m \<Longrightarrow> gauge_ok m0" "all_settled m \<Longrightarrow> all_settled m0"
    by (auto simp: m0_def phaseOf_def fun_eq_iff intro!: gauge_same settled_setState)
  let ?s = "stateOf m (obsName obs)"
  consider (active) "Active ?s" "activeStep write token obs now m0 = (e, m')"
    | (quiet) "\<not> Active ?s" "inactiveStep write token obs now m0 = (e, m')"
    using run unfolding reprocessApplyObservation_def Let_def m0_def [symmetric] by (auto split: if_splits)
  then show ?thesis
  proof cases
    case active
    with m0 activeStep_phase [OF active(2)] activeStep_frame [OF active(2)] activeStep_gauge [OF active(2)]
      activeStep_settled [OF active(2)] show ?thesis by simp
  next
    case quiet
    with m0 inactiveStep_phase [OF quiet(2)] inactiveStep_frame [OF quiet(2)] inactiveStep_gauge [OF quiet(2)]
      inactiveStep_settled [OF quiet(2)] show ?thesis by simp
  qed
qed

interpretation collector_machine: hysteresis_machine "applyObservation write token"
  by unfold_locales (use applyObservation_contract in blast)+

interpretation reprocess_machine: hysteresis_machine "reprocessApplyObservation write token"
  by unfold_locales (use reprocess_contract in blast)+

end
