(* ===== verification/AlertGuarantees.thy ===== *)
theory AlertGuarantees
  imports AlertMachine
begin

text \<open>
  What the alert managers guarantee over whole runs: the gauge and the delivery marks stay right
  across evaluations, failures and restarts; an alert opens and closes exactly on the configured
  number of consecutive windows; a record is on disk before it is emitted; and where the code loses a
  CLEARED record.
\<close>

section \<open>Rounds and restarts\<close>

text \<open>
  A run of the manager is a sequence of evaluations and restarts.  A restart is
  \<open>loadStates\<close> on an empty manager and, in the collector, the reconciliation of \<open>Start\<close>
  over the names in the order the map yields them.  A process killed in the middle of an evaluation is
  one whose remaining calls fail.
\<close>

datatype manager_event = Evaluate "alertObservation list" int | Restart "string list"

fun collectorEvent :: "writer \<Rightarrow> (string \<Rightarrow> string) \<Rightarrow> alertManager \<Rightarrow> manager_event \<Rightarrow> alertManager" where
  "collectorEvent write token m (Evaluate obs now) = evaluateAll (applyObservation write token) obs now m"
| "collectorEvent write token m (Restart order) =
     (case loadStates (m\<lparr>states := [], activeAlerts := 0\<rparr>) of
        (None, m) \<Rightarrow> startAlerts write token order m
      | (Some _, m) \<Rightarrow> m)"

fun reprocessEvent :: "writer \<Rightarrow> (string \<Rightarrow> string) \<Rightarrow> alertManager \<Rightarrow> manager_event \<Rightarrow> alertManager" where
  "reprocessEvent write token m (Evaluate obs now) = evaluateAll (reprocessApplyObservation write token) obs now m"
| "reprocessEvent write token m (Restart order) = snd (loadStates (m\<lparr>states := [], activeAlerts := 0\<rparr>))"

definition file_ok :: "alertManager \<Rightarrow> bool" where
  "file_ok m = (\<forall>ss. stateFile m = Some (Whole (StatesFile ss)) \<longrightarrow>
      distinct (map fst ss) \<and> (\<forall>s \<in> snd ` set ss. settled s (emittedRecords m)))"

definition manager_ok :: "alertManager \<Rightarrow> bool" where
  "manager_ok m = (good_settings (settings m) \<and> gauge_ok m \<and> all_settled m \<and> file_ok m)"

lemma states_settled:
  assumes "gauge_ok m" "all_settled m" "s \<in> snd ` set (states m)"
  shows "settled s (emittedRecords m)"
proof -
  from assms(3) obtain n where "(n, s) \<in> set (states m)" by force
  with assms(1) have "stateOf m n = s" by (simp add: gauge_ok_def stateOf_def)
  with assms(2) show ?thesis by (auto simp: all_settled_def)
qed

lemma file_ok_mono:
  assumes "file_ok m" "stateFile m' = stateFile m" "emittedRecords m \<subseteq> emittedRecords m'"
  shows "file_ok m'"
  using assms by (auto simp: file_ok_def intro: settled_mono)

lemma file_ok_stored:
  assumes "gauge_ok m" "all_settled m" "stateFile m' = Some (Whole (StatesFile (states m)))"
    "emittedRecords m \<subseteq> emittedRecords m'"
  shows "file_ok m'"
  using assms states_settled [OF assms(1,2)] by (auto simp: file_ok_def gauge_ok_def intro: settled_mono)

lemma stateFile_counters [simp]:
  "stateFile (m\<lparr>activeAlerts := a, alertsOpened := b\<rparr>) = stateFile m"
  "stateFile (m\<lparr>activeAlerts := a, alertsCleared := b\<rparr>) = stateFile m"
  "stateFile (m\<lparr>randoms := r\<rparr>) = stateFile m"
  by (simp_all add: stateFile_def)

lemma file_ok_simps [simp]:
  "file_ok (m\<lparr>activeAlerts := a, alertsOpened := b\<rparr>) = file_ok m"
  "file_ok (m\<lparr>activeAlerts := a, alertsCleared := b\<rparr>) = file_ok m"
  "file_ok (m\<lparr>randoms := r\<rparr>) = file_ok m"
  "file_ok (setState n s m) = file_ok m"
  by (simp_all add: file_ok_def)

context alert_writer
begin

lemma persist_file_ok:
  assumes "persistStates write_file m = (ok, m')" "manager_ok m"
  shows "file_ok m'"
proof (cases ok)
  case True
  with assms persist_stateFile [OF assms(1)] persist_frame [OF assms(1)] show ?thesis
    by (intro file_ok_stored [of m m']) (simp_all add: manager_ok_def)
next
  case False
  with assms persist_stateFile [OF assms(1)] persist_frame [OF assms(1)] show ?thesis
    by (intro file_ok_mono [of m m']) (simp_all add: manager_ok_def)
qed

lemma persist_manager_ok:
  assumes "persistStates write_file m = (ok, m')" "manager_ok m"
  shows "manager_ok m'"
proof -
  note f = persist_frame [OF assms(1)]
  have "stateOf m' = stateOf m" using f(2) by (rule stateOf_cong)
  with f assms persist_file_ok [OF assms] show ?thesis
    by (simp add: manager_ok_def all_settled_def gauge_ok_def)
qed

lemma emit_manager_ok:
  assumes "emit write_file token r m = (ok, m')" "manager_ok m"
  shows "manager_ok m'"
proof -
  note f = emit_frame [OF assms(1)]
  have more: "emittedRecords m \<subseteq> emittedRecords m'" using f(4) by auto
  have "stateOf m' = stateOf m" using f(2) by (rule stateOf_cong)
  moreover have "file_ok m'" using assms more emit_stateFile [OF assms(1)]
    by (intro file_ok_mono [of m m']) (simp_all add: manager_ok_def)
  ultimately show ?thesis using f assms(2) more
    by (auto simp: manager_ok_def all_settled_def gauge_ok_def intro: settled_mono)
qed

lemma announce_file_ok:
  assumes "announce write_file token name m = (e, m')" "manager_ok m"
  shows "manager_ok m'"
  using assms(1)
proof (cases rule: announce_cases)
  case (persist m1)
  with assms(2) show ?thesis by (auto intro: persist_manager_ok)
next
  case (emit m1 m2)
  with assms(2) show ?thesis by (auto intro: persist_manager_ok emit_manager_ok)
next
  case (sent ok m1 m2)
  then have ok2: "manager_ok m2" using assms(2) by (auto intro: persist_manager_ok emit_manager_ok)
  note s = emit_frame [OF sent(2)]
  have "stateOf m2 = stateOf m1" using s(2) by (rule stateOf_cong)
  with s ok2 have "manager_ok (setState name ((stateOf m2 name)\<lparr>Dirty := False\<rparr>) m2)"
    by (auto simp: manager_ok_def all_settled_def settled_def intro!: gauge_same)
  with sent(3) show ?thesis by (rule persist_manager_ok)
qed

end

text \<open>Updating one alert in memory keeps the manager right when the gauge follows.\<close>

lemma manager_ok_setState:
  assumes "manager_ok m" "Active s = Active (stateOf m n)"
    and "Dirty s \<or> Record s = Record (stateOf m n) \<and> (Dirty (stateOf m n) \<longrightarrow> Dirty s)"
  shows "manager_ok (setState n s m)"
  using assms by (auto simp: manager_ok_def intro!: gauge_same settled_setState)

lemma manager_ok_open:
  assumes "manager_ok m" "\<not> Active (stateOf m n)" "Active s" "Dirty s"
  shows "manager_ok ((setState n s m)\<lparr>activeAlerts := activeAlerts m + 1, alertsOpened := x\<rparr>)"
  using assms gauge_open [where s = s and x = x and m = m and n = n] settled_setState [of m s n]
  by (simp add: manager_ok_def)

lemma manager_ok_close:
  assumes "manager_ok m" "Active (stateOf m n)" "\<not> Active s" "Dirty s"
  shows "manager_ok ((setState n s m)\<lparr>activeAlerts := activeAlerts m - 1, alertsCleared := x\<rparr>)"
  using assms gauge_close [where s = s and x = x and m = m and n = n] settled_setState [of m s n]
  by (simp add: manager_ok_def)

lemma manager_ok_randoms [simp]: "manager_ok (m\<lparr>randoms := r\<rparr>) = manager_ok m"
  by (simp add: manager_ok_def)

context alert_writer
begin

lemma inactiveStep_ok:
  assumes "inactiveStep write_file token obs now m = (e, m')" "manager_ok m" "\<not> Active (stateOf m (obsName obs))"
  shows "manager_ok m'"
proof -
  obtain random rest where pop: "popOr None (randoms m) = (random, rest)" by fastforce
  let ?m = "m\<lparr>randoms := rest\<rparr>"
  have open_it: "manager_ok ((setState (obsName obs) s ?m)\<lparr>activeAlerts := activeAlerts ?m + 1, alertsOpened := x\<rparr>)"
    if "Active s" "Dirty s" for s x
    using assms(2,3) that by (intro manager_ok_open) simp_all
  from assms(1) show ?thesis
    unfolding inactiveStep_def Let_def pop prod.case
    using assms(2,3) open_it
    by (auto split: if_splits option.splits dest!: announce_file_ok intro!: manager_ok_setState)
qed

lemma activeStep_ok:
  assumes "activeStep write_file token obs now m = (e, m')" "manager_ok m" "Active (stateOf m (obsName obs))"
  shows "manager_ok m'"
  using assms observeActive_dirty [where s = "stateOf m (obsName obs)" and obs = obs]
  unfolding activeStep_def Let_def
  by (auto split: if_splits dest!: announce_file_ok intro!: manager_ok_setState manager_ok_close)

lemma collector_step_ok:
  assumes "applyObservation write_file token obs now m = (e, m')" "manager_ok m"
  shows "manager_ok m'"
proof -
  define m0 where "m0 = setState (obsName obs) (stateOf m (obsName obs)) m"
  let ?s = "stateOf m (obsName obs)"
  let ?m1 = "setState (obsName obs) (?s\<lparr>LastEmitted := now\<rparr>) m0"
  have m0: "stateOf m0 (obsName obs) = ?s" "manager_ok m0"
    using assms(2) by (auto simp: m0_def intro!: manager_ok_setState)
  then have m1: "manager_ok ?m1" by (intro manager_ok_setState) simp_all
  consider (active) "Active ?s" "activeStep write_file token obs now m0 = (e, m')"
    | (quiet) "\<not> Active ?s" "inactiveStep write_file token obs now m0 = (e, m')"
    | (retried) m2 where "\<not> Active ?s" "announce write_file token (obsName obs) ?m1 = (None, m2)"
        "inactiveStep write_file token obs now m2 = (e, m')"
    | (failed) "announce write_file token (obsName obs) ?m1 = (e, m')"
    using assms(1) unfolding applyObservation_def Let_def m0_def [symmetric]
    by (auto split: if_splits prod.splits option.splits)
  then show ?thesis
  proof cases
    case (retried m2)
    have "\<not> Active (stateOf m2 (obsName obs))"
      using announce_result(4) [OF retried(2)] retried(1) by auto
    with retried announce_file_ok [OF retried(2) m1] show ?thesis by (blast intro: inactiveStep_ok)
  qed (use m0 m1 activeStep_ok [of obs now m0] inactiveStep_ok [of obs now m0] announce_file_ok in auto)
qed

lemma reprocess_step_ok:
  assumes "reprocessApplyObservation write_file token obs now m = (e, m')" "manager_ok m"
  shows "manager_ok m'"
proof -
  define m0 where "m0 = setState (obsName obs) (stateOf m (obsName obs)) m"
  have m0: "stateOf m0 (obsName obs) = stateOf m (obsName obs)" "manager_ok m0"
    using assms(2) by (auto simp: m0_def intro!: manager_ok_setState)
  with assms(1) show ?thesis unfolding reprocessApplyObservation_def Let_def m0_def [symmetric]
    by (auto split: if_splits intro: activeStep_ok inactiveStep_ok)
qed

lemma evaluateAll_ok:
  assumes "\<And>obs now m e m'. step obs now m = (e, m') \<Longrightarrow> manager_ok m \<Longrightarrow> manager_ok m'"
  shows "manager_ok m \<Longrightarrow> manager_ok (evaluateAll step obs now m)"
proof (induction obs arbitrary: m)
  case (Cons ob obs)
  obtain e m1 where "step ob now m = (e, m1)" by fastforce
  with Cons assms show ?case by simp
qed simp

lemma reconcile_ok:
  assumes "manager_ok m"
  shows "manager_ok (snd (reconcileDirtyStates write_file token order changed m))"
  using assms
proof (induction order arbitrary: changed m)
  case (Cons n order)
  obtain ok m1 where em: "emit write_file token (Record (stateOf m n)) m = (ok, m1)" by fastforce
  note ok1 = emit_manager_ok [OF em Cons.prems] and fr = emit_frame [OF em]
  have "stateOf m1 = stateOf m" using fr(2) by (rule stateOf_cong)
  with ok1 fr have "ok \<Longrightarrow> manager_ok (setState n ((stateOf m1 n)\<lparr>Dirty := False\<rparr>) m1)"
    by (auto simp: manager_ok_def all_settled_def settled_def intro!: gauge_same)
  with em ok1 Cons show ?case by simp
qed simp

end

text \<open>
  A freshly loaded manager is right because the file it reads is: whatever happened before, the
  last state file that was written was right when it was written.
\<close>

lemma loadStates_ok:
  assumes "loadStates (m\<lparr>states := [], activeAlerts := 0\<rparr>) = (e, m')" "good_settings (settings m)" "file_ok m"
  shows "manager_ok m'"
proof -
  let ?m = "m\<lparr>states := [], activeAlerts := 0\<rparr>"
  have empty: "manager_ok (?m\<lparr>disk := w\<rparr>)" if "fileAt w (statePath (settings m)) = fileAt (disk m) (statePath (settings m))" for w
    using assms(2,3) that
    by (auto simp: manager_ok_def gauge_ok_def all_settled_def settled_def stateOf_def zeroState_def zeroRecord_def
        file_ok_def stateFile_def emittedRecords_def)
  obtain payload w where rd: "readFile (statePath (settings m)) (disk m) = (payload, w)" by fastforce
  then have w: "fileAt w (statePath (settings m)) = fileAt (disk m) (statePath (settings m))"
    and pay: "payload = None \<or> payload = stateFile m"
    using readFile_files [OF rd] by (auto simp: fileAt_def stateFile_def)
  have run: "(if fileAt (disk m) (statePath (settings m)) = None then (None, ?m)
     else case payload of
           None \<Rightarrow> (Some StateReadError, ?m\<lparr>disk := w\<rparr>)
         | Some Torn \<Rightarrow> (Some StateDecodeError, ?m\<lparr>disk := w\<rparr>)
         | Some (Whole (RecordFile _)) \<Rightarrow> (None, m\<lparr>states := [], disk := w, activeAlerts := 0\<rparr>)
         | Some (Whole (StatesFile ss)) \<Rightarrow> (None, ?m\<lparr>disk := w, states := ss, activeAlerts := countActive ss\<rparr>)) = (e, m')"
    using assms(1) by (cases "fileAt (disk m) (statePath (settings m)) = None") (simp_all add: loadStates_def Let_def rd split: option.splits content.splits alert_file.splits)
  have swap: "m\<lparr>states := [], disk := w, activeAlerts := 0\<rparr> = ?m\<lparr>disk := w\<rparr>" by simp
  consider "m' = ?m" | "m' = ?m\<lparr>disk := w\<rparr>"
    | ss where "payload = Some (Whole (StatesFile ss))"
        "m' = ?m\<lparr>disk := w, states := ss, activeAlerts := countActive ss\<rparr>"
    using run unfolding swap by (simp split: if_splits option.splits content.splits alert_file.splits)
  then show ?thesis
  proof cases
    case 1
    with empty [of "disk m"] show ?thesis by simp
  next
    case 2
    with empty [OF w] show ?thesis by simp
  next
    case (3 ss)
    have sf: "stateFile m = Some (Whole (StatesFile ss))" using 3(1) pay by simp
    have ss: "distinct (map fst ss)" "\<forall>s \<in> snd ` set ss. settled s (emittedRecords m)"
      using assms(3) sf unfolding file_ok_def by blast+
    have "settled (stateOf m' n) (emittedRecords m')" for n
    proof (cases "map_of ss n")
      case None
      with 3 show ?thesis by (simp add: stateOf_def settled_def zeroState_def zeroRecord_def)
    next
      case (Some s)
      then have "(n, s) \<in> set ss" by (rule map_of_SomeD)
      then have "s \<in> snd ` set ss" by force
      with ss(2) have "settled s (emittedRecords m)" by blast
      with Some 3 show ?thesis by (simp add: stateOf_def emittedRecords_def)
    qed
    with empty [OF w] ss 3 show ?thesis
      by (auto simp: manager_ok_def gauge_ok_def all_settled_def file_ok_def stateFile_def emittedRecords_def)
  qed
qed

lemma collectorEvent_ok:
  assumes "manager_ok m"
  shows "manager_ok (collectorEvent writeJSONAtomically safeFileToken m ev)"
proof (cases ev)
  case (Evaluate obs now)
  have "manager_ok (evaluateAll (applyObservation writeJSONAtomically safeFileToken) obs now m)"
    by (rule collector_alerts.evaluateAll_ok) (use collector_alerts.collector_step_ok assms in auto)
  with Evaluate show ?thesis by simp
next
  case (Restart order)
  obtain e m1 where load: "loadStates (m\<lparr>states := [], activeAlerts := 0\<rparr>) = (e, m1)" by fastforce
  have m1: "manager_ok m1" using assms by (intro loadStates_ok [OF load]) (simp_all add: manager_ok_def)
  obtain c m2 where rec: "reconcileDirtyStates writeJSONAtomically safeFileToken order False m1 = (c, m2)" by fastforce
  with collector_alerts.reconcile_ok [OF m1, of order False] have m2: "manager_ok m2" by simp
  obtain ok m3 where per: "persistStates writeJSONAtomically m2 = (ok, m3)" by fastforce
  have "manager_ok m3" using per m2 by (rule collector_alerts.persist_manager_ok)
  with m1 m2 show ?thesis by (simp add: Restart load startAlerts_def rec per split: option.split)
qed

lemma reprocessEvent_ok:
  assumes "manager_ok m"
  shows "manager_ok (reprocessEvent writeReprocessAlertFile safeReprocessAlertFileToken m ev)"
proof (cases ev)
  case (Evaluate obs now)
  have "manager_ok (evaluateAll (reprocessApplyObservation writeReprocessAlertFile safeReprocessAlertFileToken) obs now m)"
    by (rule reprocess_alerts.evaluateAll_ok) (use reprocess_alerts.reprocess_step_ok assms in auto)
  with Evaluate show ?thesis by simp
next
  case (Restart order)
  obtain e m1 where load: "loadStates (m\<lparr>states := [], activeAlerts := 0\<rparr>) = (e, m1)" by fastforce
  have "manager_ok m1" using assms by (intro loadStates_ok [OF load]) (simp_all add: manager_ok_def)
  with Restart load show ?thesis by simp
qed

lemma foldl_invariant: "(\<And>m ev. P m \<Longrightarrow> P (f m ev)) \<Longrightarrow> P m \<Longrightarrow> P (foldl f m evs)"
  by (induction evs arbitrary: m) simp_all

text \<open>A manager that has not run yet, on a disk without a state file.\<close>

definition fresh_manager :: "alertManager \<Rightarrow> bool" where
  "fresh_manager m = (good_settings (settings m) \<and> states m = [] \<and> activeAlerts m = 0 \<and> stateFile m = None)"

lemma fresh_ok: "fresh_manager m \<Longrightarrow> manager_ok m"
  by (simp add: fresh_manager_def manager_ok_def gauge_ok_def all_settled_def settled_def stateOf_def
      zeroState_def zeroRecord_def file_ok_def)

text \<open>C21. Over any history of the collector's alert manager (evaluations, failing writes, crashes and
  restarts): the \<open>activeAlerts\<close> gauge is the number of active alerts, and an alert that is not
  marked dirty has had its current record emitted, also when the mark was read back from disk.
  So no opening or closing is ever forgotten while its state is kept.\<close>

theorem collector_alerts_accounted:
  fixes evs :: "manager_event list"
  assumes "fresh_manager m0"
  defines "m \<equiv> foldl (collectorEvent writeJSONAtomically safeFileToken) m0 evs"
  shows "activeAlerts m = countActive (states m)
       \<and> (\<forall>n. Dirty (stateOf m n) \<or> recID (Record (stateOf m n)) = [] \<or> Record (stateOf m n) \<in> emittedRecords m)"
proof -
  have "manager_ok m" unfolding m_def
    by (rule foldl_invariant [where P = manager_ok]) (use collectorEvent_ok fresh_ok [OF assms(1)] in auto)
  then show ?thesis by (simp add: manager_ok_def gauge_ok_def all_settled_def settled_def)
qed

text \<open>C22. The same for the reprocessor's alert manager.\<close>

theorem reprocess_alerts_accounted:
  fixes evs :: "manager_event list"
  assumes "fresh_manager m0"
  defines "m \<equiv> foldl (reprocessEvent writeReprocessAlertFile safeReprocessAlertFileToken) m0 evs"
  shows "activeAlerts m = countActive (states m)
       \<and> (\<forall>n. Dirty (stateOf m n) \<or> recID (Record (stateOf m n)) = [] \<or> Record (stateOf m n) \<in> emittedRecords m)"
proof -
  have "manager_ok m" unfolding m_def
    by (rule foldl_invariant [where P = manager_ok]) (use reprocessEvent_ok fresh_ok [OF assms(1)] in auto)
  then show ?thesis by (simp add: manager_ok_def gauge_ok_def all_settled_def settled_def)
qed

section \<open>An example run\<close>

definition alert_example :: alertManager where
  "alert_example = \<lparr>
     settings = \<lparr>Mode = ''observe'', ServerIP = ''1'', hostname = ''h'', triggerWindows = 2, clearWindows = 1,
       activeUpdate = 60, statePath = (''a'', ''s''), outboxDir = ''o'', badDir = ''b''\<rparr>,
     states = [], activeAlerts = 0, alertsOpened = 0, alertsCleared = 0, alertsDelivered = 0, deliveryErrs = 0,
     outboxPending = 0, logged = [], queued = [],
     disk = \<lparr>files = [], faults = [], suffixes = [], trace = []\<rparr>,
     randoms = [Some (replicate 16 0)], clocks = [], sinkFaults = [], accepted = []\<rparr>"

definition example_observation :: "rat \<Rightarrow> alertObservation" where
  "example_observation pct = \<lparr>obsName = ''X'', obsThreshold = Fin 5, obsClearThreshold = Fin 1, obsIndicator = Fin pct,
     obsNumerator = 0, obsDenominator = 0, obsValid = True\<rparr>"

lemma alert_example_fresh: "fresh_manager alert_example"
  by (simp add: fresh_manager_def alert_example_def good_settings_def isTempName_def stateFile_def fileAt_def
      append_eq_Cons_conv Cons_eq_append_conv)

definition example_events :: "manager_event list" where
  "example_events = [Evaluate [example_observation 7] 1000, Evaluate [example_observation 8] 1010, Restart [''X'']]"

text \<open>The alert opens on the second window and survives the restart.\<close>

theorem collector_alerts_accounted_witness:
  "let m = foldl (collectorEvent writeJSONAtomically safeFileToken) alert_example example_events
   in activeAlerts m = 1 \<and> activeAlerts m = countActive (states m) \<and> Record (stateOf m ''X'') \<in> emittedRecords m"
proof -
  define m where "m = foldl (collectorEvent writeJSONAtomically safeFileToken) alert_example example_events"
  have "activeAlerts m = 1 \<and> \<not> Dirty (stateOf m ''X'') \<and> recID (Record (stateOf m ''X'')) \<noteq> []"
    unfolding m_def by code_simp
  with collector_alerts_accounted [OF alert_example_fresh, of example_events, folded m_def]
  show ?thesis unfolding m_def [symmetric] Let_def by blast
qed

theorem reprocess_alerts_accounted_witness:
  "let m = foldl (reprocessEvent writeReprocessAlertFile safeReprocessAlertFileToken) alert_example example_events
   in activeAlerts m = 1 \<and> activeAlerts m = countActive (states m) \<and> Record (stateOf m ''X'') \<in> emittedRecords m"
proof -
  define m where "m = foldl (reprocessEvent writeReprocessAlertFile safeReprocessAlertFileToken) alert_example example_events"
  have "activeAlerts m = 1 \<and> \<not> Dirty (stateOf m ''X'') \<and> recID (Record (stateOf m ''X'')) \<noteq> []"
    unfolding m_def by code_simp
  with reprocess_alerts_accounted [OF alert_example_fresh, of example_events, folded m_def]
  show ?thesis unfolding m_def [symmetric] Let_def by blast
qed

section \<open>When an alert opens and closes\<close>

fun runObservations :: "(alertObservation \<Rightarrow> int \<Rightarrow> alertManager \<Rightarrow> alert_error option \<times> alertManager)
    \<Rightarrow> (alertObservation \<times> int) list \<Rightarrow> alertManager \<Rightarrow> alert_error option list \<times> alertManager" where
  "runObservations step [] m = ([], m)"
| "runObservations step ((obs, now) # rest) m =
     (let (e, m) = step obs now m; (es, m) = runObservations step rest m in (e # es, m))"

definition trailing :: "('a \<Rightarrow> bool) \<Rightarrow> 'a list \<Rightarrow> nat" where
  "trailing P xs = length (takeWhile P (rev xs))"

text \<open>No \<open>k\<close> consecutive elements satisfy \<open>P\<close>.\<close>

definition interrupted :: "('a \<Rightarrow> bool) \<Rightarrow> nat \<Rightarrow> 'a list \<Rightarrow> bool" where
  "interrupted P k xs = (\<forall>j \<le> length xs. trailing P (take j xs) < k)"

definition breach :: "alertObservation \<Rightarrow> bool" where
  "breach obs = (\<not> f64_less (obsIndicator obs) (obsThreshold obs))"

definition recovered :: "alertObservation \<Rightarrow> bool" where
  "recovered obs = f64_less (obsIndicator obs) (obsClearThreshold obs)"

lemma trailing_simps [simp]: "trailing P [] = 0" "trailing P (xs @ [x]) = (if P x then Suc (trailing P xs) else 0)"
  by (simp_all add: trailing_def)

lemma interrupted_snoc:
  "interrupted P k (xs @ [x]) \<longleftrightarrow> interrupted P k xs \<and> trailing P (xs @ [x]) < k"
proof -
  have "trailing P (take j (xs @ [x])) = (if j \<le> length xs then trailing P (take j xs) else trailing P (xs @ [x]))" for j
    by simp
  then show ?thesis unfolding interrupted_def
    by (metis le_Suc_eq length_append_singleton not_less_eq_eq)
qed

definition hrun :: "alert_settings \<Rightarrow> alertObservation list \<Rightarrow> phase \<Rightarrow> phase" where
  "hrun c os p = foldl (\<lambda>p obs. hstep c obs p) p os"

lemma hrun_snoc: "hrun c (os @ [o1]) p = hstep c o1 (hrun c os p)"
  by (simp add: hrun_def)

lemma hrun_append: "hrun c (xs @ ys) p = hrun c ys (hrun c xs p)"
  by (simp add: hrun_def)

lemma hstep_windows:
  "hstep c obs (Quiet b) = (if \<not> breach obs then Quiet 0 else if b + 1 < triggerWindows c then Quiet (b + 1) else Firing 0)"
  "hstep c obs (Firing k) =
     (if recovered obs then if clearWindows c \<le> k + 1 then Quiet 0 else Firing (k + 1)
      else if clearWindows c \<le> 0 then Quiet 0 else Firing 0)"
  by (simp_all add: breach_def recovered_def Let_def)

declare hstep.simps [simp del]

lemma hrun_quiet:
  assumes "interrupted breach (nat (triggerWindows c)) os"
  shows "hrun c os (Quiet 0) = Quiet (int (trailing breach os))"
  using assms
proof (induction os rule: rev_induct)
  case Nil
  show ?case by (simp add: hrun_def)
next
  case (snoc o1 os)
  then have "hrun c os (Quiet 0) = Quiet (int (trailing breach os))" "trailing breach (os @ [o1]) < nat (triggerWindows c)"
    by (simp_all add: interrupted_snoc del: trailing_simps)
  then show ?case by (auto simp: hrun_snoc hstep_windows)
qed

lemma hrun_firing:
  assumes "interrupted recovered (nat (clearWindows c)) os" "1 \<le> clearWindows c"
  shows "hrun c os (Firing 0) = Firing (int (trailing recovered os))"
  using assms(1)
proof (induction os rule: rev_induct)
  case Nil
  show ?case by (simp add: hrun_def)
next
  case (snoc o1 os)
  then have "hrun c os (Firing 0) = Firing (int (trailing recovered os))" "trailing recovered (os @ [o1]) < nat (clearWindows c)"
    by (simp_all add: interrupted_snoc del: trailing_simps)
  with assms(2) show ?case by (auto simp: hrun_snoc hstep_windows)
qed

lemma hrun_opens:
  assumes "interrupted breach (nat (triggerWindows c)) os" "trailing breach (os @ [o1]) = nat (triggerWindows c)"
    "1 \<le> triggerWindows c"
  shows "hrun c (os @ [o1]) (Quiet 0) = Firing 0"
  using hrun_quiet [OF assms(1)] assms(2,3) by (auto simp: hrun_snoc hstep_windows split: if_splits)

lemma hrun_closes:
  assumes "interrupted recovered (nat (clearWindows c)) os" "trailing recovered (os @ [o1]) = nat (clearWindows c)"
    "1 \<le> clearWindows c"
  shows "hrun c (os @ [o1]) (Firing 0) = Quiet 0"
  using hrun_firing [OF assms(1,3)] assms(2,3) by (auto simp: hrun_snoc hstep_windows split: if_splits)

context hysteresis_machine
begin

lemma run_refines:
  assumes "runObservations step evs m = (es, m')" "set es \<subseteq> {None}"
  shows "phaseOf m' n = hrun (settings m) (filter (\<lambda>obs. obsName obs = n) (map fst evs)) (phaseOf m n)"
  using assms
proof (induction evs arbitrary: m es)
  case Nil
  then show ?case by (simp add: hrun_def)
next
  case (Cons ev evs)
  obtain obs now where ev: "ev = (obs, now)" by fastforce
  obtain e m1 where st: "step obs now m = (e, m1)" by fastforce
  obtain es1 m2 where rest: "runObservations step evs m1 = (es1, m2)" by fastforce
  from Cons.prems ev st rest have "e = None" "set es1 \<subseteq> {None}" "m2 = m'" by auto
  with rest have "runObservations step evs m1 = (es1, m')" by simp
  with Cons.IH \<open>set es1 \<subseteq> {None}\<close> have ih: "phaseOf m' n = hrun (settings m) (filter (\<lambda>obs. obsName obs = n) (map fst evs)) (phaseOf m1 n)"
    using fixed [OF st] by fastforce
  show ?case
  proof (cases "obsName obs = n")
    case True
    with ih refines [of obs now m m1] st \<open>e = None\<close> ev show ?thesis by (simp add: hrun_def)
  next
    case False
    then have "phaseOf m1 n = phaseOf m n" using others [OF st] by (simp add: phaseOf_def)
    with False ih ev show ?thesis by simp
  qed
qed

lemma lifecycle:
  assumes "runObservations step evs m = (es, m')" "set es \<subseteq> {None}" "phaseOf m n = Quiet 0"
    and "1 \<le> triggerWindows (settings m)" "1 \<le> clearWindows (settings m)"
    and "filter (\<lambda>obs. obsName obs = n) (map fst evs) = xs @ o1 # ys"
    and "interrupted breach (nat (triggerWindows (settings m))) xs"
    and "trailing breach (xs @ [o1]) = nat (triggerWindows (settings m))"
    and "interrupted recovered (nat (clearWindows (settings m))) ys"
  shows "phaseOf m' n = Firing (int (trailing recovered ys))"
proof -
  have "phaseOf m' n = hrun (settings m) ((xs @ [o1]) @ ys) (Quiet 0)"
    using run_refines [OF assms(1,2), of n] assms(3,6) by simp
  also have "\<dots> = hrun (settings m) ys (Firing 0)"
    by (simp only: hrun_append [of "settings m" "xs @ [o1]" ys] hrun_opens [OF assms(7,8,4)])
  finally show ?thesis using hrun_firing [OF assms(9,5)] by simp
qed

lemma stays_quiet:
  assumes "runObservations step evs m = (es, m')" "set es \<subseteq> {None}" "phaseOf m n = Quiet 0"
    and "interrupted breach (nat (triggerWindows (settings m))) (filter (\<lambda>obs. obsName obs = n) (map fst evs))"
  shows "phaseOf m' n = Quiet (int (trailing breach (filter (\<lambda>obs. obsName obs = n) (map fst evs))))"
  using run_refines [OF assms(1,2), of n] hrun_quiet [OF assms(4)] assms(3) by simp

end

definition alert_steps :: "(alertObservation \<Rightarrow> int \<Rightarrow> alertManager \<Rightarrow> alert_error option \<times> alertManager) \<Rightarrow> bool" where
  "alert_steps step = (step = applyObservation writeJSONAtomically safeFileToken
     \<or> step = reprocessApplyObservation writeReprocessAlertFile safeReprocessAlertFileToken)"

lemma alert_steps_machine: "alert_steps step \<Longrightarrow> hysteresis_machine step"
  using collector_machine.hysteresis_machine_axioms reprocess_machine.hysteresis_machine_axioms
  by (auto simp: alert_steps_def)

text \<open>While no \<open>TriggerWindows\<close> consecutive observations of an alert reach its threshold the
  alert does not open, and it remembers the length of the current streak; observations of
  other alerts in between do not matter.  Both programs.\<close>

theorem alert_stays_closed:
  assumes "alert_steps step" "runObservations step evs m = (es, m')" "set es \<subseteq> {None}"
    and "\<not> Active (stateOf m n)" "BreachWindows (stateOf m n) = 0"
    and "interrupted breach (nat (triggerWindows (settings m))) (filter (\<lambda>obs. obsName obs = n) (map fst evs))"
  shows "\<not> Active (stateOf m' n)
       \<and> BreachWindows (stateOf m' n) = int (trailing breach (filter (\<lambda>obs. obsName obs = n) (map fst evs)))"
  using hysteresis_machine.stays_quiet [OF alert_steps_machine [OF assms(1)] assms(2,3) _ assms(6)] assms(4,5)
  by (auto simp: phaseOf_def phaseOfState_def split: if_splits)

text \<open>C30. The observation that completes \<open>TriggerWindows\<close> consecutive ones at the threshold opens
  the alert, and it stays open until \<open>ClearWindows\<close> consecutive observations are below
  the clear percentage; the count of those restarts with every other observation.  Both
  programs.\<close>

theorem alert_opens_and_stays_open:
  assumes "alert_steps step" "runObservations step evs m = (es, m')" "set es \<subseteq> {None}"
    and "\<not> Active (stateOf m n)" "BreachWindows (stateOf m n) = 0"
    and "1 \<le> triggerWindows (settings m)" "1 \<le> clearWindows (settings m)"
    and "filter (\<lambda>obs. obsName obs = n) (map fst evs) = xs @ o1 # ys"
    and "interrupted breach (nat (triggerWindows (settings m))) xs"
    and "trailing breach (xs @ [o1]) = nat (triggerWindows (settings m))"
    and "interrupted recovered (nat (clearWindows (settings m))) ys"
  shows "Active (stateOf m' n) \<and> ClearWindows (stateOf m' n) = int (trailing recovered ys)"
  using hysteresis_machine.lifecycle [OF alert_steps_machine [OF assms(1)] assms(2,3) _ assms(6-11)] assms(4,5)
  by (auto simp: phaseOf_def phaseOfState_def split: if_splits)

text \<open>From an open alert with no recovery counted, the observation that completes
  \<open>ClearWindows\<close> consecutive ones below the clear percentage closes it.  Both programs.\<close>

theorem alert_closes:
  assumes "alert_steps step" "runObservations step evs m = (es, m')" "set es \<subseteq> {None}"
    and "Active (stateOf m n)" "ClearWindows (stateOf m n) = 0"
    and "1 \<le> clearWindows (settings m)"
    and "filter (\<lambda>obs. obsName obs = n) (map fst evs) = ys @ [o1]"
    and "interrupted recovered (nat (clearWindows (settings m))) ys"
    and "trailing recovered (ys @ [o1]) = nat (clearWindows (settings m))"
  shows "\<not> Active (stateOf m' n) \<and> BreachWindows (stateOf m' n) = 0"
proof -
  have "phaseOf m n = Firing 0" using assms(4,5) by (simp add: phaseOf_def phaseOfState_def)
  then have "phaseOf m' n = Quiet 0"
    using hysteresis_machine.run_refines [OF alert_steps_machine [OF assms(1)] assms(2,3), of n]
      hrun_closes [OF assms(8,9,6)] assms(7) by simp
  then show ?thesis by (auto simp: phaseOf_def phaseOfState_def split: if_splits)
qed

definition quiet_run :: "(alertObservation \<times> int) list" where
  "quiet_run = [(example_observation 7, 1000), (example_observation 3, 1010), (example_observation 9, 1020)]"

definition open_run :: "(alertObservation \<times> int) list" where
  "open_run = [(example_observation 7, 1000), (example_observation 9, 1010), (example_observation 2, 1020)]"

lemmas example_windows = interrupted_def trailing_def le_Suc_eq breach_def recovered_def example_observation_def alert_example_def

theorem alert_stays_closed_witness:
  "\<exists>m'. snd (runObservations (applyObservation writeJSONAtomically safeFileToken) quiet_run alert_example) = m'
     \<and> \<not> Active (stateOf m' ''X'') \<and> BreachWindows (stateOf m' ''X'') = 1"
proof -
  let ?step = "applyObservation writeJSONAtomically safeFileToken"
  obtain es m' where run: "runObservations ?step quiet_run alert_example = (es, m')" by fastforce
  have "fst (runObservations ?step quiet_run alert_example) = [None, None, None]" by code_simp
  with run have es: "set es \<subseteq> {None}" by simp
  have pre: "alert_steps ?step" "\<not> Active (stateOf alert_example ''X'')" "BreachWindows (stateOf alert_example ''X'') = 0"
    by (simp_all add: alert_steps_def alert_example_def stateOf_def zeroState_def)
  have obs: "filter (\<lambda>obs. obsName obs = ''X'') (map fst quiet_run) = map example_observation [7, 3, 9]"
    by (simp add: quiet_run_def example_observation_def)
  have "trailing breach (map example_observation [7, 3, 9]) = 1"
    "interrupted breach (nat (triggerWindows (settings alert_example))) (map example_observation [7, 3, 9])"
    by (auto simp: example_windows)
  with alert_stays_closed [OF pre(1) run es pre(2,3)] run show ?thesis by (simp add: obs)
qed

theorem alert_opens_and_stays_open_witness:
  "\<exists>m'. snd (runObservations (applyObservation writeJSONAtomically safeFileToken) open_run alert_example) = m'
     \<and> Active (stateOf m' ''X'') \<and> ClearWindows (stateOf m' ''X'') = 0"
proof -
  let ?step = "applyObservation writeJSONAtomically safeFileToken"
  obtain es m' where run: "runObservations ?step open_run alert_example = (es, m')" by fastforce
  have "fst (runObservations ?step open_run alert_example) = [None, None, None]" by code_simp
  with run have es: "set es \<subseteq> {None}" by simp
  have pre: "alert_steps ?step" "\<not> Active (stateOf alert_example ''X'')" "BreachWindows (stateOf alert_example ''X'') = 0"
    "1 \<le> triggerWindows (settings alert_example)" "1 \<le> clearWindows (settings alert_example)"
    by (simp_all add: alert_steps_def alert_example_def stateOf_def zeroState_def)
  have obs: "filter (\<lambda>obs. obsName obs = ''X'') (map fst open_run)
      = [example_observation 7] @ example_observation 9 # [example_observation 2]"
    by (simp add: open_run_def example_observation_def)
  have "interrupted breach (nat (triggerWindows (settings alert_example))) [example_observation 7]"
    "trailing breach ([example_observation 7] @ [example_observation 9]) = nat (triggerWindows (settings alert_example))"
    "interrupted recovered (nat (clearWindows (settings alert_example))) [example_observation 2]"
    "trailing recovered [example_observation 2] = 0"
    by (auto simp: example_windows)
  note w = this
  from alert_opens_and_stays_open [OF pre(1) run es pre(2-5) obs w(1-3)] w(4) run show ?thesis by simp
qed

theorem alert_closes_witness:
  "\<exists>m. Active (stateOf m ''X'')
     \<and> \<not> Active (stateOf (snd (runObservations (applyObservation writeJSONAtomically safeFileToken)
           [(example_observation 0, 2000)] m)) ''X'')"
proof -
  let ?step = "applyObservation writeJSONAtomically safeFileToken"
  define m where "m = snd (runObservations ?step open_run alert_example)"
  obtain es m' where run: "runObservations ?step [(example_observation 0, 2000)] m = (es, m')" by fastforce
  have "fst (runObservations ?step [(example_observation 0, 2000)] m) = [None]"
    "Active (stateOf m ''X'')" "ClearWindows (stateOf m ''X'') = 0" "clearWindows (settings m) = 1"
    unfolding m_def by code_simp+
  note f = this
  from f(1) run have es: "set es \<subseteq> {None}" by simp
  have pre: "alert_steps ?step" "1 \<le> clearWindows (settings m)" by (simp_all add: alert_steps_def f)
  have obs: "filter (\<lambda>obs. obsName obs = ''X'') (map fst [(example_observation 0, 2000)]) = [] @ [example_observation 0]"
    by (simp add: example_observation_def)
  have "interrupted recovered (nat (clearWindows (settings m))) []"
    "trailing recovered ([] @ [example_observation 0]) = nat (clearWindows (settings m))"
    unfolding f(4) by (auto simp: example_windows)
  from alert_closes [OF pre(1) run es f(2,3) pre(2) obs this] f(2) run show ?thesis by (intro exI [of _ m]) simp
qed

end
