(* ===== verification/AlertDelivery.thy ===== *)
theory AlertDelivery
  imports AlertGuarantees
begin

text \<open>
  The order of persisting and emitting, and the two places where the code gives up on the
  CLEARED record of an alert although it is still marked undelivered.
\<close>

section \<open>Persisted first\<close>

context alert_writer
begin

lemma announced_on_disk:
  assumes "announce write_file token name m = (e, m')" "good_settings (settings m)"
    and "map_of (states m) name = Some s" "Record s \<notin> emittedRecords m" "Record s \<in> emittedRecords m'"
  shows "\<exists>ss t. stateFile m' = Some (Whole (StatesFile ss)) \<and> map_of ss name = Some t
           \<and> Record t = Record s \<and> Active t = Active s"
  using assms(1)
proof (cases rule: announce_cases)
  case (persist m1)
  with persist_frame [OF persist(1)] assms show ?thesis by simp
next
  case (emit m1 m2)
  with persist_frame [OF emit(1)] emit_frame [OF emit(2)] assms show ?thesis by simp
next
  case (sent ok m1 m2)
  note p = persist_frame [OF sent(1)] and r = emit_frame [OF sent(2)] and q = persist_frame [OF sent(3)]
  have f1: "stateFile m1 = Some (Whole (StatesFile (states m)))"
    using persist_stateFile [OF sent(1) assms(2)] by simp
  have f2: "stateFile m2 = stateFile m1" using emit_stateFile [OF sent(2)] p assms(2) by simp
  let ?m3 = "setState name ((stateOf m2 name)\<lparr>Dirty := False\<rparr>) m2"
  have st: "stateOf m2 name = s" using p(2) r(2) assms(3) by (simp add: stateOf_def)
  have f3: "stateFile m' = (if ok then Some (Whole (StatesFile (states ?m3))) else stateFile m2)"
    using persist_stateFile [OF sent(3)] p r assms(2) by simp
  show ?thesis
  proof (cases ok)
    case True
    with f3 st show ?thesis by (simp add: setState_def)
  next
    case False
    with f1 f2 f3 assms(3) show ?thesis by simp
  qed
qed

end

text \<open>Whenever an alert's record is newly emitted, whatever else fails, the state file then holds that
  record and whether the alert is active; so after a crash the alert is not opened a second time
  and its closing keeps the same identifier.\<close>

theorem persisted_before_emitted:
  assumes "announce writeJSONAtomically safeFileToken name m = (e, m')" "good_settings (settings m)"
    and "map_of (states m) name = Some s" "Record s \<notin> emittedRecords m" "Record s \<in> emittedRecords m'"
  shows "\<exists>ss t. stateFile m' = Some (Whole (StatesFile ss)) \<and> map_of ss name = Some t
           \<and> Record t = Record s \<and> Active t = Active s"
  using assms by (rule collector_alerts.announced_on_disk)

definition announce_example :: alertManager where
  "announce_example = setState ''X'' (zeroState\<lparr>Active := True, Dirty := True\<rparr>) alert_example"

theorem persisted_before_emitted_witness:
  "\<exists>m' ss t. m' = snd (announce writeJSONAtomically safeFileToken ''X'' announce_example)
     \<and> stateFile m' = Some (Whole (StatesFile ss)) \<and> map_of ss ''X'' = Some t \<and> Active t"
proof -
  obtain e m' where run: "announce writeJSONAtomically safeFileToken ''X'' announce_example = (e, m')" by fastforce
  have good: "good_settings (settings announce_example)"
    using alert_example_fresh by (simp add: announce_example_def fresh_manager_def)
  have pre: "map_of (states announce_example) ''X'' = Some (zeroState\<lparr>Active := True, Dirty := True\<rparr>)"
    "Record (zeroState\<lparr>Active := True, Dirty := True\<rparr>) \<notin> emittedRecords announce_example"
    by (simp_all add: announce_example_def setState_def alert_example_def emittedRecords_def)
  have "Record (zeroState\<lparr>Active := True, Dirty := True\<rparr>)
      \<in> emittedRecords (snd (announce writeJSONAtomically safeFileToken ''X'' announce_example))"
    by code_simp
  with persisted_before_emitted [OF run good pre] run show ?thesis by auto
qed

section \<open>Where a CLEARED record is lost\<close>

text \<open>
  An inactive alert on which the next observation opens a new episode: the record that was
  still marked undelivered is overwritten, and nothing but the new record can be emitted.
\<close>

lemma inactive_breach_overwrites:
  assumes "inactiveStep write token obs now m = (e, m')"
    and "\<not> f64_less (obsIndicator obs) (obsThreshold obs)"
    and "triggerWindows (settings m) \<le> BreachWindows (stateOf m (obsName obs)) + 1"
    and "newAlertID (fst (popOr None (randoms m))) = Some ident"
  shows "Record (stateOf m' (obsName obs)) = openRecord m obs now ident
       \<and> emittedRecords m' \<subseteq> insert (openRecord m obs now ident) (emittedRecords m)"
proof -
  obtain random rest where pop: "popOr None (randoms m) = (random, rest)" by fastforce
  let ?s = "(stateOf m (obsName obs))\<lparr>ClearWindows := 0, Record := openRecord m obs now ident,
      Active := True, BreachWindows := 0, LastEmitted := now, Dirty := True\<rparr>"
  let ?m = "(setState (obsName obs) ?s (m\<lparr>randoms := rest\<rparr>))
      \<lparr>activeAlerts := activeAlerts m + 1, alertsOpened := alertsOpened m + 1\<rparr>"
  have "openRecord (m\<lparr>randoms := rest\<rparr>) obs now ident = openRecord m obs now ident" by (simp add: openRecord_def)
  then have "announce write token (obsName obs) ?m = (e, m')"
    using assms pop by (simp add: inactiveStep_def Let_def)
  from announce_result(4) [OF this] show ?thesis by auto
qed

text \<open>C38. A defect.  When the delivery of a CLEARED record to the outbox failed, the collector keeps it
  marked dirty and retries it once \<open>ActiveUpdateSeconds\<close> have passed; but if a new breach opens
  the alert before that, the record is overwritten by the new episode's, and after that step nothing
  but the new record has been emitted: the CLEARED record is not in the log, not in the outbox and no
  longer in the state, so the first episode is never closed in ClickHouse.\<close>

theorem collector_loses_cleared_record:
  assumes "applyObservation write token obs now m = (e, m')"
    and "\<not> Active (stateOf m (obsName obs))" "Dirty (stateOf m (obsName obs))"
    and "recState (Record (stateOf m (obsName obs))) = alertStateCleared"
    and "Record (stateOf m (obsName obs)) \<notin> emittedRecords m"
    and "now - LastEmitted (stateOf m (obsName obs)) < activeUpdate (settings m)"
    and "\<not> f64_less (obsIndicator obs) (obsThreshold obs)"
    and "triggerWindows (settings m) \<le> BreachWindows (stateOf m (obsName obs)) + 1"
    and "newAlertID (fst (popOr None (randoms m))) = Some ident"
  shows "Record (stateOf m (obsName obs)) \<notin> emittedRecords m'
       \<and> Record (stateOf m' (obsName obs)) \<noteq> Record (stateOf m (obsName obs))
       \<and> recState (Record (stateOf m' (obsName obs))) = alertStateActive"
proof -
  let ?m0 = "setState (obsName obs) (stateOf m (obsName obs)) m"
  have "inactiveStep write token obs now ?m0 = (e, m')"
    using assms(1,2,6) by (simp add: applyObservation_def Let_def)
  from inactive_breach_overwrites [OF this] assms
  have "Record (stateOf m' (obsName obs)) = openRecord ?m0 obs now ident"
    "emittedRecords m' \<subseteq> insert (openRecord ?m0 obs now ident) (emittedRecords m)" by auto
  moreover have "recState (openRecord ?m0 obs now ident) = alertStateActive" by (simp add: openRecord_def)
  moreover have "alertStateActive \<noteq> alertStateCleared" by (simp add: alertStateActive_def alertStateCleared_def)
  ultimately show ?thesis using assms(4,5) by auto
qed

definition undelivered_example :: alertManager where
  "undelivered_example = setState ''X''
     (zeroState\<lparr>Record := zeroRecord\<lparr>recID := ''1'', recName := ''X'', recState := alertStateCleared\<rparr>,
        BreachWindows := 1, LastEmitted := 1000, Dirty := True\<rparr>) alert_example"

theorem collector_loses_cleared_record_witness:
  "\<exists>m'. m' = snd (applyObservation writeJSONAtomically safeFileToken (example_observation 7) 1010 undelivered_example)
     \<and> zeroRecord\<lparr>recID := ''1'', recName := ''X'', recState := alertStateCleared\<rparr> \<notin> emittedRecords m'
     \<and> recState (Record (stateOf m' ''X'')) = alertStateActive"
proof -
  let ?obs = "example_observation 7"
  obtain e m' where run: "applyObservation writeJSONAtomically safeFileToken ?obs 1010 undelivered_example = (e, m')"
    by fastforce
  have nm: "obsName ?obs = ''X''" by (simp add: example_observation_def)
  have st: "stateOf undelivered_example (obsName ?obs) =
      zeroState\<lparr>Record := zeroRecord\<lparr>recID := ''1'', recName := ''X'', recState := alertStateCleared\<rparr>,
        BreachWindows := 1, LastEmitted := 1000, Dirty := True\<rparr>"
    by (simp add: undelivered_example_def nm)
  have ident: "newAlertID (fst (popOr None (randoms undelivered_example))) = Some ''00000000-0000-4000-8000-000000000000''"
    by code_simp
  have "Record (stateOf undelivered_example (obsName ?obs)) \<notin> emittedRecords undelivered_example"
    "triggerWindows (settings undelivered_example) \<le> BreachWindows (stateOf undelivered_example (obsName ?obs)) + 1"
    "1010 - LastEmitted (stateOf undelivered_example (obsName ?obs)) < activeUpdate (settings undelivered_example)"
    "\<not> f64_less (obsIndicator ?obs) (obsThreshold ?obs)"
    unfolding st by (simp_all add: undelivered_example_def alert_example_def emittedRecords_def setState_def example_observation_def)
  from collector_loses_cleared_record [OF run _ _ _ this(1) this(3) this(4) this(2) ident] run
  show ?thesis unfolding st by (simp add: nm zeroState_def)
qed

text \<open>C39. A defect.  The reprocessor has no retry for an inactive alert: an observation of an inactive
  alert emits nothing but, when it opens a new episode, that episode's record.  A CLEARED record whose
  first delivery failed stays marked for delivery and is never emitted, however many evaluations
  follow without a breach.\<close>

theorem reprocess_never_retries_cleared:
  assumes "runObservations (reprocessApplyObservation write token) evs m = (es, m')"
    and "\<forall>(obs, now) \<in> set evs. obsName obs = n \<and> f64_less (obsIndicator obs) (obsThreshold obs)"
    and "\<not> Active (stateOf m n)"
  shows "emittedRecords m' = emittedRecords m \<and> Record (stateOf m' n) = Record (stateOf m n)
       \<and> Dirty (stateOf m' n) = Dirty (stateOf m n) \<and> \<not> Active (stateOf m' n)"
  using assms
proof (induction evs arbitrary: m es)
  case (Cons ev evs)
  obtain obs now where ev: "ev = (obs, now)" by fastforce
  obtain e m1 where st: "reprocessApplyObservation write token obs now m = (e, m1)" by fastforce
  obtain es1 m2 where rest: "runObservations (reprocessApplyObservation write token) evs m1 = (es1, m2)" by fastforce
  have obs: "obsName obs = n" "f64_less (obsIndicator obs) (obsThreshold obs)" using Cons.prems(2) ev by auto
  have m1: "m1 = setState n ((stateOf m n)\<lparr>ClearWindows := 0, BreachWindows := 0\<rparr>) (setState n (stateOf m n) m)"
    using st obs Cons.prems(3) by (simp add: reprocessApplyObservation_def inactiveStep_def Let_def)
  have "m2 = m'" using Cons.prems(1) ev st rest by simp
  with Cons.IH rest Cons.prems m1 show ?case by auto
qed simp

theorem reprocess_never_retries_cleared_witness:
  "\<exists>m'. m' = snd (runObservations (reprocessApplyObservation writeReprocessAlertFile safeReprocessAlertFileToken)
            [(example_observation 0, 10 ^ 9), (example_observation 0, 10 ^ 12)] undelivered_example)
     \<and> emittedRecords m' = {} \<and> Dirty (stateOf m' ''X'')"
proof -
  let ?evs = "[(example_observation 0, 10 ^ 9), (example_observation 0, 10 ^ 12)]"
  obtain es m' where run: "runObservations (reprocessApplyObservation writeReprocessAlertFile safeReprocessAlertFileToken)
      ?evs undelivered_example = (es, m')" by fastforce
  have "\<forall>(obs, now) \<in> set ?evs. obsName obs = ''X'' \<and> f64_less (obsIndicator obs) (obsThreshold obs)"
    by (simp add: example_observation_def)
  moreover have "\<not> Active (stateOf undelivered_example ''X'')" "Dirty (stateOf undelivered_example ''X'')"
    "emittedRecords undelivered_example = {}"
    by (simp_all add: undelivered_example_def zeroState_def) (simp add: alert_example_def emittedRecords_def)
  ultimately show ?thesis using reprocess_never_retries_cleared [OF run] run by auto
qed

end
