(* ===== verification/AlertRules.thy ===== *)
theory AlertRules
  imports AlertDelivery Cohorts Tables
begin

text \<open>
  What the collector's alerts measure (\<open>alerts.go\<close>): the configuration and its validation, the
  retention the tracker is given, and \<open>observations\<close>, which turns two snapshots of the cohort
  tracker into the four alert indicators.  \<open>net.ParseIP\<close> and \<open>url.Parse\<close> are arguments
  (whether an address parses; the scheme and host of a URL).
\<close>

section \<open>Configuration\<close>

record ClickHouseAlertConfig =
  chURL :: string
  chUser :: string
  chPassword :: string
  chTable :: string
  chAutoCreate :: bool
  chConnectTimeoutSeconds :: int
  chOperationTimeoutSeconds :: int
  chRetrySeconds :: int
  chMaxRetrySeconds :: int

record AlertConfig =
  cfgEnabled :: bool
  cfgMode :: string
  cfgServerIP :: string
  cfgStateDir :: string
  cfgEvaluationIntervalSeconds :: int
  cfgWindowSeconds :: int
  cfgSLASeconds :: int
  cfgMinimumPackets :: u64
  cfgMinimumRows :: u64
  cfgTriggerWindows :: int
  cfgClearWindows :: int
  cfgActiveUpdateSeconds :: int
  cfgNoTrafficEnabled :: bool
  cfgUDPThresholdPct :: f64
  cfgUDPClearPct :: f64
  cfgParseThresholdPct :: f64
  cfgParseClearPct :: f64
  cfgInsertThresholdPct :: f64
  cfgInsertClearPct :: f64
  cfgClickHouse :: ClickHouseAlertConfig

datatype alert_config_error =
    BadMode | BadServerIP | EmptyStateDir | BadSeconds | BadMinimums | BadWindows
  | BadThreshold string | BadClear string
  | BadURL | BadTimeouts | BadRetry | BadAlertTable table_error

definition validateClickHouseAlertConfig ::
    "(string \<Rightarrow> (string \<times> string) option) \<Rightarrow> ClickHouseAlertConfig \<Rightarrow> alert_config_error option" where
  "validateClickHouseAlertConfig urlParse c =
     (if (case urlParse (chURL c) of None \<Rightarrow> True
          | Some (scheme, host) \<Rightarrow> host = [] \<or> (scheme \<noteq> ''http'' \<and> scheme \<noteq> ''https''))
      then Some BadURL
      else if chConnectTimeoutSeconds c \<le> 0 \<or> chOperationTimeoutSeconds c \<le> 0 then Some BadTimeouts
      else if chRetrySeconds c \<le> 0 \<or> chMaxRetrySeconds c < chRetrySeconds c then Some BadRetry
      else map_option BadAlertTable (validateClickHouseTableName (chTable c)))"

fun thresholdLoop :: "(string \<times> f64 \<times> f64) list \<Rightarrow> alert_config_error option" where
  "thresholdLoop [] = None"
| "thresholdLoop ((name, threshold, clear) # rest) =
     (if isNaN threshold \<or> isInf threshold \<or> f64_le threshold (Fin 0) \<or> f64_less (Fin 100) threshold
      then Some (BadThreshold name)
      else if isNaN clear \<or> isInf clear \<or> f64_less clear (Fin 0) \<or> f64_le threshold clear
      then Some (BadClear name)
      else thresholdLoop rest)"

definition validateAlertConfig ::
    "(string \<Rightarrow> bool) \<Rightarrow> (string \<Rightarrow> (string \<times> string) option) \<Rightarrow> AlertConfig \<Rightarrow> alert_config_error option" where
  "validateAlertConfig parseIP urlParse c =
     (if \<not> cfgEnabled c then None
      else if cfgMode c \<noteq> alertModeObserve \<and> cfgMode c \<noteq> alertModeClickHouse then Some BadMode
      else if \<not> parseIP (cfgServerIP c) then Some BadServerIP
      else if cfgStateDir c = [] then Some EmptyStateDir
      else if cfgEvaluationIntervalSeconds c \<le> 0 \<or> cfgWindowSeconds c \<le> 0 \<or> cfgSLASeconds c \<le> 0 then Some BadSeconds
      else if cfgMinimumPackets c = 0 \<or> cfgMinimumRows c = 0 then Some BadMinimums
      else if cfgTriggerWindows c \<le> 0 \<or> cfgClearWindows c \<le> 0 \<or> cfgActiveUpdateSeconds c \<le> 0 then Some BadWindows
      else case thresholdLoop [(''UDP'', cfgUDPThresholdPct c, cfgUDPClearPct c),
                               (''parse'', cfgParseThresholdPct c, cfgParseClearPct c),
                               (''insert'', cfgInsertThresholdPct c, cfgInsertClearPct c)] of
             Some e \<Rightarrow> Some e
           | None \<Rightarrow> (if cfgMode c = alertModeClickHouse
                      then validateClickHouseAlertConfig urlParse (cfgClickHouse c) else None))"

definition alertCohortRetention :: "AlertConfig \<Rightarrow> int" where
  "alertCohortRetention c =
     (let retention = cfgWindowSeconds c + cfgSLASeconds c + 120
      in if retention < minimumCohortRetentionSeconds then minimumCohortRetentionSeconds else retention)"

text \<open>
  \<open>newAlertManager\<close>, after the directories exist: the settings of the manager, with
  \<open>filepath.Join\<close> on a clean directory, and the states read from disk.
\<close>

definition joinPath :: "string \<Rightarrow> string \<Rightarrow> string" where
  "joinPath dir name = dir @ ''/'' @ name"

definition alertSettings :: "AlertConfig \<Rightarrow> string \<Rightarrow> alert_settings" where
  "alertSettings c host = \<lparr>Mode = cfgMode c, ServerIP = cfgServerIP c, hostname = host,
     triggerWindows = cfgTriggerWindows c, clearWindows = cfgClearWindows c,
     activeUpdate = cfgActiveUpdateSeconds c * 10 ^ 9,
     statePath = (cfgStateDir c, ''state.json''), outboxDir = joinPath (cfgStateDir c) ''outbox'',
     badDir = joinPath (cfgStateDir c) ''bad''\<rparr>"

section \<open>Observations\<close>

definition alertUDPDropRateName :: string where "alertUDPDropRateName = ''CGN_UDP_DROP_RATE_60S''"
definition alertNoUDPTrafficName :: string where "alertNoUDPTrafficName = ''CGN_NO_UDP_TRAFFIC_60S''"
definition alertParseSLAName :: string where "alertParseSLAName = ''CGN_PARSE_SLA_60S''"
definition alertInsertSLAName :: string where "alertInsertSLAName = ''CGN_INSERT_SLA_60S''"

definition udpWindow :: "AlertConfig \<Rightarrow> int \<Rightarrow> int \<times> int" where
  "udpWindow c nowSecond = (let udpEnd = nowSecond - 1 in (udpEnd - cfgWindowSeconds c + 1, udpEnd))"

definition delayedWindow :: "AlertConfig \<Rightarrow> int \<Rightarrow> int \<times> int" where
  "delayedWindow c nowSecond =
     (let delayedEnd = nowSecond - cfgSLASeconds c - 1 in (delayedEnd - cfgWindowSeconds c + 1, delayedEnd))"

text \<open>The observations of two snapshots.\<close>

definition observationsOf :: "AlertConfig \<Rightarrow> int \<Rightarrow> int \<Rightarrow> counters \<Rightarrow> counters \<Rightarrow> alertObservation list" where
  "observationsOf c startSecond nowSecond udp delayed =
     (let udpStart = fst (udpWindow c nowSecond);
          udpDenominator = udp ReceivedPackets + udp UDPKernelDrops;
          delayedStart = fst (delayedWindow c nowSecond);
          unparsed = saturatingDifference (delayed ReceivedPackets) (delayed ParsedPackets);
          uninserted = saturatingDifference (delayed ExpectedRows) (delayed InsertedRows)
      in (if cfgNoTrafficEnabled c
          then [\<lparr>obsName = alertNoUDPTrafficName, obsThreshold = Fin 100, obsClearThreshold = Fin 1,
                 obsIndicator = (if udp ReceivedPackets = 0 then Fin 100 else Fin 0),
                 obsNumerator = (if udp ReceivedPackets = 0 then 1 else 0), obsDenominator = 1,
                 obsValid = (udpStart \<ge> startSecond)\<rparr>]
          else []) @
         [\<lparr>obsName = alertUDPDropRateName, obsThreshold = cfgUDPThresholdPct c, obsClearThreshold = cfgUDPClearPct c,
           obsIndicator = percentage (udp UDPKernelDrops) udpDenominator,
           obsNumerator = udp UDPKernelDrops, obsDenominator = udpDenominator,
           obsValid = (udpStart \<ge> startSecond \<and> udpDenominator \<ge> cfgMinimumPackets c)\<rparr>,
          \<lparr>obsName = alertParseSLAName, obsThreshold = cfgParseThresholdPct c, obsClearThreshold = cfgParseClearPct c,
           obsIndicator = percentage unparsed (delayed ReceivedPackets),
           obsNumerator = unparsed, obsDenominator = delayed ReceivedPackets,
           obsValid = (delayedStart \<ge> startSecond \<and> delayed ReceivedPackets \<ge> cfgMinimumPackets c)\<rparr>,
          \<lparr>obsName = alertInsertSLAName, obsThreshold = cfgInsertThresholdPct c, obsClearThreshold = cfgInsertClearPct c,
           obsIndicator = percentage uninserted (delayed ExpectedRows),
           obsNumerator = uninserted, obsDenominator = delayed ExpectedRows,
           obsValid = (delayedStart \<ge> startSecond \<and> delayed ExpectedRows \<ge> cfgMinimumRows c)\<rparr>])"

definition observations :: "AlertConfig \<Rightarrow> cohortTracker \<Rightarrow> int \<Rightarrow> int \<Rightarrow> alertObservation list" where
  "observations c tracker startSecond nowSecond =
     observationsOf c startSecond nowSecond
       (let (a, b) = udpWindow c nowSecond in snapshot tracker a b)
       (let (a, b) = delayedWindow c nowSecond in snapshot tracker a b)"

definition evaluate :: "writer \<Rightarrow> (string \<Rightarrow> string) \<Rightarrow> AlertConfig \<Rightarrow> cohortTracker \<Rightarrow> int \<Rightarrow> int \<Rightarrow> alertManager \<Rightarrow> alertManager" where
  "evaluate write token c tracker startSecond now m =
     evaluateAll (applyObservation write token) (observations c tracker startSecond (now div 10 ^ 9)) now m"

section \<open>A validated configuration\<close>

lemma f64_order: "\<not> f64_le x y \<Longrightarrow> \<not> isNaN x \<Longrightarrow> \<not> isNaN y \<Longrightarrow> f64_less y x"
  by (cases x; cases y) (auto simp: isNaN_def)

lemma f64_less_trans_no: "f64_less i c \<Longrightarrow> f64_less c t \<Longrightarrow> f64_less i t"
  by (cases i; cases c; cases t) auto

lemma thresholdLoop_ok:
  assumes "thresholdLoop ts = None" "(name, t, c) \<in> set ts"
  shows "\<exists>x y. t = Fin x \<and> c = Fin y \<and> 0 \<le> y \<and> y < x \<and> x \<le> 100"
  using assms
proof (induction ts rule: thresholdLoop.induct)
  case (2 n t' c' rest)
  then show ?case
    by (cases t'; cases c') (auto simp: isNaN_def isInf_def split: if_splits)
qed simp

text \<open>A configuration that \<open>validate\<close> accepts can be evaluated: no observation of it can be at the
  threshold and below the clear percentage at once, the windows and counts are positive, an alert
  needs data (\<open>MinimumPackets\<close>, \<open>MinimumRows\<close>) to be valid, so no percentage of an empty
  window is ever judged.\<close>

theorem validated_alert_config:
  assumes "validateAlertConfig parseIP urlParse c = None" "cfgEnabled c"
    and "obs \<in> set (observations c tracker startSecond nowSecond)"
  shows "\<not> (breach obs \<and> recovered obs) \<and> (obsValid obs \<longrightarrow> obsDenominator obs \<noteq> 0)
       \<and> 1 \<le> triggerWindows (alertSettings c host) \<and> 1 \<le> clearWindows (alertSettings c host)
       \<and> good_settings (alertSettings c host)"
proof -
  let ?ts = "[(''UDP'', cfgUDPThresholdPct c, cfgUDPClearPct c),
      (''parse'', cfgParseThresholdPct c, cfgParseClearPct c),
      (''insert'', cfgInsertThresholdPct c, cfgInsertClearPct c)]"
  define r where "r = thresholdLoop ?ts"
  have loop: "r = None" and mins: "cfgMinimumPackets c \<noteq> 0" "cfgMinimumRows c \<noteq> 0"
    and wins: "0 < cfgTriggerWindows c" "0 < cfgClearWindows c"
    using assms(1,2) unfolding validateAlertConfig_def r_def [symmetric]
    by (simp_all add: not_le split: if_splits option.splits)
  have pairs: "f64_less clear t" if "(n, t, clear) \<in> set ?ts" for n t clear
    using thresholdLoop_ok [OF loop [unfolded r_def] that] by auto
  have "f64_less (cfgUDPClearPct c) (cfgUDPThresholdPct c)" "f64_less (cfgParseClearPct c) (cfgParseThresholdPct c)"
    "f64_less (cfgInsertClearPct c) (cfgInsertThresholdPct c)"
    by (auto intro: pairs [of "''UDP''"] pairs [of "''parse''"] pairs [of "''insert''"])
  then have sep: "f64_less (obsClearThreshold obs) (obsThreshold obs)"
    using assms(3) by (auto simp: observations_def observationsOf_def Let_def split: if_splits)
  have "obsValid obs \<longrightarrow> obsDenominator obs \<noteq> 0"
    using assms(3) mins by (auto simp: observations_def observationsOf_def Let_def split: if_splits)
  moreover have "\<not> (breach obs \<and> recovered obs)"
    using f64_less_trans_no [OF _ sep] by (auto simp: breach_def recovered_def)
  moreover have "good_settings (alertSettings c host)"
  proof -
    have "\<not> isTempName ''state.json''" using not_isTempName_json [of "''state''"] by (simp add: jsonSuffix_def)
    then show ?thesis by (simp add: good_settings_def alertSettings_def joinPath_def)
  qed
  ultimately show ?thesis using wins by (simp add: alertSettings_def)
qed

definition rules_example :: AlertConfig where
  "rules_example = \<lparr>cfgEnabled = True, cfgMode = ''observe'', cfgServerIP = ''1'', cfgStateDir = ''/a'',
    cfgEvaluationIntervalSeconds = 10, cfgWindowSeconds = 2, cfgSLASeconds = 1, cfgMinimumPackets = 1,
    cfgMinimumRows = 1, cfgTriggerWindows = 1, cfgClearWindows = 3, cfgActiveUpdateSeconds = 60,
    cfgNoTrafficEnabled = True, cfgUDPThresholdPct = Fin (1 / 10), cfgUDPClearPct = Fin (1 / 100),
    cfgParseThresholdPct = Fin 1, cfgParseClearPct = Fin (1 / 10), cfgInsertThresholdPct = Fin 1,
    cfgInsertClearPct = Fin (1 / 10), cfgClickHouse = \<lparr>chURL = [], chUser = [], chPassword = [], chTable = [],
      chAutoCreate = True, chConnectTimeoutSeconds = 5, chOperationTimeoutSeconds = 10, chRetrySeconds = 5,
      chMaxRetrySeconds = 300\<rparr>\<rparr>"

theorem validated_alert_config_witness:
  "let obs = last (observations rules_example (newCohortTracker 1 300) 0 1000)
   in obsName obs = alertInsertSLAName \<and> \<not> (breach obs \<and> recovered obs) \<and> good_settings (alertSettings rules_example ''h'')"
proof -
  define obs where "obs = last (observations rules_example (newCohortTracker 1 300) 0 1000)"
  have ok: "validateAlertConfig (\<lambda>_. True) (\<lambda>_. None) rules_example = None" "cfgEnabled rules_example"
    by (simp_all add: rules_example_def validateAlertConfig_def alertModeObserve_def alertModeClickHouse_def isNaN_def isInf_def)
  have "observations rules_example (newCohortTracker 1 300) 0 1000 \<noteq> []" "obsName obs = alertInsertSLAName"
    by (simp_all add: obs_def observations_def observationsOf_def Let_def)
  then have "obs \<in> set (observations rules_example (newCohortTracker 1 300) 0 1000)" "obsName obs = alertInsertSLAName"
    by (simp_all add: obs_def)
  with validated_alert_config [OF ok this(1), of "''h''"] show ?thesis by (simp add: obs_def [symmetric])
qed

section \<open>The indicators are the counts of the events\<close>

text \<open>The plain count of the events in a window.\<close>

definition eventCount :: "int \<Rightarrow> (int \<times> cohort_event) list \<Rightarrow> int \<times> int \<Rightarrow> counters" where
  "eventCount r calls window f =
     (\<Sum>s\<leftarrow>[fst window..snd window]. \<Sum>ev\<leftarrow>map snd calls. contribution r s f ev)"

lemma window_retained:
  assumes "0 \<le> cfgSLASeconds c"
  shows "nowSecond - alertCohortRetention c < fst (delayedWindow c nowSecond)"
    "nowSecond - alertCohortRetention c < fst (udpWindow c nowSecond)"
    "minimumCohortRetentionSeconds \<le> alertCohortRetention c"
  using assms by (auto simp: alertCohortRetention_def delayedWindow_def udpWindow_def Let_def)

lemma observations_counted:
  assumes "0 \<le> cfgSLASeconds c" "timeline (alertCohortRetention c) nowSecond calls"
  shows "observations c (foldl applyEvent (newCohortTracker n (alertCohortRetention c)) (map snd calls)) startSecond nowSecond
       = observationsOf c startSecond nowSecond
           (eventCount (alertCohortRetention c) calls (udpWindow c nowSecond))
           (eventCount (alertCohortRetention c) calls (delayedWindow c nowSecond))"
proof -
  let ?t0 = "newCohortTracker n (alertCohortRetention c)"
  have r: "retentionSeconds ?t0 = alertCohortRetention c"
    using window_retained(3) [OF assms(1)] by (simp add: retention_new)
  have snap: "snapshot (foldl applyEvent ?t0 (map snd calls)) a b = eventCount (alertCohortRetention c) calls (a, b)"
    if "nowSecond - alertCohortRetention c < a" for a b
    using snapshot_timeline [of ?t0 a b nowSecond calls] that assms(2)
    by (simp add: r wf_newCohortTracker absent_new eventCount_def fun_eq_iff)
  have w: "(case w of (a, b) \<Rightarrow> snapshot (foldl applyEvent ?t0 (map snd calls)) a b) = eventCount (alertCohortRetention c) calls w"
    if "nowSecond - alertCohortRetention c < fst w" for w
    using that snap by (cases w) simp
  show ?thesis unfolding observations_def Let_def w [OF window_retained(1) [OF assms(1)]] w [OF window_retained(2) [OF assms(1)]] ..
qed


definition example_calls :: "(int \<times> cohort_event) list" where
  "example_calls = [(600, Received 600 1), (1000, Received 1000 1), (1000, ParseResult 1000 1 True 8),
     (1001, Inserted [\<lparr>Second = 1000, Rows = 6\<rparr>] 1 1001)]"

definition example_tracker :: cohortTracker where
  "example_tracker = foldl applyEvent (newCohortTracker 4 (alertCohortRetention rules_example)) (map snd example_calls)"

lemma example_retention: "alertCohortRetention rules_example = 300"
  by (simp add: alertCohortRetention_def rules_example_def go_defs)

lemma example_timeline: "0 \<le> cfgSLASeconds rules_example" "timeline (alertCohortRetention rules_example) 1002 example_calls"
  unfolding example_retention example_calls_def
  by (simp_all add: rules_example_def timeline_def retainedCohorts_def)

lemma example_counts:
  "map (\<lambda>obs. (obsNumerator obs, obsDenominator obs)) (observationsOf rules_example 0 1002
      (eventCount (alertCohortRetention rules_example) example_calls (udpWindow rules_example 1002))
      (eventCount (alertCohortRetention rules_example) example_calls (delayedWindow rules_example 1002)))
   = [(0, 1), (0, 1), (0, 1), (2, 8)]"
  unfolding example_retention example_calls_def
  by (simp add: observationsOf_def eventCount_def udpWindow_def delayedWindow_def rules_example_def
      upto_rec1 retainedCohorts_def saturatingDifference_def Let_def)


section \<open>No breach is missed by rounding\<close>

text \<open>With a whole-number threshold and counts up to 90 million millions, an observation whose exact
  share reaches the threshold is a breach: rounding in \<open>percentage\<close> never hides one; here for the
  insert SLA, where the share is that of the rows of the window that are not yet inserted.\<close>

theorem breach_detected:
  assumes "obs \<in> set (observations c tracker startSecond nowSecond)" "obsName obs = alertInsertSLAName"
    and "cfgInsertThresholdPct c = Fin (of_nat k)" "k \<le> 100"
    and "100 * unat (obsDenominator obs) \<le> 2 ^ 53" "unat (obsNumerator obs) \<le> unat (obsDenominator obs)"
    and "obsDenominator obs \<noteq> 0" "k * unat (obsDenominator obs) \<le> 100 * unat (obsNumerator obs)"
  shows "breach obs"
proof -
  have obs: "obsIndicator obs = percentage (obsNumerator obs) (obsDenominator obs)" "obsThreshold obs = Fin (of_nat k)"
    using assms(1,2,3)
    by (auto simp: observations_def observationsOf_def Let_def alertInsertSLAName_def alertNoUDPTrafficName_def
        alertUDPDropRateName_def alertParseSLAName_def split: if_splits)
  have "f64_le (Fin (of_nat k)) (percentage (obsNumerator obs) (obsDenominator obs))"
    using assms(4-8) by (intro percentage_ge) auto
  then have "\<not> f64_less (obsIndicator obs) (obsThreshold obs)"
    unfolding obs by (cases "percentage (obsNumerator obs) (obsDenominator obs)") auto
  then show ?thesis by (simp add: breach_def)
qed

theorem breach_detected_witness:
  "breach (last (observations rules_example example_tracker 0 1002))"
proof -
  define os where "os = observations rules_example example_tracker 0 1002"
  have "map (\<lambda>obs. (obsNumerator obs, obsDenominator obs)) os = [(0, 1), (0, 1), (0, 1), (2, 8)]"
    unfolding os_def example_tracker_def observations_counted [OF example_timeline] by (rule example_counts)
  then have "last (map (\<lambda>obs. (obsNumerator obs, obsDenominator obs)) os) = (2, 8)" "os \<noteq> []" by auto
  then have n: "obsNumerator (last os) = 2" "obsDenominator (last os) = 8" by (simp_all add: last_map)
  have "obsName (last os) = alertInsertSLAName" by (simp add: os_def observations_def observationsOf_def Let_def)
  moreover have "last os \<in> set os" using \<open>os \<noteq> []\<close> by simp
  moreover have "cfgInsertThresholdPct rules_example = Fin (of_nat 1)" by (simp add: rules_example_def)
  ultimately show ?thesis
    using breach_detected [of "last os" rules_example example_tracker 0 1002 1] n by (simp add: os_def)
qed

end
