(* ===== verification/PayloadHash.thy ===== *)
theory PayloadHash
  imports GoStrings
begin

text \<open>
  Distribution of packets over the receiver sockets (\<open>reuseport_hash.go\<close> and
  \<open>buildReusePortCBPF\<close> of \<open>udp_receiver_linux.go\<close>): the configured payload offsets, the
  Go function \<open>reusePortPayloadHash\<close> that mirrors the kernel filter, and the classic-BPF
  program the collector attaches.  The BPF machine is the kernel's, not the program's: it is the
  parameter \<open>step\<close> of the locale \<open>cbpf_machine\<close>, which assumes the documented meaning of the
  eight instructions used.
\<close>

section \<open>Configured offsets\<close>

definition maxUDPPacketSize :: int where "maxUDPPacketSize = 65535"
definition maxReusePortHashOffsets :: nat where "maxReusePortHashOffsets = 8"

declare maxUDPPacketSize_def [go_defs] maxReusePortHashOffsets_def [go_defs]

datatype offsets_error =
    BadOffsetCount | EmptyOffset | InvalidOffset string | OffsetOutOfRange int | DuplicateOffset int

fun offsetsLoop :: "string list \<Rightarrow> int set \<Rightarrow> int list \<Rightarrow> offsets_error + int list" where
  "offsetsLoop [] seen offsets = Inr offsets"
| "offsetsLoop (raw # parts) seen offsets =
     (let part = trimSpace raw
      in if part = [] then Inl EmptyOffset
         else case atoi part of
           Inl _ \<Rightarrow> Inl (InvalidOffset part)
         | Inr offset \<Rightarrow>
             if offset < 0 \<or> offset > maxUDPPacketSize - 4 then Inl (OffsetOutOfRange offset)
             else if offset \<in> seen then Inl (DuplicateOffset offset)
             else offsetsLoop parts (insert offset seen) (offsets @ [offset]))"

definition parseReusePortHashOffsets :: "string \<Rightarrow> offsets_error + int list" where
  "parseReusePortHashOffsets s =
     (let parts = splitOn (CHR '','') s
      in if length parts = 0 \<or> length parts > maxReusePortHashOffsets then Inl BadOffsetCount
         else offsetsLoop parts {} [])"

definition formatReusePortHashOffsets :: "int list \<Rightarrow> string" where
  "formatReusePortHashOffsets offsets = joinWith '','' (map itoa offsets)"

definition validOffsets :: "int list \<Rightarrow> bool" where
  "validOffsets offsets = (offsets \<noteq> [] \<and> length offsets \<le> 8 \<and> distinct offsets
     \<and> (\<forall>k \<in> set offsets. 0 \<le> k \<and> k \<le> 65531))"

lemma offsetsLoop_Inr:
  assumes "offsetsLoop parts seen offsets = Inr result" "seen = set offsets" "distinct offsets"
    "\<forall>k \<in> set offsets. 0 \<le> k \<and> k \<le> 65531"
  shows "distinct result \<and> (\<forall>k \<in> set result. 0 \<le> k \<and> k \<le> 65531)
         \<and> length result = length offsets + length parts"
  using assms
  by (induction parts seen offsets rule: offsetsLoop.induct)
    (auto simp: go_defs Let_def split: if_splits sum.splits)

lemma parseReusePortHashOffsets_valid:
  "parseReusePortHashOffsets s = Inr offsets \<Longrightarrow> validOffsets offsets"
  using offsetsLoop_Inr [of "splitOn (CHR '','') s" "{}" "[]" offsets]
  by (auto simp: parseReusePortHashOffsets_def validOffsets_def go_defs Let_def split: if_splits)

lemma digit_not_space: "isDigitChar c \<Longrightarrow> \<not> isSpaceChar c"
  by (auto simp: isDigitChar_def isSpaceChar_def)

lemma offsetsLoop_format:
  assumes "distinct (done @ todo)" "seen = set done" "\<forall>k \<in> set todo. 0 \<le> k \<and> k \<le> 65531"
  shows "offsetsLoop (map itoa todo) seen done = Inr (done @ todo)"
  using assms
proof (induction todo arbitrary: "done" seen)
  case Nil
  then show ?case by simp
next
  case (Cons k todo)
  have digits: "c \<in> set (itoa k) \<Longrightarrow> isDigitChar c" for c
    using Cons.prems by (auto intro: itoa_nonneg_digits)
  then have "trimSpace (itoa k) = itoa k"
    by (intro trimSpace_no_space digit_not_space)
  moreover have "itoa k \<noteq> []" by (simp add: itoa_def)
  moreover have "atoi (itoa k) = Inr k" using Cons.prems by (intro atoi_itoa) auto
  moreover have "offsetsLoop (map itoa todo) (insert k seen) (done @ [k]) = Inr ((done @ [k]) @ todo)"
    by (rule Cons.IH) (use Cons.prems in auto)
  ultimately show ?case using Cons.prems by (auto simp: go_defs Let_def)
qed

lemma parse_format_offsets:
  assumes "validOffsets offsets"
  shows "parseReusePortHashOffsets (formatReusePortHashOffsets offsets) = Inr offsets"
proof -
  have "splitOn (CHR '','') (formatReusePortHashOffsets offsets) = map itoa offsets"
    unfolding formatReusePortHashOffsets_def
  proof (rule split_join)
    fix w
    assume "w \<in> set (map itoa offsets)"
    then obtain k where "w = itoa k" "0 \<le> k" using assms by (auto simp: validOffsets_def)
    moreover have "\<not> isDigitChar (CHR '','')" by (simp add: isDigitChar_def)
    ultimately show "CHR '','' \<notin> set w" using itoa_nonneg_digits by blast
  qed (use assms in \<open>simp add: validOffsets_def\<close>)
  with assms offsetsLoop_format [of "[]" offsets "{}"] show ?thesis
    by (simp add: parseReusePortHashOffsets_def validOffsets_def go_defs Let_def)
qed

text \<open>
  The configured offsets: whatever the parser accepts is between 1
  and 8 distinct offsets that lie inside a UDP payload, and printing such a list and parsing it
  again gives the list back; so the printed offsets in the log name the configuration.
\<close>

theorem reuseport_offsets_roundtrip:
  "((\<exists>s. parseReusePortHashOffsets s = Inr offsets) \<longleftrightarrow> validOffsets offsets) \<and>
   (validOffsets offsets \<longleftrightarrow>
     parseReusePortHashOffsets (formatReusePortHashOffsets offsets) = Inr offsets)"
  using parse_format_offsets parseReusePortHashOffsets_valid by blast+

section \<open>The hash\<close>

definition reusePortHashPrimes :: "u32 list" where
  "reusePortHashPrimes =
     [0x9e3779b1, 0x85ebca6b, 0xc2b2ae35, 0x27d4eb2f, 0x165667b1, 0xd3a2646c, 0xfd7046c5, 0xb55a4f09]"

definition hashPrime :: "nat \<Rightarrow> u32" where
  "hashPrime index = reusePortHashPrimes ! (index mod length reusePortHashPrimes)"

datatype hash_error = BadSocketCount | NoOffsets | OffsetExceedsPacket int nat

fun hashLoop :: "bytes \<Rightarrow> int list \<Rightarrow> nat \<Rightarrow> u32 \<Rightarrow> (hash_error + u32) option" where
  "hashLoop payload [] index hash = Some (Inr hash)"
| "hashLoop payload (offset # offsets) index hash =
     (if offset < 0 \<or> offset + 4 > int (length payload)
      then Some (Inl (OffsetExceedsPacket offset (length payload)))
      else do {
        word \<leftarrow> u32At payload (nat offset);
        let mixed = word * hashPrime index;
        hashLoop payload offsets (index + 1) (if index = 0 then mixed else hash XOR mixed)
      })"

text \<open>A modulus that truncates to zero would panic; \<open>None\<close>.\<close>

definition reusePortPayloadHash :: "bytes \<Rightarrow> int list \<Rightarrow> int \<Rightarrow> (hash_error + int) option" where
  "reusePortPayloadHash payload offsets socketCount =
     (if socketCount \<le> 0 then Some (Inl BadSocketCount)
      else if length offsets = 0 then Some (Inl NoOffsets)
      else do {
        r \<leftarrow> hashLoop payload offsets 0 0;
        (case r of
           Inl err \<Rightarrow> Some (Inl err)
         | Inr hash \<Rightarrow>
             let folded = hash XOR drop_bit 16 hash; n = (word_of_int socketCount :: u32)
             in if n = 0 then None else Some (Inr (uint (folded mod n))))
      })"

section \<open>The BPF program\<close>

record sock_filter =
  Code :: u16
  K :: u32

definition bpfLoadWordAbsolute :: u16 where "bpfLoadWordAbsolute = 0x20"
definition bpfStoreA :: u16 where "bpfStoreA = 0x02"
definition bpfLoadXMemory :: u16 where "bpfLoadXMemory = 0x61"
definition bpfMultiplyK :: u16 where "bpfMultiplyK = 0x24"
definition bpfRightShiftK :: u16 where "bpfRightShiftK = 0x74"
definition bpfXorX :: u16 where "bpfXorX = 0xac"
definition bpfModuloK :: u16 where "bpfModuloK = 0x94"
definition bpfReturnA :: u16 where "bpfReturnA = 0x16"

lemmas bpf_codes = bpfLoadWordAbsolute_def bpfStoreA_def bpfLoadXMemory_def bpfMultiplyK_def
  bpfRightShiftK_def bpfXorX_def bpfModuloK_def bpfReturnA_def

datatype cbpf_error = TooFewSockets | NoHashOffset | OffsetOutsidePayload int

definition ins :: "u16 \<Rightarrow> u32 \<Rightarrow> sock_filter" where
  "ins code k = \<lparr>Code = code, K = k\<rparr>"

definition hashSegment :: "nat \<Rightarrow> int \<Rightarrow> sock_filter list" where
  "hashSegment index offset =
     [ins bpfLoadWordAbsolute (word_of_int offset), ins bpfMultiplyK (hashPrime index)]
     @ (if index > 0 then [ins bpfLoadXMemory 0, ins bpfXorX 0] else [])
     @ [ins bpfStoreA 0]"

fun cbpfLoop :: "int list \<Rightarrow> nat \<Rightarrow> sock_filter list \<Rightarrow> cbpf_error + sock_filter list" where
  "cbpfLoop [] index filters = Inr filters"
| "cbpfLoop (offset # offsets) index filters =
     (if offset < 0 \<or> offset > maxUDPPacketSize - 4 then Inl (OffsetOutsidePayload offset)
      else cbpfLoop offsets (index + 1) (filters @ hashSegment index offset))"

definition hashEpilogue :: "int \<Rightarrow> sock_filter list" where
  "hashEpilogue socketCount =
     [ins bpfRightShiftK 16, ins bpfLoadXMemory 0, ins bpfXorX 0,
      ins bpfModuloK (word_of_int socketCount), ins bpfReturnA 0]"

definition buildReusePortCBPF :: "int \<Rightarrow> int list \<Rightarrow> cbpf_error + sock_filter list" where
  "buildReusePortCBPF socketCount hashOffsets =
     (if socketCount \<le> 1 then Inl TooFewSockets
      else if length hashOffsets = 0 then Inl NoHashOffset
      else case cbpfLoop hashOffsets 0 [] of
        Inl err \<Rightarrow> Inl err
      | Inr filters \<Rightarrow> Inr (filters @ hashEpilogue socketCount))"

section \<open>The kernel's machine, as an interface\<close>

record bpf_state =
  regA :: u32
  regX :: u32
  mem :: "nat \<Rightarrow> u32"

datatype bpf_result = Next bpf_state | Return u32

text \<open>Run a program; \<open>None\<close> would be a program that falls off its end.\<close>

fun runBPF :: "(sock_filter \<Rightarrow> bytes \<Rightarrow> bpf_state \<Rightarrow> bpf_result) \<Rightarrow> sock_filter list \<Rightarrow> bytes
    \<Rightarrow> bpf_state \<Rightarrow> u32 option" where
  "runBPF step [] payload st = None"
| "runBPF step (i # is) payload st =
     (case step i payload st of Next st' \<Rightarrow> runBPF step is payload st' | Return v \<Rightarrow> Some v)"

locale cbpf_machine =
  fixes step :: "sock_filter \<Rightarrow> bytes \<Rightarrow> bpf_state \<Rightarrow> bpf_result"
  assumes load_in: "unat k + 4 \<le> length payload \<Longrightarrow>
      step (ins 0x20 k) payload st = Next (st\<lparr>regA := word32 payload (unat k)\<rparr>)"
    and load_out: "length payload < unat k + 4 \<Longrightarrow> step (ins 0x20 k) payload st = Return 0"
    and store: "step (ins 0x02 k) payload st = Next (st\<lparr>mem := (mem st)(unat k := regA st)\<rparr>)"
    and load_x: "step (ins 0x61 k) payload st = Next (st\<lparr>regX := mem st (unat k)\<rparr>)"
    and mul: "step (ins 0x24 k) payload st = Next (st\<lparr>regA := regA st * k\<rparr>)"
    and rsh: "step (ins 0x74 k) payload st = Next (st\<lparr>regA := drop_bit (unat k) (regA st)\<rparr>)"
    and xor_x: "step (ins 0xac k) payload st = Next (st\<lparr>regA := regA st XOR regX st\<rparr>)"
    and mod_k: "k \<noteq> 0 \<Longrightarrow> step (ins 0x94 k) payload st = Next (st\<lparr>regA := regA st mod k\<rparr>)"
    and ret_a: "step (ins 0x16 k) payload st = Return (regA st)"
begin

lemmas instr = load_in load_out store load_x mul rsh xor_x mod_k ret_a

lemma run_segment:
  assumes "0 \<le> offset" "offset \<le> 65531"
  shows "runBPF step (hashSegment index offset @ prog) payload st =
     (if offset + 4 > int (length payload) then Some 0
      else (let mixed = word32 payload (nat offset) * hashPrime index;
                h = (if index = 0 then mixed else mixed XOR mem st 0)
            in runBPF step prog payload
                 \<lparr>regA = h, regX = (if index = 0 then regX st else mem st 0), mem = (mem st)(0 := h)\<rparr>))"
proof -
  have off: "unat (word_of_int offset :: u32) = nat offset"
    using assms by (simp add: unat_eq_nat_uint uint_word_of_int take_bit_eq_mod)
  show ?thesis
  proof (cases "offset + 4 > int (length payload)")
    case True
    then have "length payload < nat offset + 4" by linarith
    with True off show ?thesis by (simp add: hashSegment_def bpf_codes load_out)
  next
    case False
    with assms have "nat offset + 4 \<le> length payload" by linarith
    with False off show ?thesis by (cases st) (simp add: hashSegment_def bpf_codes instr Let_def)
  qed
qed

lemma run_epilogue:
  assumes "mem st 0 = regA st" "(word_of_int n :: u32) \<noteq> 0"
  shows "runBPF step (hashEpilogue n) payload st
         = Some ((regA st XOR drop_bit 16 (regA st)) mod word_of_int n)"
  using assms by (simp add: hashEpilogue_def bpf_codes instr xor.commute)

text \<open>The loop of the filter computes the loop of the Go function.\<close>

lemma run_segments:
  assumes "\<forall>k \<in> set offsets. 0 \<le> k \<and> k \<le> 65531" "(word_of_int n :: u32) \<noteq> 0"
    and "index = 0 \<longrightarrow> offsets \<noteq> []" "0 < index \<longrightarrow> regA st = hash \<and> mem st 0 = hash"
  shows "runBPF step (concat (map (\<lambda>(i, k). hashSegment i k) (enumerate index offsets)) @ hashEpilogue n) payload st =
     (case hashLoop payload offsets index hash of
        Some (Inr h) \<Rightarrow> Some ((h XOR drop_bit 16 h) mod word_of_int n)
      | Some (Inl _) \<Rightarrow> Some 0
      | None \<Rightarrow> None)"
  using assms(1,3,4)
proof (induction offsets arbitrary: index hash st)
  case Nil
  then have "regA st = hash" "mem st 0 = hash" by auto
  with assms(2) run_epilogue [of st n payload] show ?case by simp
next
  case (Cons k offsets)
  let ?mixed = "word32 payload (nat k) * hashPrime index"
  let ?h = "if index = 0 then ?mixed else ?mixed XOR mem st 0"
  have k: "0 \<le> k" "k \<le> 65531" using Cons.prems by auto
  show ?case
  proof (cases "k + 4 > int (length payload)")
    case True
    with run_segment [OF k] show ?thesis by simp
  next
    case False
    with k have in_range: "nat k + 4 \<le> length payload" by linarith
    have hash: "?h = (if index = 0 then ?mixed else hash XOR ?mixed)"
      using Cons.prems by (auto simp: xor.commute)
    have "runBPF step (concat (map (\<lambda>(i, k). hashSegment i k) (enumerate (Suc index) offsets)) @ hashEpilogue n) payload
           \<lparr>regA = ?h, regX = (if index = 0 then regX st else mem st 0), mem = (mem st)(0 := ?h)\<rparr>
         = (case hashLoop payload offsets (Suc index) ?h of
              Some (Inr h) \<Rightarrow> Some ((h XOR drop_bit 16 h) mod word_of_int n)
            | Some (Inl _) \<Rightarrow> Some 0 | None \<Rightarrow> None)"
      by (rule Cons.IH) (use Cons.prems in auto)
    with False k in_range run_segment [OF k, of index _ payload st] show ?thesis
      by (simp add: u32At_in_range Let_def flip: hash)
  qed
qed

end

section \<open>The attached filter selects the hashed socket\<close>

lemma cbpfLoop_Inr:
  assumes "\<forall>k \<in> set offsets. 0 \<le> k \<and> k \<le> 65531"
  shows "cbpfLoop offsets index filters
         = Inr (filters @ concat (map (\<lambda>(i, k). hashSegment i k) (enumerate index offsets)))"
  using assms by (induction offsets arbitrary: index filters) (auto simp: go_defs)

lemma buildReusePortCBPF_valid:
  assumes "validOffsets offsets" "1 < n"
  shows "buildReusePortCBPF n offsets
         = Inr (concat (map (\<lambda>(i, k). hashSegment i k) (enumerate 0 offsets)) @ hashEpilogue n)"
  using assms cbpfLoop_Inr [of offsets 0 "[]"] by (simp add: buildReusePortCBPF_def validOffsets_def)

lemma hashLoop_no_panic:
  "hashLoop payload offsets index hash \<noteq> None"
proof (induction payload offsets index hash rule: hashLoop.induct)
  case (2 payload offset offsets index hash)
  show ?case
  proof (cases "offset < 0 \<or> offset + 4 > int (length payload)")
    case False
    then have "nat offset + 4 \<le> length payload" by linarith
    with False 2 show ?thesis by (simp add: u32At_in_range Let_def)
  qed simp
qed simp

lemma hashLoop_error:
  "hashLoop payload offsets index hash = Some (Inl e) \<Longrightarrow>
     \<exists>k \<in> set offsets. e = OffsetExceedsPacket k (length payload)
        \<and> (k < 0 \<or> k + 4 > int (length payload))"
proof (induction payload offsets index hash rule: hashLoop.induct)
  case (2 payload offset offsets index hash)
  show ?case
  proof (cases "offset < 0 \<or> offset + 4 > int (length payload)")
    case False
    then have "nat offset + 4 \<le> length payload" by linarith
    with False 2 show ?thesis by (auto simp: u32At_in_range Let_def)
  qed (use "2.prems" in auto)
qed simp

lemma socketCount_nonzero: "1 < n \<Longrightarrow> n < 2 ^ 32 \<Longrightarrow> (word_of_int n :: u32) \<noteq> 0"
  by (simp add: word_of_int_eq_0_iff zdvd_not_zless)

text \<open>
  C26. The filter the collector attaches and the Go function that mirrors
  it agree: on any machine with the documented instruction meanings, from any initial registers,
  the program built for validated offsets and at least two sockets ends, and returns the socket
  index that \<open>reusePortPayloadHash\<close> computes, which is below the number of sockets; where the
  Go function reports an offset outside the packet, the filter selects socket 0.
\<close>

theorem cbpf_selects_hashed_socket:
  assumes "cbpf_machine step" "validOffsets offsets" "1 < n" "n < 2 ^ 32"
  shows "\<exists>prog. buildReusePortCBPF n offsets = Inr prog
     \<and> (case reusePortPayloadHash payload offsets n of
          Some (Inr socket) \<Rightarrow> 0 \<le> socket \<and> socket < n
            \<and> runBPF step prog payload st = Some (word_of_int socket)
        | Some (Inl e) \<Rightarrow> (\<exists>k \<in> set offsets. e = OffsetExceedsPacket k (length payload)
                              \<and> k + 4 > int (length payload))
            \<and> runBPF step prog payload st = Some 0
        | None \<Rightarrow> False)"
proof -
  define prog where
    "prog = concat (map (\<lambda>(i, k). hashSegment i k) (enumerate 0 offsets)) @ hashEpilogue n"
  have built: "buildReusePortCBPF n offsets = Inr prog"
    using assms by (simp add: buildReusePortCBPF_valid prog_def)
  note nz = socketCount_nonzero [OF assms(3,4)]
  have offs: "\<forall>k \<in> set offsets. 0 \<le> k \<and> k \<le> 65531" "offsets \<noteq> []"
    using assms(2) by (auto simp: validOffsets_def)
  have run: "runBPF step prog payload st =
     (case hashLoop payload offsets 0 0 of
        Some (Inr h) \<Rightarrow> Some ((h XOR drop_bit 16 h) mod word_of_int n)
      | Some (Inl _) \<Rightarrow> Some 0
      | None \<Rightarrow> None)"
    unfolding prog_def by (rule cbpf_machine.run_segments [OF assms(1) offs(1) nz]) (use offs in auto)
  have "uint (h mod (word_of_int n :: u32)) < n" for h
    using assms(3,4) by (simp add: uint_mod uint_word_of_int take_bit_eq_mod)
  with run built nz offs assms(3) hashLoop_no_panic [of payload offsets 0 0]
    hashLoop_error [of payload offsets 0 0] show ?thesis
    by (fastforce simp: reusePortPayloadHash_def Let_def split: option.splits sum.splits)
qed

text \<open>The documented instructions as a step function: the instance of the interface.\<close>

definition documentedStep :: "sock_filter \<Rightarrow> bytes \<Rightarrow> bpf_state \<Rightarrow> bpf_result" where
  "documentedStep i payload st =
     (if Code i = 0x20 then
        (if unat (K i) + 4 \<le> length payload
         then Next (st\<lparr>regA := word32 payload (unat (K i))\<rparr>) else Return 0)
      else if Code i = 0x02 then Next (st\<lparr>mem := (mem st)(unat (K i) := regA st)\<rparr>)
      else if Code i = 0x61 then Next (st\<lparr>regX := mem st (unat (K i))\<rparr>)
      else if Code i = 0x24 then Next (st\<lparr>regA := regA st * K i\<rparr>)
      else if Code i = 0x74 then Next (st\<lparr>regA := drop_bit (unat (K i)) (regA st)\<rparr>)
      else if Code i = 0xac then Next (st\<lparr>regA := regA st XOR regX st\<rparr>)
      else if Code i = 0x94 then (if K i = 0 then Return 0 else Next (st\<lparr>regA := regA st mod K i\<rparr>))
      else Return (regA st))"

interpretation documented: cbpf_machine documentedStep
  by unfold_locales (simp_all add: documentedStep_def ins_def)

theorem cbpf_selects_hashed_socket_witness:
  "\<exists>prog. buildReusePortCBPF 16 [20, 36] = Inr prog
     \<and> (case reusePortPayloadHash (replicate 42 9) [20, 36] 16 of
          Some (Inr socket) \<Rightarrow> 0 \<le> socket \<and> socket < 16
            \<and> runBPF documentedStep prog (replicate 42 9) \<lparr>regA = 0, regX = 0, mem = (\<lambda>_. 0)\<rparr>
              = Some (word_of_int socket)
        | Some (Inl e) \<Rightarrow> (\<exists>k \<in> set [20, 36]. e = OffsetExceedsPacket k (length (replicate 42 (9 :: u8)))
                              \<and> k + 4 > int (length (replicate 42 (9 :: u8))))
            \<and> runBPF documentedStep prog (replicate 42 9) \<lparr>regA = 0, regX = 0, mem = (\<lambda>_. 0)\<rparr> = Some 0
        | None \<Rightarrow> False)"
  by (rule cbpf_selects_hashed_socket [OF documented.cbpf_machine_axioms])
    (simp_all add: validOffsets_def)

end
