(* ===== verification/CollectorConfig.thy ===== *)
theory CollectorConfig
  imports Env AlertRules PayloadHash
begin

text \<open>
  The collector's configuration (\<open>main.go\<close>: \<open>loadConfig\<close>, \<open>validateConfig\<close>;
  \<open>alerts.go\<close>: \<open>loadAlertConfig\<close>; \<open>clickhouse_alerts.go\<close>: \<open>loadClickHouseAlertConfig\<close>).
  The global variables the two functions fill are the fields of one record.  The environment and
  \<open>runtime.NumCPU()\<close> are arguments.
\<close>

section \<open>The variables\<close>

record collectorConfig =
  listenAddr :: string
  clickhouseURL :: string
  clickhouseUser :: string
  clickhousePass :: string
  clickhouseTable :: string
  dailyTables :: bool
  parseOnly :: bool
  rawSpoolBase :: string
  failedSpoolBase :: string
  rawFormat :: string
  maxPacketsPerFile :: int
  minPacketsPerFile :: int
  rotateSeconds :: int
  forceRotateSeconds :: int
  syncEveryPackets :: int
  rawWriterBufferMB :: int
  rawWriters :: int
  rawChannelSize :: int
  packetWorkers :: int
  packetChannelSize :: int
  eventChannelSize :: int
  insertWorkers :: int
  batchBuilders :: int
  insertBatchRows :: int
  insertBatchBytes :: int
  insertFlushMS :: int
  insertBatchChanSize :: int
  insertMaxRetries :: int
  insertRetryMS :: int
  insertHTTPTimeoutS :: int
  udpReadBufferMB :: int
  udpReceivers :: int
  udpBatchSize :: int
  udpReusePort :: bool
  udpReceiveMode :: string
  udpReusePortHashOffsetsValue :: string
  autoTuneEnabled :: bool
  autoTuneIntervalSeconds :: int
  autoTuneHighWatermarkPct :: int
  autoTuneCriticalWatermarkPct :: int
  autoTuneMaxRawWriters :: int
  autoTuneMaxPacketWorkers :: int
  autoTuneMaxBatchBuilders :: int
  autoTuneMaxInsertWorkers :: int
  liveInsertOverloadPolicy :: string
  liveInsertQueueHighWatermarkPct :: int
  liveInsertSendTimeoutMS :: int
  alertConfig :: AlertConfig

definition rawFormatBinary :: string where "rawFormatBinary = ''binary''"
definition rawFormatJSONL :: string where "rawFormatJSONL = ''jsonl''"
definition udpModeReusePort :: string where "udpModeReusePort = ''reuseport''"
definition udpModeReusePortBPF :: string where "udpModeReusePortBPF = ''reuseport_bpf''"
definition udpModeShared :: string where "udpModeShared = ''shared_socket''"

section \<open>Paths\<close>

text \<open>\<open>filepath.Dir\<close> of a clean path.\<close>

definition pathDir :: "string \<Rightarrow> string" where
  "pathDir s =
     (let up = dropWhile (\<lambda>c. c \<noteq> CHR ''/'') (rev s)
      in if up = [] then ''.''
         else let dir = rev (dropWhile (\<lambda>c. c = CHR ''/'') up) in if dir = [] then ''/'' else dir)"

lemma pathDir_joinPath:
  assumes "CHR ''/'' \<notin> set name" "dir \<noteq> []" "last dir \<noteq> CHR ''/''"
  shows "pathDir (joinPath dir name) = dir"
proof -
  have "dropWhile (\<lambda>c. c \<noteq> CHR ''/'') (rev name @ CHR ''/'' # rev dir) = CHR ''/'' # rev dir"
    using assms(1) by (subst dropWhile_append2) auto
  moreover have "dropWhile (\<lambda>c. c = CHR ''/'') (rev dir) = rev dir"
    using assms(2,3) by (cases dir rule: rev_cases) auto
  ultimately show ?thesis using assms(2) by (simp add: pathDir_def joinPath_def Let_def)
qed

section \<open>Loading\<close>

definition loadClickHouseAlertConfig :: "env \<Rightarrow> string \<Rightarrow> string \<Rightarrow> string \<Rightarrow> ClickHouseAlertConfig" where
  "loadClickHouseAlertConfig env url user pass =
     \<lparr>chURL = url, chUser = user, chPassword = pass,
      chTable = getEnv env ''CLICKHOUSE_ALERT_TABLE'' ''cgnat.collector_alerts'',
      chAutoCreate = getEnvBool env ''CLICKHOUSE_ALERT_AUTO_CREATE'' True,
      chConnectTimeoutSeconds = getEnvInt env ''CLICKHOUSE_ALERT_CONNECT_TIMEOUT_SECONDS'' 5,
      chOperationTimeoutSeconds = getEnvInt env ''CLICKHOUSE_ALERT_OPERATION_TIMEOUT_SECONDS'' 10,
      chRetrySeconds = getEnvInt env ''CLICKHOUSE_ALERT_RETRY_SECONDS'' 5,
      chMaxRetrySeconds = getEnvInt env ''CLICKHOUSE_ALERT_MAX_RETRY_SECONDS'' 300\<rparr>"

text \<open>A decimal constant of the source, as the \<open>float64\<close> the compiler stores.\<close>

definition f64Const :: "rat \<Rightarrow> f64" where "f64Const x = Fin (roundF64 x)"

definition loadAlertConfig :: "env \<Rightarrow> string \<Rightarrow> string \<Rightarrow> string \<Rightarrow> string \<Rightarrow> AlertConfig" where
  "loadAlertConfig env defaultBaseDir url user pass =
     \<lparr>cfgEnabled = getEnvBool env ''ALERTS_ENABLED'' False,
      cfgMode = toLower (getEnv env ''ALERTS_MODE'' alertModeObserve),
      cfgServerIP = getEnv env ''ALERT_SERVER_IP'' [],
      cfgStateDir = getEnv env ''ALERT_STATE_DIR'' (joinPath defaultBaseDir ''alerts''),
      cfgEvaluationIntervalSeconds = getEnvInt env ''ALERT_EVALUATION_INTERVAL_SECONDS'' 10,
      cfgWindowSeconds = getEnvInt env ''ALERT_WINDOW_SECONDS'' 60,
      cfgSLASeconds = getEnvInt env ''ALERT_SLA_SECONDS'' 60,
      cfgMinimumPackets = getEnvUint64 env ''ALERT_MIN_PACKETS'' 1000,
      cfgMinimumRows = getEnvUint64 env ''ALERT_MIN_ROWS'' 1000,
      cfgTriggerWindows = getEnvInt env ''ALERT_TRIGGER_WINDOWS'' 1,
      cfgClearWindows = getEnvInt env ''ALERT_CLEAR_WINDOWS'' 3,
      cfgActiveUpdateSeconds = getEnvInt env ''ALERT_ACTIVE_UPDATE_SECONDS'' 60,
      cfgNoTrafficEnabled = getEnvBool env ''ALERT_NO_TRAFFIC_ENABLED'' True,
      cfgUDPThresholdPct = getEnvFloat env ''ALERT_UDP_DROP_THRESHOLD_PCT'' (f64Const 0.1),
      cfgUDPClearPct = getEnvFloat env ''ALERT_UDP_DROP_CLEAR_PCT'' (f64Const 0.01),
      cfgParseThresholdPct = getEnvFloat env ''ALERT_PARSE_THRESHOLD_PCT'' (f64Const 1),
      cfgParseClearPct = getEnvFloat env ''ALERT_PARSE_CLEAR_PCT'' (f64Const 0.1),
      cfgInsertThresholdPct = getEnvFloat env ''ALERT_INSERT_THRESHOLD_PCT'' (f64Const 1),
      cfgInsertClearPct = getEnvFloat env ''ALERT_INSERT_CLEAR_PCT'' (f64Const 0.1),
      cfgClickHouse = loadClickHouseAlertConfig env url user pass\<rparr>"

definition atLeast :: "int \<Rightarrow> int \<Rightarrow> int" where
  "atLeast minimum value = (if value < minimum then minimum else value)"

definition loadConfig :: "int \<Rightarrow> env \<Rightarrow> collectorConfig" where
  "loadConfig numCPU env =
     (let clickhouseURL = getEnv env ''CLICKHOUSE_URL'' ''http://127.0.0.1:8123'';
          clickhouseUser = getEnv env ''CLICKHOUSE_USER'' ''admin'';
          clickhousePass = getEnv env ''CLICKHOUSE_PASS'' [];
          rawSpoolBase = getEnv env ''RAW_SPOOL_BASE'' ''/index2/huawei-cgn-go/raw'';
          failedSpoolBase = getEnv env ''FAILED_SPOOL_BASE'' (joinPath rawSpoolBase ''failed'');
          defaultPacketWorkers = atLeast 2 (numCPU - 2);
          packetWorkers = getEnvInt env ''PACKET_WORKERS'' defaultPacketWorkers;
          rawWriters = getEnvInt env ''RAW_WRITERS'' 2;
          insertWorkers = getEnvInt env ''INSERT_WORKERS'' 6;
          batchBuilders = getEnvInt env ''BATCH_BUILDERS'' 2;
          udpReceivers = getEnvInt env ''UDP_RECEIVERS'' 4;
          udpReusePort = getEnvBool env ''UDP_REUSEPORT'' True;
          udpReceiveMode = toLower (getEnv env ''UDP_RECEIVE_MODE'' udpModeReusePortBPF);
          udpReusePort = (if udpReceiveMode = udpModeShared then False
                          else if udpReceiveMode = udpModeReusePortBPF then True else udpReusePort);
          rawWriters = (if trimSpace (osGetenv env ''RAW_WRITERS'') = [] \<and> rawWriters < udpReceivers
                        then udpReceivers else rawWriters)
      in \<lparr>listenAddr = getEnv env ''LISTEN_ADDR'' ''0.0.0.0:9088'',
          clickhouseURL = clickhouseURL, clickhouseUser = clickhouseUser, clickhousePass = clickhousePass,
          clickhouseTable = getEnv env ''CLICKHOUSE_TABLE'' ''cgnat.huawei_cgn_nat_v2'',
          dailyTables = getEnvBool env ''CLICKHOUSE_DAILY_TABLES'' True,
          parseOnly = getEnvBool env ''PARSE_ONLY'' False,
          rawSpoolBase = rawSpoolBase, failedSpoolBase = failedSpoolBase,
          rawFormat = toLower (getEnv env ''RAW_SPOOL_FORMAT'' rawFormatBinary),
          maxPacketsPerFile = getEnvInt env ''MAX_EVENTS_PER_FILE'' 250000,
          minPacketsPerFile = getEnvInt env ''MIN_EVENTS_PER_FILE'' 100000,
          rotateSeconds = getEnvInt env ''ROTATE_SECONDS'' 10,
          forceRotateSeconds = getEnvInt env ''FORCE_ROTATE_SECONDS'' 30,
          syncEveryPackets = getEnvInt env ''SYNC_EVERY_EVENTS'' 250000,
          rawWriterBufferMB = getEnvInt env ''RAW_WRITER_BUFFER_MB'' 8,
          rawWriters = rawWriters,
          rawChannelSize = getEnvInt env ''RAW_CHANNEL_SIZE'' 500000,
          packetWorkers = packetWorkers,
          packetChannelSize = getEnvInt env ''PACKET_CHANNEL_SIZE'' 500000,
          eventChannelSize = getEnvInt env ''EVENT_CHANNEL_SIZE'' 1000000,
          insertWorkers = insertWorkers, batchBuilders = batchBuilders,
          insertBatchRows = getEnvInt env ''INSERT_BATCH_ROWS'' 100000,
          insertBatchBytes = getEnvInt env ''INSERT_BATCH_BYTES'' (16 * 1024 * 1024),
          insertFlushMS = getEnvInt env ''INSERT_FLUSH_MS'' 500,
          insertBatchChanSize = getEnvInt env ''INSERT_BATCH_CHANNEL_SIZE'' 16,
          insertMaxRetries = getEnvInt env ''INSERT_MAX_RETRIES'' 3,
          insertRetryMS = getEnvInt env ''INSERT_RETRY_MS'' 500,
          insertHTTPTimeoutS = getEnvInt env ''INSERT_HTTP_TIMEOUT_SECONDS'' 180,
          udpReadBufferMB = getEnvInt env ''UDP_READ_BUFFER_MB'' 512,
          udpReceivers = udpReceivers,
          udpBatchSize = getEnvInt env ''UDP_BATCH_SIZE'' 64,
          udpReusePort = udpReusePort, udpReceiveMode = udpReceiveMode,
          udpReusePortHashOffsetsValue = getEnv env ''UDP_REUSEPORT_HASH_OFFSETS'' ''20,36'',
          autoTuneEnabled = getEnvBool env ''AUTO_TUNE'' True,
          autoTuneIntervalSeconds = getEnvInt env ''AUTO_TUNE_INTERVAL_SECONDS'' 5,
          autoTuneHighWatermarkPct = getEnvInt env ''AUTO_TUNE_HIGH_WATERMARK_PCT'' 70,
          autoTuneCriticalWatermarkPct = getEnvInt env ''AUTO_TUNE_CRITICAL_WATERMARK_PCT'' 90,
          autoTuneMaxRawWriters = getEnvInt env ''AUTO_TUNE_MAX_RAW_WRITERS'' (atLeast rawWriters (rawWriters * 4)),
          autoTuneMaxPacketWorkers = getEnvInt env ''AUTO_TUNE_MAX_PACKET_WORKERS'' (atLeast packetWorkers (numCPU * 2)),
          autoTuneMaxBatchBuilders = getEnvInt env ''AUTO_TUNE_MAX_BATCH_BUILDERS'' (atLeast batchBuilders (batchBuilders * 4)),
          autoTuneMaxInsertWorkers = getEnvInt env ''AUTO_TUNE_MAX_INSERT_WORKERS'' (atLeast insertWorkers (insertWorkers * 4)),
          liveInsertOverloadPolicy = toLower (getEnv env ''LIVE_INSERT_OVERLOAD_POLICY'' ''raw_only''),
          liveInsertQueueHighWatermarkPct = getEnvInt env ''LIVE_INSERT_QUEUE_HIGH_WATERMARK_PCT'' 95,
          liveInsertSendTimeoutMS = getEnvInt env ''LIVE_INSERT_SEND_TIMEOUT_MS'' 1,
          alertConfig = loadAlertConfig env (pathDir failedSpoolBase) clickhouseURL clickhouseUser clickhousePass\<rparr>)"

section \<open>Validation\<close>

datatype config_error =
    ParseOnlyWithAlerts | NotPositive "string list" | MinAboveMax | NegativeSync | BadTable table_error
  | BadRawFormat | BadReceiveMode | BadHashOffsets offsets_error | TooFewReceivers
  | BadHighWatermark | BadCriticalWatermark | CriticalBelowHigh
  | MaxRawWritersBelow | MaxPacketWorkersBelow | MaxInsertWorkersBelow
  | BadOverloadPolicy | BadQueueWatermark | NegativeSendTimeout

text \<open>
  The map of the values that must be positive.  The loop over it stops at the first bad value in
  the map's random order; the model reports all their names.
\<close>

definition positiveValues :: "collectorConfig \<Rightarrow> (string \<times> int) list" where
  "positiveValues c =
     [(''MAX_EVENTS_PER_FILE'', maxPacketsPerFile c), (''MIN_EVENTS_PER_FILE'', minPacketsPerFile c),
      (''ROTATE_SECONDS'', rotateSeconds c), (''FORCE_ROTATE_SECONDS'', forceRotateSeconds c),
      (''RAW_WRITER_BUFFER_MB'', rawWriterBufferMB c), (''PACKET_WORKERS'', packetWorkers c),
      (''PACKET_CHANNEL_SIZE'', packetChannelSize c), (''RAW_WRITERS'', rawWriters c),
      (''RAW_CHANNEL_SIZE'', rawChannelSize c), (''INSERT_WORKERS'', insertWorkers c),
      (''INSERT_BATCH_ROWS'', insertBatchRows c), (''INSERT_BATCH_BYTES'', insertBatchBytes c),
      (''INSERT_FLUSH_MS'', insertFlushMS c), (''INSERT_BATCH_CHANNEL_SIZE'', insertBatchChanSize c),
      (''INSERT_MAX_RETRIES'', insertMaxRetries c), (''INSERT_RETRY_MS'', insertRetryMS c),
      (''INSERT_HTTP_TIMEOUT_SECONDS'', insertHTTPTimeoutS c), (''UDP_READ_BUFFER_MB'', udpReadBufferMB c),
      (''UDP_RECEIVERS'', udpReceivers c), (''UDP_BATCH_SIZE'', udpBatchSize c),
      (''AUTO_TUNE_INTERVAL_SECONDS'', autoTuneIntervalSeconds c),
      (''AUTO_TUNE_MAX_RAW_WRITERS'', autoTuneMaxRawWriters c),
      (''AUTO_TUNE_MAX_PACKET_WORKERS'', autoTuneMaxPacketWorkers c),
      (''AUTO_TUNE_MAX_INSERT_WORKERS'', autoTuneMaxInsertWorkers c)]"

text \<open>Each \<open>log.Fatal\<close> is an error; the result is the hash offsets the call stores.\<close>

definition validateConfig :: "collectorConfig \<Rightarrow> config_error + int list" where
  "validateConfig c =
     (if parseOnly c \<and> cfgEnabled (alertConfig c) then Inl ParseOnlyWithAlerts
      else if \<exists>(key, value) \<in> set (positiveValues c). value \<le> 0
      then Inl (NotPositive (map fst (filter (\<lambda>(key, value). value \<le> 0) (positiveValues c))))
      else if minPacketsPerFile c > maxPacketsPerFile c then Inl MinAboveMax
      else if syncEveryPackets c < 0 then Inl NegativeSync
      else (case validateClickHouseTableName (clickhouseTable c) of Some e \<Rightarrow> Inl (BadTable e) | None \<Rightarrow>
      if rawFormat c \<noteq> rawFormatBinary \<and> rawFormat c \<noteq> rawFormatJSONL then Inl BadRawFormat
      else if udpReceiveMode c \<noteq> udpModeReusePort \<and> udpReceiveMode c \<noteq> udpModeReusePortBPF
        \<and> udpReceiveMode c \<noteq> udpModeShared then Inl BadReceiveMode
      else (case parseReusePortHashOffsets (udpReusePortHashOffsetsValue c) of Inl e \<Rightarrow> Inl (BadHashOffsets e) | Inr offsets \<Rightarrow>
      if udpReceiveMode c = udpModeReusePortBPF \<and> udpReceivers c < 2 then Inl TooFewReceivers
      else if autoTuneHighWatermarkPct c \<le> 0 \<or> autoTuneHighWatermarkPct c > 100 then Inl BadHighWatermark
      else if autoTuneCriticalWatermarkPct c \<le> 0 \<or> autoTuneCriticalWatermarkPct c > 100 then Inl BadCriticalWatermark
      else if autoTuneCriticalWatermarkPct c < autoTuneHighWatermarkPct c then Inl CriticalBelowHigh
      else if autoTuneMaxRawWriters c < rawWriters c then Inl MaxRawWritersBelow
      else if autoTuneMaxPacketWorkers c < packetWorkers c then Inl MaxPacketWorkersBelow
      else if autoTuneMaxInsertWorkers c < insertWorkers c then Inl MaxInsertWorkersBelow
      else if liveInsertOverloadPolicy c \<noteq> ''block'' \<and> liveInsertOverloadPolicy c \<noteq> ''raw_only'' then Inl BadOverloadPolicy
      else if liveInsertQueueHighWatermarkPct c \<le> 0 \<or> liveInsertQueueHighWatermarkPct c > 100 then Inl BadQueueWatermark
      else if liveInsertSendTimeoutMS c < 0 then Inl NegativeSendTimeout
      else Inr offsets)))"

text \<open>What the other components use of a validated configuration.\<close>

lemma validateConfig_InrD:
  assumes "validateConfig c = Inr offsets"
  shows "\<forall>(key, value) \<in> set (positiveValues c). 0 < value"
    and "validateClickHouseTableName (clickhouseTable c) = None"
    and "0 < autoTuneHighWatermarkPct c" "autoTuneHighWatermarkPct c \<le> autoTuneCriticalWatermarkPct c"
      "autoTuneCriticalWatermarkPct c \<le> 100"
    and "packetWorkers c \<le> autoTuneMaxPacketWorkers c" "insertWorkers c \<le> autoTuneMaxInsertWorkers c"
    and "liveInsertOverloadPolicy c \<in> {''block'', ''raw_only''}"
    and "parseReusePortHashOffsets (udpReusePortHashOffsetsValue c) = Inr offsets"
    and "parseOnly c \<longrightarrow> \<not> cfgEnabled (alertConfig c)"
  using assms unfolding validateConfig_def by (auto simp: not_le split: if_splits option.splits sum.splits)

lemma validated_positive:
  assumes "validateConfig c = Inr offsets"
  shows "0 < packetWorkers c" "0 < insertWorkers c" "0 < insertBatchRows c" "0 < insertBatchBytes c"
    "0 < insertBatchChanSize c" "0 < insertMaxRetries c" "0 < udpReceivers c" "0 < udpBatchSize c"
    "0 < insertRetryMS c" "0 < autoTuneMaxPacketWorkers c" "0 < autoTuneMaxInsertWorkers c"
  using validateConfig_InrD(1) [OF assms] by (simp_all add: positiveValues_def)

end
