(* ===== verification/Tuning.thy ===== *)
theory Tuning
  imports CollectorConfig
begin

text \<open>
  The auto-tuning of the collector (\<open>main.go\<close>: \<open>queueUsagePct\<close>, \<open>scaleStep\<close>,
  \<open>autoTuneSupervisor\<close>) and what it means for the shards of the cohort tracker, which \<open>main\<close>
  sizes from the configured maximum of packet workers.
\<close>

section \<open>Steps\<close>

text \<open>Division of non-negative values; Go truncates towards zero, which is the same here.\<close>

definition queueUsagePct :: "int \<Rightarrow> int \<Rightarrow> int" where
  "queueUsagePct len capacity = (if capacity \<le> 0 then 0 else (len * 100) div capacity)"

definition scaleStep :: "int \<Rightarrow> int \<Rightarrow> bool \<Rightarrow> int" where
  "scaleStep current maximum critical =
     (if current \<ge> maximum then 0
      else let step = current div 2;
               step = (if critical then current else step);
               step = (if step < 1 then 1 else step);
               remaining = maximum - current
           in if step > remaining then remaining else step)"

record workers =
  currentPacketWorkers :: int
  currentInsertWorkers :: int

text \<open>One tick: the usage of both queues in percent, then the two decisions.\<close>

definition autoTuneTick :: "collectorConfig \<Rightarrow> int \<Rightarrow> int \<Rightarrow> workers \<Rightarrow> workers" where
  "autoTuneTick c packetUsage batchUsage w =
     (let w = (if packetUsage \<ge> autoTuneHighWatermarkPct c \<and> batchUsage < autoTuneCriticalWatermarkPct c
               then let step = scaleStep (currentPacketWorkers w) (autoTuneMaxPacketWorkers c)
                                 (packetUsage \<ge> autoTuneCriticalWatermarkPct c)
                    in if step > 0 then w\<lparr>currentPacketWorkers := currentPacketWorkers w + step\<rparr> else w
               else w)
      in if batchUsage \<ge> autoTuneHighWatermarkPct c
         then let step = scaleStep (currentInsertWorkers w) (autoTuneMaxInsertWorkers c)
                           (batchUsage \<ge> autoTuneCriticalWatermarkPct c)
              in if step > 0 then w\<lparr>currentInsertWorkers := currentInsertWorkers w + step\<rparr> else w
         else w)"

text \<open>The supervisor over the queue lengths seen at each tick; disabled, it returns at once.\<close>

definition autoTuneSupervisor :: "collectorConfig \<Rightarrow> (int \<times> int) list \<Rightarrow> workers \<Rightarrow> workers" where
  "autoTuneSupervisor c ticks w =
     (if \<not> autoTuneEnabled c then w
      else fold (\<lambda>(packets, batches). autoTuneTick c (queueUsagePct packets (packetChannelSize c))
                                         (queueUsagePct batches (insertBatchChanSize c))) ticks w)"

definition startedWorkers :: "collectorConfig \<Rightarrow> workers" where
  "startedWorkers c = \<lparr>currentPacketWorkers = packetWorkers c,
     currentInsertWorkers = (if parseOnly c then 0 else insertWorkers c)\<rparr>"

section \<open>Bounds\<close>

lemma scaleStep_bounds: "0 \<le> scaleStep current maximum critical" "current \<le> maximum \<Longrightarrow> current + scaleStep current maximum critical \<le> maximum"
  by (auto simp: scaleStep_def Let_def)

lemma scaleStep_progress: "current < maximum \<Longrightarrow> 0 < scaleStep current maximum critical"
  by (auto simp: scaleStep_def Let_def)

lemma scaleStep_doubles:
  "1 \<le> current \<Longrightarrow> current \<le> maximum \<Longrightarrow> current + scaleStep current maximum True = min maximum (2 * current)"
  by (auto simp: scaleStep_def Let_def)

lemma tick_packet_workers:
  "currentPacketWorkers (autoTuneTick c p b w) =
     currentPacketWorkers w +
       (if p \<ge> autoTuneHighWatermarkPct c \<and> b < autoTuneCriticalWatermarkPct c
        then scaleStep (currentPacketWorkers w) (autoTuneMaxPacketWorkers c) (p \<ge> autoTuneCriticalWatermarkPct c) else 0)"
  using scaleStep_bounds(1) [of "currentPacketWorkers w" "autoTuneMaxPacketWorkers c"]
  by (auto simp: autoTuneTick_def Let_def not_less intro: antisym)

lemma tick_insert_workers:
  "currentInsertWorkers (autoTuneTick c p b w) =
     currentInsertWorkers w +
       (if b \<ge> autoTuneHighWatermarkPct c
        then scaleStep (currentInsertWorkers w) (autoTuneMaxInsertWorkers c) (b \<ge> autoTuneCriticalWatermarkPct c) else 0)"
  using scaleStep_bounds(1) [of "currentInsertWorkers w" "autoTuneMaxInsertWorkers c"]
  by (auto simp: autoTuneTick_def Let_def not_less intro: antisym)

definition within_limits :: "collectorConfig \<Rightarrow> workers \<Rightarrow> bool" where
  "within_limits c w \<longleftrightarrow> packetWorkers c \<le> currentPacketWorkers w \<and> currentPacketWorkers w \<le> autoTuneMaxPacketWorkers c
     \<and> currentInsertWorkers w \<le> autoTuneMaxInsertWorkers c"

lemma tick_within_limits: "within_limits c w \<Longrightarrow> within_limits c (autoTuneTick c p b w)"
  using scaleStep_bounds [of "currentPacketWorkers w" "autoTuneMaxPacketWorkers c"]
    scaleStep_bounds [of "currentInsertWorkers w" "autoTuneMaxInsertWorkers c"]
  unfolding within_limits_def tick_packet_workers tick_insert_workers by (smt (verit))

lemma supervisor_within_limits:
  assumes "within_limits c w"
  shows "within_limits c (autoTuneSupervisor c ticks w)"
proof -
  have "within_limits c (fold (\<lambda>(packets, batches). autoTuneTick c (queueUsagePct packets (packetChannelSize c))
      (queueUsagePct batches (insertBatchChanSize c))) ticks w)"
    using assms by (induction ticks arbitrary: w) (auto simp: tick_within_limits)
  with assms show ?thesis by (simp add: autoTuneSupervisor_def)
qed

section \<open>The default configuration\<close>

text \<open>The two strings among the defaults that are parsed.\<close>

lemma default_table_valid: "validateClickHouseTableName ''cgnat.huawei_cgn_nat_v2'' = None"
  by code_simp

lemma default_offsets: "parseReusePortHashOffsets ''20,36'' = Inr [20, 36]"
  by code_simp

lemma default_lower: "toLower ''reuseport_bpf'' = ''reuseport_bpf''" "toLower ''binary'' = ''binary''"
  "toLower ''raw_only'' = ''raw_only''" "toLower ''observe'' = ''observe''"
  by (simp_all add: toLower_def lowerChar_def)

text \<open>The numbers of the default configuration the witnesses below use.\<close>

lemma default_workers:
  "packetWorkers (loadConfig numCPU emptyEnv) = max 2 (numCPU - 2)" "udpReceivers (loadConfig numCPU emptyEnv) = 4"
  "rawWriters (loadConfig numCPU emptyEnv) = 4" "insertWorkers (loadConfig numCPU emptyEnv) = 6"
  "autoTuneMaxRawWriters (loadConfig numCPU emptyEnv) = 16" "autoTuneMaxInsertWorkers (loadConfig numCPU emptyEnv) = 24"
  "autoTuneMaxPacketWorkers (loadConfig numCPU emptyEnv) = max (max 2 (numCPU - 2)) (numCPU * 2)"
  "packetChannelSize (loadConfig numCPU emptyEnv) = 500000" "insertBatchChanSize (loadConfig numCPU emptyEnv) = 16"
  "autoTuneHighWatermarkPct (loadConfig numCPU emptyEnv) = 70" "autoTuneCriticalWatermarkPct (loadConfig numCPU emptyEnv) = 90"
  "autoTuneEnabled (loadConfig numCPU emptyEnv)"
  by (simp_all add: loadConfig_def Let_def atLeast_def osGetenv_def trimSpace_def trimLeft_def trimRight_def max_def)
    (simp_all add: emptyEnv_def)

lemma default_validates:
  "validateConfig (loadConfig numCPU emptyEnv) = Inr [20, 36]
   \<and> udpReceiveMode (loadConfig numCPU emptyEnv) = udpModeReusePortBPF
   \<and> \<not> cfgEnabled (alertConfig (loadConfig numCPU emptyEnv))
   \<and> packetWorkers (loadConfig numCPU emptyEnv) = max 2 (numCPU - 2)"
proof -
  let ?c = "loadConfig numCPU emptyEnv"
  have paths: "\<not> cfgEnabled (alertConfig ?c)" "clickhouseTable ?c = ''cgnat.huawei_cgn_nat_v2''" "rawFormat ?c = rawFormatBinary"
      "udpReceiveMode ?c = udpModeReusePortBPF" "udpReusePortHashOffsetsValue ?c = ''20,36''"
      "liveInsertOverloadPolicy ?c = ''raw_only''"
    by (simp_all add: loadConfig_def loadAlertConfig_def Let_def default_lower rawFormatBinary_def udpModeReusePortBPF_def)
  note workers = default_workers [of numCPU]
  have numbers: "maxPacketsPerFile ?c = 250000" "minPacketsPerFile ?c = 100000" "rotateSeconds ?c = 10"
      "forceRotateSeconds ?c = 30" "syncEveryPackets ?c = 250000" "rawWriterBufferMB ?c = 8"
      "rawChannelSize ?c = 500000" "insertBatchRows ?c = 100000" "insertBatchBytes ?c = 16777216" "insertFlushMS ?c = 500"
      "insertMaxRetries ?c = 3" "insertRetryMS ?c = 500" "insertHTTPTimeoutS ?c = 180"
      "udpReadBufferMB ?c = 512" "udpBatchSize ?c = 64" "autoTuneIntervalSeconds ?c = 5" "liveInsertQueueHighWatermarkPct ?c = 95" "liveInsertSendTimeoutMS ?c = 1"
    by (simp_all add: loadConfig_def Let_def)
  have "\<forall>(key, value) \<in> set (positiveValues ?c). 0 < value" by (simp add: positiveValues_def workers numbers less_max_iff_disj)
  then have positive: "\<not> (\<exists>(key, value) \<in> set (positiveValues ?c). value \<le> 0)" by fastforce
  have "validateConfig ?c = Inr [20, 36]"
    unfolding validateConfig_def if_not_P [OF positive]
    by (simp add: paths workers numbers default_table_valid default_offsets)
  then show ?thesis by (simp add: paths workers)
qed

text \<open>
  With nothing set in the environment the collector starts on a machine with
  any number of processors: the default configuration passes every check of \<open>validateConfig\<close>,
  selects the BPF mode with the offsets 20 and 36, and leaves alerting off.
\<close>

theorem default_config_valid:
  "validateConfig (loadConfig numCPU emptyEnv) = Inr [20, 36]
   \<and> udpReceiveMode (loadConfig numCPU emptyEnv) = udpModeReusePortBPF
   \<and> \<not> cfgEnabled (alertConfig (loadConfig numCPU emptyEnv))
   \<and> packetWorkers (loadConfig numCPU emptyEnv) = max 2 (numCPU - 2)"
  by (rule default_validates)

section \<open>Saturation\<close>

lemma saturated_run:
  assumes "\<forall>(p, b) \<in> set ticks. queueUsagePct p (packetChannelSize c) \<ge> autoTuneCriticalWatermarkPct c
      \<and> queueUsagePct b (insertBatchChanSize c) < autoTuneCriticalWatermarkPct c"
    and "autoTuneHighWatermarkPct c \<le> autoTuneCriticalWatermarkPct c"
    and "1 \<le> currentPacketWorkers w" "currentPacketWorkers w \<le> autoTuneMaxPacketWorkers c"
  shows "currentPacketWorkers (fold (\<lambda>(packets, batches). autoTuneTick c (queueUsagePct packets (packetChannelSize c))
      (queueUsagePct batches (insertBatchChanSize c))) ticks w)
    = min (autoTuneMaxPacketWorkers c) (2 ^ length ticks * currentPacketWorkers w)"
  using assms
proof (induction ticks arbitrary: w)
  case Nil
  then show ?case by simp
next
  case (Cons tick ticks)
  obtain p b where tick: "tick = (p, b)" by fastforce
  let ?w = "autoTuneTick c (queueUsagePct p (packetChannelSize c)) (queueUsagePct b (insertBatchChanSize c)) w"
  have now: "currentPacketWorkers ?w = min (autoTuneMaxPacketWorkers c) (2 * currentPacketWorkers w)"
    using Cons.prems tick by (simp add: tick_packet_workers scaleStep_doubles)
  with Cons.prems have "1 \<le> currentPacketWorkers ?w" "currentPacketWorkers ?w \<le> autoTuneMaxPacketWorkers c" by auto
  with Cons have "currentPacketWorkers (fold (\<lambda>(packets, batches). autoTuneTick c (queueUsagePct packets (packetChannelSize c))
      (queueUsagePct batches (insertBatchChanSize c))) ticks ?w)
    = min (autoTuneMaxPacketWorkers c) (2 ^ length ticks * currentPacketWorkers ?w)" by simp
  also have "\<dots> = min (autoTuneMaxPacketWorkers c) (2 ^ length (tick # ticks) * currentPacketWorkers w)"
  proof (cases "2 * currentPacketWorkers w \<le> autoTuneMaxPacketWorkers c")
    case True
    then show ?thesis by (simp add: now min_def ac_simps)
  next
    case False
    then have cap: "currentPacketWorkers ?w = autoTuneMaxPacketWorkers c" by (simp add: now)
    have "1 * autoTuneMaxPacketWorkers c \<le> 2 ^ length ticks * autoTuneMaxPacketWorkers c"
      using Cons.prems(3,4) by (intro mult_right_mono) auto
    moreover have "2 ^ length ticks * autoTuneMaxPacketWorkers c \<le> 2 ^ length ticks * (2 * currentPacketWorkers w)"
      using False by (intro mult_left_mono) auto
    ultimately have "autoTuneMaxPacketWorkers c \<le> 2 ^ length ticks * autoTuneMaxPacketWorkers c"
      "autoTuneMaxPacketWorkers c \<le> 2 ^ length ticks * (2 * currentPacketWorkers w)" by linarith+
    moreover have "2 ^ length (tick # ticks) * currentPacketWorkers w = 2 ^ length ticks * (2 * currentPacketWorkers w)"
      by simp
    ultimately show ?thesis unfolding cap by (simp only: min_absorb1)
  qed
  finally show ?case by (simp add: tick)
qed

text \<open>
  C37. Auto-tuning reacts and stays within its limits.  With a validated
  configuration and auto-tuning on, as long as the packet queue is seen at the critical watermark
  and the batch queue below it, the packet workers double at every tick until they are exactly the
  configured maximum: after \<open>n\<close> such ticks there are
  \<open>min max (2^n * PACKET_WORKERS)\<close> of them.  Whatever the queues look like, no run of the
  supervisor takes either kind of worker above its maximum, or packet workers below the start.
\<close>

theorem autotune_relieves_saturation:
  assumes "validateConfig c = Inr offsets" "autoTuneEnabled c"
    and "\<forall>(p, b) \<in> set ticks. queueUsagePct p (packetChannelSize c) \<ge> autoTuneCriticalWatermarkPct c
      \<and> queueUsagePct b (insertBatchChanSize c) < autoTuneCriticalWatermarkPct c"
  shows "currentPacketWorkers (autoTuneSupervisor c ticks (startedWorkers c))
      = min (autoTuneMaxPacketWorkers c) (2 ^ length ticks * packetWorkers c)
    \<and> within_limits c (autoTuneSupervisor c others (startedWorkers c))"
proof -
  note v = validateConfig_InrD [OF assms(1)] validated_positive [OF assms(1)]
  have "within_limits c (startedWorkers c)" using v by (simp add: within_limits_def startedWorkers_def)
  moreover have "currentPacketWorkers (autoTuneSupervisor c ticks (startedWorkers c))
      = min (autoTuneMaxPacketWorkers c) (2 ^ length ticks * packetWorkers c)"
    using saturated_run [OF assms(3) v(4), of "startedWorkers c"] assms(2) v
    by (simp add: autoTuneSupervisor_def startedWorkers_def)
  ultimately show ?thesis by (simp add: supervisor_within_limits)
qed

theorem autotune_relieves_saturation_witness:
  "currentPacketWorkers (autoTuneSupervisor (loadConfig 8 emptyEnv) [(450000, 0), (500000, 14)]
      (startedWorkers (loadConfig 8 emptyEnv))) = 16
   \<and> within_limits (loadConfig 8 emptyEnv) (autoTuneSupervisor (loadConfig 8 emptyEnv) [(500000, 16)]
      (startedWorkers (loadConfig 8 emptyEnv)))"
proof -
  let ?c = "loadConfig 8 emptyEnv" and ?ticks = "[(450000, 0), (500000, 14)] :: (int \<times> int) list"
  have "validateConfig ?c = Inr [20, 36]" "autoTuneEnabled ?c" using default_validates default_workers by blast+
  moreover have "\<forall>(p, b) \<in> set ?ticks. queueUsagePct p (packetChannelSize ?c) \<ge> autoTuneCriticalWatermarkPct ?c
      \<and> queueUsagePct b (insertBatchChanSize ?c) < autoTuneCriticalWatermarkPct ?c"
    by (simp add: default_workers queueUsagePct_def)
  ultimately show ?thesis
    using autotune_relieves_saturation [where c = ?c and ticks = ?ticks and others = "[(500000, 16)]"]
    by (simp add: default_workers)
qed

section \<open>Shards\<close>

text \<open>
  The shards the goroutines write: receiver \<open>i\<close> uses \<open>i\<close>, packet worker \<open>k\<close> (and every
  insert worker that settles one of its batches) \<open>udpReceivers + k\<close>.
\<close>

definition receiverShards :: "collectorConfig \<Rightarrow> int set" where
  "receiverShards c = {1..udpReceivers c}"

definition packetWorkerShard :: "collectorConfig \<Rightarrow> int \<Rightarrow> int" where
  "packetWorkerShard c workerID = udpReceivers c + workerID"

definition mainTracker :: "collectorConfig \<Rightarrow> cohortTracker" where
  "mainTracker c = newCohortTracker (udpReceivers c + autoTuneMaxPacketWorkers c + 1) (alertCohortRetention (alertConfig c))"

lemma shardIndex_self: "0 \<le> i \<Longrightarrow> i < int n \<Longrightarrow> shardIndex n i = nat i"
  by (simp add: shardIndex_def goRem_def Let_def sgn_if)

text \<open>
  \<open>main\<close> sizes the cohort tracker so that no two receivers or packet workers
  ever share a shard: however the supervisor scaled the packet workers, the shard each of them (and
  each receiver) maps to is its own, inside the tracker; none falls on another through the modulo.
\<close>

theorem shards_private:
  fixes c :: collectorConfig and ticks :: "(int \<times> int) list"
  assumes "validateConfig c = Inr offsets"
  defines "started \<equiv> {1..currentPacketWorkers (autoTuneSupervisor c ticks (startedWorkers c))}"
  shows "inj_on (shardIndex (length (shards (mainTracker c)))) (receiverShards c \<union> packetWorkerShard c ` started)
    \<and> receiverShards c \<inter> packetWorkerShard c ` started = {}
    \<and> inj_on (packetWorkerShard c) started"
proof -
  note v = validateConfig_InrD [OF assms(1)] validated_positive [OF assms(1)]
  have "within_limits c (startedWorkers c)" using v by (simp add: within_limits_def startedWorkers_def)
  then have most: "currentPacketWorkers (autoTuneSupervisor c ticks (startedWorkers c)) \<le> autoTuneMaxPacketWorkers c"
    using supervisor_within_limits by (auto simp: within_limits_def)
  have n: "int (length (shards (mainTracker c))) = udpReceivers c + autoTuneMaxPacketWorkers c + 1"
    using v by (simp add: mainTracker_def newCohortTracker_def Let_def)
  have own: "shardIndex (length (shards (mainTracker c))) i = nat i" "0 \<le> i"
    if "i \<in> receiverShards c \<union> packetWorkerShard c ` started" for i
    using that v most by (auto simp: receiverShards_def packetWorkerShard_def started_def n intro!: shardIndex_self)
  have "inj_on (shardIndex (length (shards (mainTracker c)))) (receiverShards c \<union> packetWorkerShard c ` started)"
    by (rule inj_onI) (use own in \<open>metis eq_nat_nat_iff\<close>)
  moreover have "receiverShards c \<inter> packetWorkerShard c ` started = {}"
    by (auto simp: receiverShards_def packetWorkerShard_def started_def)
  moreover have "inj_on (packetWorkerShard c) started" by (auto simp: inj_on_def packetWorkerShard_def)
  ultimately show ?thesis by simp
qed

theorem shards_private_witness:
  "inj_on (shardIndex (length (shards (mainTracker (loadConfig 8 emptyEnv)))))
     ({1..4} \<union> packetWorkerShard (loadConfig 8 emptyEnv) `
       {1..currentPacketWorkers (autoTuneSupervisor (loadConfig 8 emptyEnv) [(500000, 0)] (startedWorkers (loadConfig 8 emptyEnv)))})"
proof -
  have "validateConfig (loadConfig 8 emptyEnv) = Inr [20, 36]" using default_validates by blast
  from shards_private [OF this, of "[(500000, 0)]"] show ?thesis
    by (simp add: receiverShards_def default_workers)
qed

end
