(* ===== verification/Schema.thy ===== *)
theory Schema
  imports Tables
begin

text \<open>
  The statements sent to ClickHouse: the collector's INSERT and CREATE TABLE (\<open>main.go\<close>)
  and the reprocessor's, which depend on the schema version of a spooled batch
  (\<open>reprocesador/clickhouse_schema.go\<close>).  The two Go modules keep separate copies of the
  column lists; the theorems show that the copies for schema version 2 agree, and that they name
  the columns the encoder writes.
\<close>

section \<open>Query escaping\<close>

text \<open>\<open>url.QueryEscape\<close> and its inverse on bytes.\<close>

definition unreservedChar :: "char \<Rightarrow> bool" where
  "unreservedChar c = (isLetterChar c \<or> isDigitChar c \<or> c \<in> {CHR ''-'', CHR ''_'', CHR ''.'', CHR ''~''})"

definition upperHex :: "nat \<Rightarrow> char" where
  "upperHex n = (if n < 10 then char_of (48 + n) else char_of (55 + n))"

definition hexVal :: "char \<Rightarrow> nat" where
  "hexVal c = (if (of_char c :: nat) < 58 then of_char c - 48 else of_char c - 55)"

definition escapeChar :: "char \<Rightarrow> string" where
  "escapeChar c =
     (if unreservedChar c then [c] else if c = CHR '' '' then ''+''
      else [CHR ''%'', upperHex (of_char c div 16), upperHex (of_char c mod 16)])"

definition queryEscape :: "string \<Rightarrow> string" where
  "queryEscape s = concat (map escapeChar s)"

fun queryUnescape :: "string \<Rightarrow> string option" where
  "queryUnescape [] = Some []"
| "queryUnescape (c # cs) =
     (if c = CHR ''%'' then
        (case cs of a # b # rest \<Rightarrow> map_option ((#) (char_of (16 * hexVal a + hexVal b))) (queryUnescape rest)
                  | _ \<Rightarrow> None)
      else map_option ((#) (if c = CHR ''+'' then CHR '' '' else c)) (queryUnescape cs))"

lemma hexVal_upperHex: "n < 16 \<Longrightarrow> hexVal (upperHex n) = n"
  by (simp add: hexVal_def upperHex_def)

lemma escape_byte: "char_of (16 * (of_char c div 16) + of_char c mod 16 :: nat) = c"
  by (metis char_of_char mult_div_mod_eq)

lemma of_char_div_16: "(of_char c :: nat) div 16 < 16"
proof -
  have "(of_char c :: nat) < 256" by (rule nat_of_char_less_256)
  then show ?thesis by (auto intro: less_mult_imp_div_less)
qed

lemma queryUnescape_escapeChar:
  "queryUnescape (escapeChar c @ s) = map_option ((#) c) (queryUnescape s)"
proof -
  have nc: "\<not> unreservedChar (CHR ''%'')" "\<not> unreservedChar (CHR ''+'')"
    by (simp_all add: unreservedChar_def isLetterChar_def isDigitChar_def)
  have hex: "hexVal (upperHex (of_char c div 16)) = of_char c div 16"
    "hexVal (upperHex (of_char c mod 16)) = of_char c mod 16"
    using of_char_div_16 [of c] by (simp_all add: hexVal_upperHex)
  consider "unreservedChar c" | "\<not> unreservedChar c" "c = CHR '' ''"
    | "\<not> unreservedChar c" "c \<noteq> CHR '' ''" by blast
  then show ?thesis
  proof cases
    case 1
    with nc have "c \<noteq> CHR ''%''" "c \<noteq> CHR ''+''" by auto
    with 1 show ?thesis by (simp add: escapeChar_def)
  next
    case 2
    then show ?thesis by (simp add: escapeChar_def)
  next
    case 3
    have "queryUnescape (CHR ''%'' # upperHex (of_char c div 16) # upperHex (of_char c mod 16) # s)
        = map_option ((#) (char_of (16 * (of_char c div 16) + of_char c mod 16 :: nat))) (queryUnescape s)"
      by (simp add: hex)
    with 3 show ?thesis by (simp add: escapeChar_def)
  qed
qed

lemma queryUnescape_escape [string_simps]: "queryUnescape (queryEscape s) = Some s"
  by (induction s) (simp_all add: queryEscape_def queryUnescape_escapeChar)

section \<open>The collector's statements\<close>

definition clickHouseInsertQuery :: "string \<Rightarrow> string" where
  "clickHouseInsertQuery tableName =
     ''INSERT INTO '' @ tableName @ '' (start_time, end_time, router_ip, router_port, protocol_id, private_ip, private_port, public_ip, public_port, destination_ip, destination_port, packet_size) FORMAT RowBinary''"

definition clickHouseInsertURL :: "string \<Rightarrow> string \<Rightarrow> string" where
  "clickHouseInsertURL clickhouseURL tableName =
     trimRight (\<lambda>c. c = CHR ''/'') clickhouseURL @ ''/?query='' @ queryEscape (clickHouseInsertQuery tableName)"

definition newline :: string where "newline = [CHR 0x0A]"

definition clickHouseCreateTableDDL :: "string \<Rightarrow> string" where
  "clickHouseCreateTableDDL tableName = joinWith newline
     ['''', ''CREATE TABLE IF NOT EXISTS '' @ tableName, ''('',
      ''    start_time DateTime CODEC(ZSTD(3)),'',
      ''    end_time DateTime,'',
      ''    router_ip IPv4,'',
      ''    router_port UInt16,'',
      ''    protocol_id UInt8,'',
      ''    private_ip IPv4,'',
      ''    private_port UInt16,'',
      ''    public_ip IPv4,'',
      ''    public_port UInt16,'',
      ''    destination_ip IPv4,'',
      ''    destination_port UInt16,'',
      ''    packet_size UInt16'',
      '')'',
      ''ENGINE = MergeTree'',
      ''ORDER BY (end_time, router_ip, private_ip, public_ip, destination_ip, private_port, public_port)'',
      ''SETTINGS index_granularity = 8192'']"

section \<open>The reprocessor's statements\<close>

definition legacyRowBinarySchema :: int where "legacyRowBinarySchema = 1"
definition reducedRowBinarySchema :: int where "reducedRowBinarySchema = 2"

declare legacyRowBinarySchema_def [go_defs] reducedRowBinarySchema_def [go_defs]

datatype schema_error = UnsupportedSchemaVersion int | SchemaTable table_error

definition normalizeRowBinarySchema :: "int \<Rightarrow> schema_error + int" where
  "normalizeRowBinarySchema version =
     (if version = 0 then Inr legacyRowBinarySchema
      else if version \<noteq> legacyRowBinarySchema \<and> version \<noteq> reducedRowBinarySchema
      then Inl (UnsupportedSchemaVersion version)
      else Inr version)"

definition insertColumnsForSchema :: "int \<Rightarrow> schema_error + string" where
  "insertColumnsForSchema version =
     (case normalizeRowBinarySchema version of
        Inl err \<Rightarrow> Inl err
      | Inr schema \<Rightarrow>
          if schema = reducedRowBinarySchema
          then Inr ''start_time, end_time, router_ip, router_port, protocol_id, private_ip, private_port, public_ip, public_port, destination_ip, destination_port, packet_size''
          else Inr ''event_time, start_time, end_time, event_id, event_type, header, router_ip, router_port, protocol_id, protocol, private_ip, private_port, public_ip, public_port, destination_ip, destination_port, packet_size'')"

text \<open>The reprocessor's own copy of the identifier check.\<close>

fun isValidIdentifierLoop :: "nat \<Rightarrow> string \<Rightarrow> bool" where
  "isValidIdentifierLoop index [] = True"
| "isValidIdentifierLoop index (c # cs) =
     (let isLetter = isLetterChar c; isDigit = isDigitChar c
      in if index = 0
         then (if \<not> isLetter \<and> c \<noteq> CHR ''_'' then False else isValidIdentifierLoop (index + 1) cs)
         else (if \<not> isLetter \<and> \<not> isDigit \<and> c \<noteq> CHR ''_'' then False
               else isValidIdentifierLoop (index + 1) cs))"

definition isValidIdentifier :: "string \<Rightarrow> bool" where
  "isValidIdentifier s = (if s = [] then False else isValidIdentifierLoop 0 s)"

fun validateTableParts :: "string \<Rightarrow> string list \<Rightarrow> table_error option" where
  "validateTableParts tableName [] = None"
| "validateTableParts tableName (part # parts) =
     (if \<not> isValidIdentifier part then Some (InvalidIdentifier part tableName)
      else validateTableParts tableName parts)"

definition validateTableName :: "string \<Rightarrow> table_error option" where
  "validateTableName tableName =
     (let parts = splitOn (CHR ''.'') tableName
      in if length parts = 0 \<or> length parts > 2 then Some (InvalidTableName tableName)
         else validateTableParts tableName parts)"

text \<open>The query text of the reprocessor's INSERT; the URL around it is built by \<open>net/url\<close>.\<close>

definition reprocessInsertQuery :: "string \<Rightarrow> int \<Rightarrow> schema_error + string" where
  "reprocessInsertQuery tableName schemaVersion =
     (case validateTableName tableName of
        Some err \<Rightarrow> Inl (SchemaTable err)
      | None \<Rightarrow>
          (case insertColumnsForSchema schemaVersion of
             Inl err \<Rightarrow> Inl err
           | Inr insertColumns \<Rightarrow>
               Inr (''INSERT INTO '' @ tableName @ '' ('' @ insertColumns @ '') FORMAT RowBinary'')))"

definition reprocessCreateTableDDL :: "string \<Rightarrow> int \<Rightarrow> schema_error + string" where
  "reprocessCreateTableDDL tableName schemaVersion =
     (case validateTableName tableName of
        Some err \<Rightarrow> Inl (SchemaTable err)
      | None \<Rightarrow>
          (case normalizeRowBinarySchema schemaVersion of
             Inl err \<Rightarrow> Inl err
           | Inr schema \<Rightarrow>
               if schema = reducedRowBinarySchema
               then Inr (joinWith newline
                 ['''', ''CREATE TABLE IF NOT EXISTS '' @ tableName, ''('',
                  ''    start_time DateTime CODEC(ZSTD(3)),'',
                  ''    end_time DateTime,'',
                  ''    router_ip IPv4,'',
                  ''    router_port UInt16,'',
                  ''    protocol_id UInt8,'',
                  ''    private_ip IPv4,'',
                  ''    private_port UInt16,'',
                  ''    public_ip IPv4,'',
                  ''    public_port UInt16,'',
                  ''    destination_ip IPv4,'',
                  ''    destination_port UInt16,'',
                  ''    packet_size UInt16'',
                  '')'',
                  ''ENGINE = MergeTree'',
                  ''ORDER BY (end_time, router_ip, private_ip, public_ip, destination_ip, private_port, public_port)'',
                  ''SETTINGS index_granularity = 8192''])
               else Inr (joinWith newline
                 ['''', ''CREATE TABLE IF NOT EXISTS '' @ tableName, ''('',
                  ''    event_time DateTime,'',
                  ''    start_time DateTime,'',
                  ''    end_time DateTime,'',
                  ''    event_id FixedString(40),'',
                  ''    event_type String,'',
                  ''    header String,'',
                  ''    router_ip IPv4,'',
                  ''    router_port UInt16,'',
                  ''    protocol_id UInt8,'',
                  ''    protocol String,'',
                  ''    private_ip IPv4,'',
                  ''    private_port UInt16,'',
                  ''    public_ip IPv4,'',
                  ''    public_port UInt16,'',
                  ''    destination_ip IPv4,'',
                  ''    destination_port UInt16,'',
                  ''    packet_size UInt16'',
                  '')'',
                  ''ENGINE = MergeTree'',
                  ''ORDER BY (event_time, router_ip, private_ip, public_ip, destination_ip, private_port, public_port)'',
                  ''SETTINGS index_granularity = 8192''])))"

lemma isValidIdentifierLoop_eq: "isValidIdentifierLoop i s = identifierLoop i s"
  by (induction i s rule: identifierLoop.induct) (simp_all add: Let_def)

lemma isValidIdentifier_eq: "isValidIdentifier s = isValidClickHouseIdentifier s"
  by (simp add: isValidIdentifier_def isValidClickHouseIdentifier_def isValidIdentifierLoop_eq)

lemma validateTableParts_eq: "validateTableParts t parts = identifierParts t parts"
  by (induction parts) (simp_all add: isValidIdentifier_eq)

lemma validateTableName_eq: "validateTableName t = validateClickHouseTableName t"
  by (simp add: validateTableName_def validateClickHouseTableName_def validateTableParts_eq Let_def)

text \<open>
  A batch the collector spools (it stamps \<open>schema_version\<close> 2 and a
  daily table of a validated base) is inserted by the reprocessor with exactly the statements
  the collector would have used: the same INSERT, which ClickHouse decodes from the collector's
  URL, and the same CREATE TABLE, although each program has its own copy of the texts.
\<close>

theorem spool_schema_agreement:
  assumes "validateClickHouseTableName base = None"
  shows "let t = dailyTableName daily base ts
         in reprocessInsertQuery t reducedRowBinarySchema = Inr (clickHouseInsertQuery t)
            \<and> reprocessCreateTableDDL t reducedRowBinarySchema = Inr (clickHouseCreateTableDDL t)
            \<and> (\<exists>q. clickHouseInsertURL url t = trimRight (\<lambda>c. c = CHR ''/'') url @ ''/?query='' @ q
                    \<and> queryUnescape q = Some (clickHouseInsertQuery t))"
proof -
  define t where "t = dailyTableName daily base ts"
  have "isValidClickHouseIdentifier t
     \<or> (\<exists>a b. t = a @ CHR ''.'' # b \<and> isValidClickHouseIdentifier a \<and> isValidClickHouseIdentifier b)"
    using dailyTableName_no_error [OF assms, of daily ts] by (simp add: t_def validate_None_iff)
  then have v: "validateTableName t = None" by (simp add: validateTableName_eq validate_None_iff)
  have "reprocessInsertQuery t reducedRowBinarySchema = Inr (clickHouseInsertQuery t)"
    by (simp add: reprocessInsertQuery_def v insertColumnsForSchema_def normalizeRowBinarySchema_def
        go_defs clickHouseInsertQuery_def)
  moreover have "reprocessCreateTableDDL t reducedRowBinarySchema = Inr (clickHouseCreateTableDDL t)"
    by (simp add: reprocessCreateTableDDL_def v normalizeRowBinarySchema_def go_defs
        clickHouseCreateTableDDL_def)
  ultimately show ?thesis
    by (simp add: clickHouseInsertURL_def queryUnescape_escape flip: t_def)
qed

theorem spool_schema_agreement_witness:
  "let t = dailyTableName True ''cgnat.nat_v2'' 1753142399
   in reprocessInsertQuery t reducedRowBinarySchema = Inr (clickHouseInsertQuery t)
      \<and> reprocessCreateTableDDL t reducedRowBinarySchema = Inr (clickHouseCreateTableDDL t)
      \<and> (\<exists>q. clickHouseInsertURL ''http://127.0.0.1:8123/'' t
             = trimRight (\<lambda>c. c = CHR ''/'') ''http://127.0.0.1:8123/'' @ ''/?query='' @ q
            \<and> queryUnescape q = Some (clickHouseInsertQuery t))"
  by (rule spool_schema_agreement)
    (simp add: validateClickHouseTableName_def isValidClickHouseIdentifier_def isLetterChar_def
      isDigitChar_def)

end
