(* ===== verification/PacketWorker.thy ===== *)
theory PacketWorker
  imports Spool Tuning Packet Schema
begin

text \<open>
  The packet workers and insert workers of the collector (\<open>main.go\<close>: \<open>packetWorker\<close> with
  its \<open>flushTable\<close> and \<open>flushAll\<close>, \<open>sendInsertBatch\<close>, \<open>ensureClickHouseTable\<close>,
  \<open>insertBatchToClickHouse\<close>, \<open>insertWorker\<close>).  A worker's turn of its loop is one step on
  its pending batches and the shared state; the pipeline of the next theory interleaves the turns.
  The waits (ticker, retries) take no part in the model but through the answers they get.
\<close>

section \<open>Packets and pending batches\<close>

record UDPPacket =
  Buffer :: bytes
  Length :: nat
  PacketRouterIP :: string
  PacketRouterIPNum :: u32
  PacketRouterPort :: u16
  ReceivedUnixNano :: int

record pendingBatch =
  pendingBody :: bytes
  pendingRows :: int
  pendingCohorts :: "insertCohort list"

type_synonym pending = "(string \<times> pendingBatch) list"

definition newPendingBatch :: pendingBatch where
  "newPendingBatch = \<lparr>pendingBody = [], pendingRows = 0, pendingCohorts = []\<rparr>"

definition settle :: "settlement \<Rightarrow> InsertBatch \<Rightarrow> collector \<Rightarrow> collector" where
  "settle how batch c = c\<lparr>outcomes := outcomes c @ [(how, batch)]\<rparr>"

definition track :: "(cohortTracker \<Rightarrow> cohortTracker) \<Rightarrow> collector \<Rightarrow> collector" where
  "track f c = c\<lparr>tracker := map_option f (tracker c)\<rparr>"

text \<open>
  What a receiver counts for a datagram before it passes it on (\<open>udpReadLoop\<close>): the drops the
  kernel reported with it, then the datagram.
\<close>

definition countReceived :: "int \<Rightarrow> int \<Rightarrow> u64 \<Rightarrow> collector \<Rightarrow> collector" where
  "countReceived receiverID receivedSecond dropped c =
     (let c = (if dropped > 0
               then track (\<lambda>t. recordUDPKernelDrops t receivedSecond receiverID dropped) (addTotal TotalUDPKernelDrops dropped c)
               else c)
      in track (\<lambda>t. recordReceived t receivedSecond receiverID) (addTotal TotalReceived 1 c))"

section \<open>Sending a batch\<close>

definition pushBatch :: "InsertBatch \<Rightarrow> collector \<Rightarrow> collector" where
  "pushBatch batch c = c\<lparr>batches := batches c @ [batch]\<rparr>"

text \<open>
  Under the policy \<open>block\<close> the send waits until the channel takes the batch.  Otherwise the
  watermark is checked first, and the batch is refused unless the channel takes it at once (no
  timeout) or before the timer fires.
\<close>

definition sendInsertBatch :: "collectorConfig \<Rightarrow> InsertBatch \<Rightarrow> collector \<Rightarrow> bool \<times> collector" where
  "sendInsertBatch cfg batch c =
     (if BatchRows batch = 0 then (True, c)
      else if liveInsertOverloadPolicy cfg \<noteq> ''raw_only'' then (True, pushBatch batch c)
      else let ((len, takes), rest) = popOr (0, True) (channelAnswers c);
               c = c\<lparr>channelAnswers := rest\<rparr>
           in if queueUsagePct len (insertBatchChanSize cfg) \<ge> liveInsertQueueHighWatermarkPct cfg then (False, c)
              else if takes then (True, pushBatch batch c) else (False, c))"

text \<open>A batch that must be spooled, by a packet worker or an insert worker: the cohorts follow the result.\<close>

definition spoolBatch :: "collectorConfig \<Rightarrow> InsertBatch \<Rightarrow> string \<Rightarrow> collector \<Rightarrow> collector" where
  "spoolBatch cfg batch err c =
     (let (ok, c) = spoolFailedInsertBatch (failedSpoolBase cfg) batch err c
      in if \<not> ok
         then let c = addTotal TotalFailedSpoolErrors 1 c
              in settle SpoolLost batch
                   (if tracker c = None then c
                    else let (now, c) = readSecond c
                         in track (\<lambda>t. recordSpoolFailure t (Cohorts batch) (CohortShard batch) now) c)
         else settle OnDisk batch
                (if tracker c = None then c
                 else let (now, c) = readSecond c
                      in track (\<lambda>t. recordSpooled t (Cohorts batch) (CohortShard batch) now) c))"

definition insertBatchOf :: "collectorConfig \<Rightarrow> int \<Rightarrow> string \<Rightarrow> pendingBatch \<Rightarrow> InsertBatch" where
  "insertBatchOf cfg workerID tableName b =
     \<lparr>TableName = tableName, Body = pendingBody b, BatchRows = pendingRows b, Cohorts = pendingCohorts b,
      CohortShard = packetWorkerShard cfg workerID\<rparr>"

definition overloadError :: "collectorConfig \<Rightarrow> int \<Rightarrow> string" where
  "overloadError cfg len = ''live_insert_queue_overload queue_batch='' @ itoa len @ ''/'' @ itoa (insertBatchChanSize cfg)"

definition flushTable :: "collectorConfig \<Rightarrow> int \<Rightarrow> string \<Rightarrow> pending \<times> collector \<Rightarrow> pending \<times> collector" where
  "flushTable cfg workerID tableName = (\<lambda>(pending, c).
     case map_of pending tableName of
       None \<Rightarrow> (pending, c)
     | Some b \<Rightarrow>
         (if pendingRows b = 0 then (pending, c)
          else let insertBatch = insertBatchOf cfg workerID tableName b;
                   (sent, c) = sendInsertBatch cfg insertBatch c
               in if sent then (AList.update tableName newPendingBatch pending, c)
                  else let c = addTotal TotalLiveSkippedRows (word_of_int (pendingRows b)) c;
                           c = addTotal TotalLiveInsertSkipped 1 c;
                           ((len, _), rest) = popOr (0, True) (channelAnswers c);
                           c = spoolBatch cfg insertBatch (overloadError cfg len) (c\<lparr>channelAnswers := rest\<rparr>)
                       in (AList.update tableName newPendingBatch pending, c)))"

text \<open>
  \<open>flushAll\<close> ranges over a map: every table once, in the order given, tables the order leaves out
  last.
\<close>

definition flushOrder :: "string list \<Rightarrow> pending \<Rightarrow> string list" where
  "flushOrder order pending =
     (let names = remdups (map fst pending)
      in filter (\<lambda>n. n \<in> set names) (remdups order) @ filter (\<lambda>n. n \<notin> set order) names)"

definition flushAll :: "collectorConfig \<Rightarrow> int \<Rightarrow> string list \<Rightarrow> pending \<times> collector \<Rightarrow> pending \<times> collector" where
  "flushAll cfg workerID order s = fold (flushTable cfg workerID) (flushOrder order (fst s)) s"

section \<open>One packet\<close>

definition appendEntry :: "collectorConfig \<Rightarrow> int \<Rightarrow> int \<Rightarrow> NATLogEntry \<Rightarrow> pending \<times> collector \<Rightarrow> pending \<times> collector" where
  "appendEntry cfg workerID cohortSecond entry = (\<lambda>(pending, c).
     let tableName = dailyTableName (dailyTables cfg) (clickhouseTable cfg) (EventTime entry);
         b = (case map_of pending tableName of None \<Rightarrow> newPendingBatch | Some b \<Rightarrow> b);
         b = b\<lparr>pendingBody := appendRowBinaryEvent (pendingBody b) entry, pendingRows := pendingRows b + 1\<rparr>;
         b = (if tracker c \<noteq> None
              then b\<lparr>pendingCohorts := addInsertCohort (pendingCohorts b) cohortSecond 1\<rparr> else b);
         s = (AList.update tableName b pending, addTotal TotalParsed 1 c)
     in if pendingRows b \<ge> insertBatchRows cfg \<or> int (length (pendingBody b)) \<ge> insertBatchBytes cfg
        then flushTable cfg workerID tableName s else s)"

text \<open>Nanoseconds to seconds, as Go divides.\<close>

definition goQuot :: "int \<Rightarrow> int \<Rightarrow> int" where
  "goQuot a b = sgn a * (\<bar>a\<bar> div b)"

definition handleParsed :: "collectorConfig \<Rightarrow> int \<Rightarrow> UDPPacket \<Rightarrow> parse_error + NATLogEntry list
    \<Rightarrow> pending \<times> collector \<Rightarrow> pending \<times> collector" where
  "handleParsed cfg workerID packet parsed = (\<lambda>(pending, c).
     let cohortSecond = goQuot (ReceivedUnixNano packet) 1000000000;
         shard = packetWorkerShard cfg workerID;
         (pending, c) =
           (case parsed of
              Inl _ \<Rightarrow> (pending, track (\<lambda>t. recordParseResult t cohortSecond shard False 0) (addTotal TotalParseErrors 1 c))
            | Inr entries \<Rightarrow>
                (let c = track (\<lambda>t. recordParseResult t cohortSecond shard True (of_nat (length entries))) c
                 in if parseOnly cfg then (pending, addTotal TotalParsed (of_nat (length entries)) c)
                    else fold (appendEntry cfg workerID cohortSecond) entries (pending, c)))
     in (pending, addTotal TotalPacketProcessed 1 c))"

text \<open>
  \<open>now\<close> supplies the wall clock of the parser's timestamp fallback; \<open>None\<close> is a panic.
\<close>

definition packetTurn :: "collectorConfig \<Rightarrow> int \<Rightarrow> UDPPacket \<Rightarrow> (nat \<Rightarrow> u32) \<Rightarrow> pending \<times> collector \<Rightarrow> (pending \<times> collector) option" where
  "packetTurn cfg workerID packet now s = do {
     data \<leftarrow> goSlice (Buffer packet) 0 (Length packet);
     parsed \<leftarrow> parsePacket data (PacketRouterIPNum packet) (PacketRouterPort packet) (ReceivedUnixNano packet) now;
     Some (handleParsed cfg workerID packet parsed s) }"

section \<open>Insert workers\<close>

definition httpRequest :: "request \<Rightarrow> collector \<Rightarrow> string option \<times> collector" where
  "httpRequest req c =
     (let (answer, rest) = popOr None (httpAnswers c);
          c = c\<lparr>httpAnswers := rest\<rparr>
      in case answer of None \<Rightarrow> (None, c\<lparr>served := served c @ [req]\<rparr>) | Some e \<Rightarrow> (Some e, c))"

definition ensureClickHouseTable :: "string \<Rightarrow> collector \<Rightarrow> string option \<times> collector" where
  "ensureClickHouseTable tableName c =
     (if tableName \<in> set (createdTables c) then (None, c)
      else case httpRequest (CreateTable (clickHouseCreateTableDDL tableName)) c of
             (Some e, c) \<Rightarrow> (Some e, addTotal TotalTableCreateErrors 1 c)
           | (None, c) \<Rightarrow> (None, addTotal TotalTablesCreated 1 (c\<lparr>createdTables := tableName # createdTables c\<rparr>)))"

definition insertBatchToClickHouse :: "collectorConfig \<Rightarrow> InsertBatch \<Rightarrow> collector \<Rightarrow> string option \<times> collector" where
  "insertBatchToClickHouse cfg batch c =
     (case ensureClickHouseTable (TableName batch) c of
        (Some e, c) \<Rightarrow> (Some (''clickhouse_create_table table='' @ TableName batch @ '' error='' @ e), c)
      | (None, c) \<Rightarrow> httpRequest (InsertRows (clickHouseInsertURL (clickhouseURL cfg) (TableName batch)) (Body batch)) c)"

text \<open>The retry loop with the attempts left; the result is \<open>lastErr\<close>.\<close>

fun insertAttempts :: "collectorConfig \<Rightarrow> InsertBatch \<Rightarrow> nat \<Rightarrow> string option \<Rightarrow> collector \<Rightarrow> string option \<times> collector" where
  "insertAttempts cfg batch 0 lastErr c = (lastErr, c)"
| "insertAttempts cfg batch (Suc n) lastErr c =
     (case insertBatchToClickHouse cfg batch c of
        (Some e, c) \<Rightarrow> insertAttempts cfg batch n (Some e) c
      | (None, c) \<Rightarrow>
          (let c = addTotal TotalInserted (word_of_int (BatchRows batch)) c;
               c = settle InClickHouse batch (addTotal TotalBatchesInserted 1 c)
           in (None,
               if tracker c = None then c
               else let (now, c) = readSecond c
                    in track (\<lambda>t. recordInserted t (Cohorts batch) (CohortShard batch) now) c)))"

definition handleBatch :: "collectorConfig \<Rightarrow> InsertBatch \<Rightarrow> collector \<Rightarrow> collector" where
  "handleBatch cfg batch c =
     (case insertAttempts cfg batch (nat (insertMaxRetries cfg)) None c of
        (None, c) \<Rightarrow> c
      | (Some err, c) \<Rightarrow>
          spoolBatch cfg batch err
            (addTotal TotalInsertDroppedRows (word_of_int (BatchRows batch)) (addTotal TotalInsertErrors 1 c)))"

text \<open>One turn: the oldest batch of the channel.\<close>

definition insertTurn :: "collectorConfig \<Rightarrow> collector \<Rightarrow> collector" where
  "insertTurn cfg c =
     (case batches c of [] \<Rightarrow> c | batch # rest \<Rightarrow> handleBatch cfg batch (c\<lparr>batches := rest\<rparr>))"

end
