(* ===== verification/Pipeline.thy ===== *)
theory Pipeline
  imports PacketWorker "HOL-Library.Multiset"
begin

text \<open>
  The collector's pipeline as a whole: any number of packet workers and insert workers taking turns
  on the shared state in any order, and what is conserved.  \<open>row_measure\<close> is the contract of
  a quantity that every row adds to its batch; for any such quantity the turns only move it between
  the pending batches, the channel and the batches that left.  It is interpreted for the rows
  themselves, for their number, and for the rows attributed to each second.
\<close>

section \<open>Turns\<close>

record pipeline =
  workerPending :: "int \<Rightarrow> pending"
  shared :: collector

datatype turn = PacketTurn int UDPPacket "nat \<Rightarrow> u32" | FlushTurn int "string list" | InsertTurn | ReceiveTurn int int u64

definition setWorker :: "int \<Rightarrow> pending \<times> collector \<Rightarrow> pipeline \<Rightarrow> pipeline" where
  "setWorker k r s = s\<lparr>workerPending := (workerPending s)(k := fst r), shared := snd r\<rparr>"

text \<open>
  A turn of the loop of one worker; \<open>FlushTurn\<close> is the ticker or the closed channel, and
  \<open>ReceiveTurn\<close> a receiver that counts a datagram.
\<close>

fun takeTurn :: "collectorConfig \<Rightarrow> turn \<Rightarrow> pipeline \<Rightarrow> pipeline option" where
  "takeTurn cfg (PacketTurn k packet now) s =
     map_option (\<lambda>r. setWorker k r s) (packetTurn cfg k packet now (workerPending s k, shared s))"
| "takeTurn cfg (FlushTurn k order) s = Some (setWorker k (flushAll cfg k order (workerPending s k, shared s)) s)"
| "takeTurn cfg InsertTurn s = Some (s\<lparr>shared := insertTurn cfg (shared s)\<rparr>)"
| "takeTurn cfg (ReceiveTurn receiverID receivedSecond dropped) s =
     Some (s\<lparr>shared := countReceived receiverID receivedSecond dropped (shared s)\<rparr>)"

fun takeTurns :: "collectorConfig \<Rightarrow> turn list \<Rightarrow> pipeline \<Rightarrow> pipeline option" where
  "takeTurns cfg [] s = Some s"
| "takeTurns cfg (t # ts) s = takeTurn cfg t s \<bind> takeTurns cfg ts"

definition newPipeline :: "collector \<Rightarrow> pipeline" where
  "newPipeline c = \<lparr>workerPending = (\<lambda>_. []), shared = c\<rparr>"

section \<open>Well-formed batches\<close>

definition wf_pending :: "pendingBatch \<Rightarrow> bool" where
  "wf_pending b \<longleftrightarrow> (\<exists>es. pendingBody b = concat (map (appendRowBinaryEvent []) es) \<and> pendingRows b = int (length es))"

definition wf_pendings :: "pending \<Rightarrow> bool" where
  "wf_pendings pending \<longleftrightarrow> distinct (map fst pending) \<and> (\<forall>b \<in> snd ` set pending. wf_pending b)"

definition pendingOf :: "InsertBatch \<Rightarrow> pendingBatch" where
  "pendingOf b = \<lparr>pendingBody = Body b, pendingRows = BatchRows b, pendingCohorts = Cohorts b\<rparr>"

definition appendToBatch :: "bool \<Rightarrow> int \<Rightarrow> NATLogEntry \<Rightarrow> pendingBatch \<Rightarrow> pendingBatch" where
  "appendToBatch tracked sec e b =
     \<lparr>pendingBody = appendRowBinaryEvent (pendingBody b) e, pendingRows = pendingRows b + 1,
      pendingCohorts = (if tracked then addInsertCohort (pendingCohorts b) sec 1 else pendingCohorts b)\<rparr>"

definition tableOf :: "collectorConfig \<Rightarrow> NATLogEntry \<Rightarrow> string" where
  "tableOf cfg e = dailyTableName (dailyTables cfg) (clickhouseTable cfg) (EventTime e)"

lemma pendingOf_insertBatchOf [simp]: "pendingOf (insertBatchOf cfg k t b) = b"
  by (simp add: pendingOf_def insertBatchOf_def)

lemma insertBatchOf_sel [simp]:
  "TableName (insertBatchOf cfg k t b) = t" "BatchRows (insertBatchOf cfg k t b) = pendingRows b"
  "Body (insertBatchOf cfg k t b) = pendingBody b" "Cohorts (insertBatchOf cfg k t b) = pendingCohorts b"
  by (simp_all add: insertBatchOf_def)

lemma wf_new [simp]: "wf_pending newPendingBatch"
  by (simp add: wf_pending_def newPendingBatch_def)

lemma wf_append: "wf_pending b \<Longrightarrow> wf_pending (appendToBatch tracked sec e b)"
  unfolding wf_pending_def appendToBatch_def
  by (metis (no_types, lifting) appendRowBinaryEvent_append concat.simps concat_append length_append_singleton
      list.simps(8,9) map_append of_nat_Suc pendingBatch.select_convs(1,2) append_Nil2 add.commute)

lemma snd_update: "snd ` set (AList.update t b al) \<subseteq> insert b (snd ` set al)"
  by (induction al) auto

lemma wf_pendings_update:
  assumes "wf_pendings pending" "wf_pending b"
  shows "wf_pendings (AList.update t b pending)"
  using assms snd_update [of t b pending] unfolding wf_pendings_def
  by (intro conjI ballI) (simp add: distinct_update, blast)

lemma appendToBatch_upd:
  "(if tracked then b\<lparr>pendingBody := appendRowBinaryEvent (pendingBody b) e, pendingRows := pendingRows b + 1,
        pendingCohorts := addInsertCohort (pendingCohorts b) sec 1\<rparr>
    else b\<lparr>pendingBody := appendRowBinaryEvent (pendingBody b) e, pendingRows := pendingRows b + 1\<rparr>)
   = appendToBatch tracked sec e b"
  by (cases b) (simp add: appendToBatch_def)

lemma appendEntry_alt:
  "appendEntry cfg k sec e (pending, c) =
     (let t = tableOf cfg e;
          b = appendToBatch (tracker c \<noteq> None) sec e (case map_of pending t of None \<Rightarrow> newPendingBatch | Some b \<Rightarrow> b);
          s = (AList.update t b pending, addTotal TotalParsed 1 c)
      in if pendingRows b \<ge> insertBatchRows cfg \<or> int (length (pendingBody b)) \<ge> insertBatchBytes cfg
         then flushTable cfg k t s else s)"
  by (simp add: appendEntry_def appendToBatch_upd [symmetric] tableOf_def Let_def del: not_None_eq)

lemma sum_update:
  fixes f :: "'k \<times> 'v \<Rightarrow> 'm::comm_monoid_add"
  assumes "distinct (map fst al)"
  shows "sum_list (map f (AList.update k v al)) + (case map_of al k of None \<Rightarrow> 0 | Some w \<Rightarrow> f (k, w))
    = sum_list (map f al) + f (k, v)"
  using assms
proof (induction al)
  case Nil
  then show ?case by simp
next
  case (Cons p al)
  obtain k' w where p: "p = (k', w)" by fastforce
  show ?case
  proof (cases "k' = k")
    case True
    with Cons.prems p have "AList.update k v al = AList.update k v al" "k \<notin> fst ` set al" by auto
    with True p show ?thesis by (simp add: ac_simps)
  next
    case False
    with Cons p show ?thesis by (simp add: ac_simps)
  qed
qed

section \<open>Quantities in transit\<close>

definition pendingTotal :: "(string \<Rightarrow> pendingBatch \<Rightarrow> 'm::comm_monoid_add) \<Rightarrow> pending \<Rightarrow> 'm" where
  "pendingTotal weight pending = sum_list (map (\<lambda>(t, b). weight t b) pending)"

definition batchesTotal :: "(string \<Rightarrow> pendingBatch \<Rightarrow> 'm::comm_monoid_add) \<Rightarrow> InsertBatch list \<Rightarrow> 'm" where
  "batchesTotal weight bs = sum_list (map (\<lambda>b. weight (TableName b) (pendingOf b)) bs)"

definition sharedTotal :: "(string \<Rightarrow> pendingBatch \<Rightarrow> 'm::comm_monoid_add) \<Rightarrow> collector \<Rightarrow> 'm" where
  "sharedTotal weight c = batchesTotal weight (batches c) + batchesTotal weight (map snd (outcomes c))"

definition pipelineTotal :: "(string \<Rightarrow> pendingBatch \<Rightarrow> 'm::comm_monoid_add) \<Rightarrow> int list \<Rightarrow> pipeline \<Rightarrow> 'm" where
  "pipelineTotal weight ids s = (\<Sum>k\<leftarrow>ids. pendingTotal weight (workerPending s k)) + sharedTotal weight (shared s)"

lemma batchesTotal_simps [simp]:
  "batchesTotal weight [] = 0" "batchesTotal weight (b # bs) = weight (TableName b) (pendingOf b) + batchesTotal weight bs"
  "batchesTotal weight (bs @ cs) = batchesTotal weight bs + batchesTotal weight cs"
  by (simp_all add: batchesTotal_def)

text \<open>What the helpers that only count, track or read the clock leave alone.\<close>

lemma transit_frame [simp]:
  "batches (addTotal t n c) = batches c" "outcomes (addTotal t n c) = outcomes c" "tracker (addTotal t n c) = tracker c"
  "batches (track f c) = batches c" "outcomes (track f c) = outcomes c" "tracker (track f c) = map_option f (tracker c)"
  "batches (settle how b c) = batches c" "outcomes (settle how b c) = outcomes c @ [(how, b)]" "tracker (settle how b c) = tracker c"
  "batches (snd (readSecond c)) = batches c" "outcomes (snd (readSecond c)) = outcomes c" "tracker (snd (readSecond c)) = tracker c"
  "totals (track f c) = totals c" "totals (settle how b c) = totals c" "totals (snd (readSecond c)) = totals c"
  "totals (addTotal t n c) = (totals c)(t := totals c t + n)"
  by (simp_all add: addTotal_def track_def settle_def readSecond_def readClock_def Let_def split: prod.splits)

lemma sharedTotal_addTotal [simp]: "sharedTotal weight (addTotal t n c) = sharedTotal weight c"
  by (simp add: sharedTotal_def)

lemma sharedTotal_track [simp]: "sharedTotal weight (track f c) = sharedTotal weight c"
  by (simp add: sharedTotal_def)

lemma countReceived_frame [simp]:
  "batches (countReceived r sec d c) = batches c" "outcomes (countReceived r sec d c) = outcomes c"
  "tracker (countReceived r sec d c) = None \<longleftrightarrow> tracker c = None"
  "t \<noteq> TotalReceived \<Longrightarrow> t \<noteq> TotalUDPKernelDrops \<Longrightarrow> totals (countReceived r sec d c) t = totals c t"
  "sharedTotal weight (countReceived r sec d c) = sharedTotal weight c"
  by (simp_all add: countReceived_def Let_def)

text \<open>A spooled batch is recorded as written or as lost; with the cohorts tracked, accordingly.\<close>

lemma spoolBatch_effect:
  "\<exists>how \<in> {OnDisk, SpoolLost}. outcomes (spoolBatch cfg b err c) = outcomes c @ [(how, b)]
     \<and> batches (spoolBatch cfg b err c) = batches c \<and> (tracker (spoolBatch cfg b err c) = None \<longleftrightarrow> tracker c = None)
     \<and> totals (spoolBatch cfg b err c) TotalParsed = totals c TotalParsed"
proof -
  obtain ok c' where run: "spoolFailedInsertBatch (failedSpoolBase cfg) b err c = (ok, c')" by fastforce
  have frame: "batches c' = batches c" "outcomes c' = outcomes c" "tracker c' = tracker c" "totals c' TotalParsed = totals c TotalParsed"
    using spool_frame [OF run, of TotalParsed] by simp_all
  obtain n1 c1 where 1: "readSecond (addTotal TotalFailedSpoolErrors 1 c') = (n1, c1)" by fastforce
  obtain n2 c2 where 2: "readSecond c' = (n2, c2)" by fastforce
  have c1: "batches c1 = batches c" "outcomes c1 = outcomes c" "tracker c1 = tracker c" "totals c1 TotalParsed = totals c TotalParsed"
    using transit_frame(10-12,15) [of "addTotal TotalFailedSpoolErrors 1 c'"] frame unfolding 1 by simp_all
  have c2: "batches c2 = batches c" "outcomes c2 = outcomes c" "tracker c2 = tracker c" "totals c2 TotalParsed = totals c TotalParsed"
    using transit_frame(10-12,15) [of c'] frame unfolding 2 by simp_all
  show ?thesis
    by (cases ok; cases "tracker c") (simp_all add: spoolBatch_def run 1 2 frame c1 c2 Let_def)
qed

lemma sharedTotal_spoolBatch:
  "sharedTotal weight (spoolBatch cfg b err c) = sharedTotal weight c + weight (TableName b) (pendingOf b)"
  using spoolBatch_effect [of cfg b err c] by (auto simp: sharedTotal_def ac_simps)

lemma sendInsertBatch_effect:
  assumes "sendInsertBatch cfg b c = (ok, c')" "BatchRows b \<noteq> 0"
  shows "batches c' = batches c @ (if ok then [b] else [])" "outcomes c' = outcomes c" "tracker c' = tracker c" "totals c' = totals c"
  using assms by (auto simp: sendInsertBatch_def pushBatch_def Let_def split: prod.splits if_splits)

section \<open>One flush\<close>

lemma flushTable_effect:
  assumes "flushTable cfg k t (p, c) = (p', c')"
  shows "wf_pendings p \<Longrightarrow> wf_pendings p'"
    and "tracker c' = None \<longleftrightarrow> tracker c = None" "totals c' TotalParsed = totals c TotalParsed"
    and "weight t newPendingBatch = 0 \<Longrightarrow> wf_pendings p
      \<Longrightarrow> pendingTotal weight p' + sharedTotal weight c' = pendingTotal weight p + sharedTotal weight c"
    and "map_of p' t \<in> {None, Some newPendingBatch} \<or> (\<exists>b. map_of p' t = Some b \<and> pendingRows b = 0)"
    and "\<And>u. u \<noteq> t \<Longrightarrow> map_of p' u = map_of p u"
proof -
  consider (none) "map_of p t = None" "p' = p" "c' = c"
    | (quiet) b where "map_of p t = Some b" "pendingRows b = 0" "p' = p" "c' = c"
    | (sent) b c1 where "map_of p t = Some b" "pendingRows b \<noteq> 0" "sendInsertBatch cfg (insertBatchOf cfg k t b) c = (True, c1)"
        "p' = AList.update t newPendingBatch p" "c' = c1"
    | (spooled) b c1 err rest where "map_of p t = Some b" "pendingRows b \<noteq> 0" "sendInsertBatch cfg (insertBatchOf cfg k t b) c = (False, c1)"
        "p' = AList.update t newPendingBatch p"
        "c' = spoolBatch cfg (insertBatchOf cfg k t b) err ((addTotal TotalLiveInsertSkipped 1
               (addTotal TotalLiveSkippedRows (word_of_int (pendingRows b)) c1))\<lparr>channelAnswers := rest\<rparr>)"
    using assms by (auto simp: flushTable_def Let_def split: option.splits if_splits prod.splits)
  note cases = this
  show "wf_pendings p \<Longrightarrow> wf_pendings p'" by (rule cases) (auto intro: wf_pendings_update)
  have spooled: "batches c1 = batches c" "outcomes c1 = outcomes c" "tracker c1 = tracker c" "totals c1 = totals c"
    if "sendInsertBatch cfg (insertBatchOf cfg k t b) c = (False, c1)" "pendingRows b \<noteq> 0" for b c1
    using sendInsertBatch_effect [OF that(1)] that(2) by simp_all
  have "(tracker c' = None \<longleftrightarrow> tracker c = None) \<and> totals c' TotalParsed = totals c TotalParsed"
  proof (rule cases)
    fix b c1
    assume "map_of p t = Some b" "pendingRows b \<noteq> 0" "sendInsertBatch cfg (insertBatchOf cfg k t b) c = (True, c1)" "c' = c1"
    then show ?thesis using sendInsertBatch_effect [of cfg "insertBatchOf cfg k t b" c True c1] by simp
  next
    fix b c1 err rest
    assume "pendingRows b \<noteq> 0" "sendInsertBatch cfg (insertBatchOf cfg k t b) c = (False, c1)"
      and c': "c' = spoolBatch cfg (insertBatchOf cfg k t b) err ((addTotal TotalLiveInsertSkipped 1
               (addTotal TotalLiveSkippedRows (word_of_int (pendingRows b)) c1))\<lparr>channelAnswers := rest\<rparr>)"
    then show ?thesis unfolding c' using spoolBatch_effect [of cfg "insertBatchOf cfg k t b" err] spooled by fastforce
  qed simp_all
  then show "tracker c' = None \<longleftrightarrow> tracker c = None" "totals c' TotalParsed = totals c TotalParsed" by simp_all
  show "pendingTotal weight p' + sharedTotal weight c' = pendingTotal weight p + sharedTotal weight c"
    if zero: "weight t newPendingBatch = 0" and wf: "wf_pendings p"
  proof -
    have moved: "pendingTotal weight (AList.update t newPendingBatch p) + weight t b = pendingTotal weight p" if "map_of p t = Some b" for b
      using sum_update [of p "\<lambda>(t, b). weight t b" t newPendingBatch] wf zero that
      by (simp add: wf_pendings_def pendingTotal_def)
    show ?thesis
    proof (rule cases)
      fix b c1
      assume run: "map_of p t = Some b" "pendingRows b \<noteq> 0" "sendInsertBatch cfg (insertBatchOf cfg k t b) c = (True, c1)"
        "p' = AList.update t newPendingBatch p" "c' = c1"
      then have "sharedTotal weight c' = sharedTotal weight c + weight t b"
        using sendInsertBatch_effect [of cfg "insertBatchOf cfg k t b" c True c1] by (simp add: sharedTotal_def ac_simps)
      then show ?thesis using moved [OF run(1)] run(4) by (metis add.assoc add.commute)
    next
      fix b c1 err rest
      assume run: "map_of p t = Some b" "pendingRows b \<noteq> 0" "sendInsertBatch cfg (insertBatchOf cfg k t b) c = (False, c1)"
        "p' = AList.update t newPendingBatch p"
        and c': "c' = spoolBatch cfg (insertBatchOf cfg k t b) err ((addTotal TotalLiveInsertSkipped 1
               (addTotal TotalLiveSkippedRows (word_of_int (pendingRows b)) c1))\<lparr>channelAnswers := rest\<rparr>)"
      have "sharedTotal weight c' = sharedTotal weight c + weight t b"
        unfolding c' sharedTotal_spoolBatch using spooled [OF run(3,2)] by (simp add: sharedTotal_def)
      then show ?thesis using moved [OF run(1)] run(4) by (metis add.assoc add.commute)
    qed simp_all
  qed
  show "map_of p' t \<in> {None, Some newPendingBatch} \<or> (\<exists>b. map_of p' t = Some b \<and> pendingRows b = 0)"
    by (rule cases) (auto simp: update_conv')
  show "map_of p' u = map_of p u" if "u \<noteq> t" for u by (rule cases) (use that in \<open>auto simp: update_conv'\<close>)
qed

text \<open>
  A whole flush: conservation for every measure without weight on empty batches, and nothing left
  pending in any table.
\<close>

lemma fold_flushTable:
  assumes "\<And>t. weight t newPendingBatch = 0" "wf_pendings (fst s)" "fold (flushTable cfg k) names s = r"
  shows "wf_pendings (fst r) \<and> (tracker (snd r) = None \<longleftrightarrow> tracker (snd s) = None)
    \<and> totals (snd r) TotalParsed = totals (snd s) TotalParsed
    \<and> pendingTotal weight (fst r) + sharedTotal weight (snd r) = pendingTotal weight (fst s) + sharedTotal weight (snd s)"
  using assms(2,3)
proof (induction names arbitrary: s)
  case Nil
  then show ?case by simp
next
  case (Cons t names)
  obtain p c where s: "s = (p, c)" by fastforce
  obtain p' c' where f: "flushTable cfg k t (p, c) = (p', c')" by fastforce
  note e = flushTable_effect(1-3) [OF f] flushTable_effect(4) [OF f, where weight = weight, OF assms(1)]
  have "fold (flushTable cfg k) names (p', c') = r" using Cons.prems(2) unfolding s by (simp add: f)
  from Cons.IH [OF _ this] e Cons.prems(1) show ?case unfolding s by simp
qed

definition idle :: "pending \<Rightarrow> string \<Rightarrow> bool" where
  "idle p t = (case map_of p t of None \<Rightarrow> True | Some b \<Rightarrow> pendingRows b = 0)"

lemma flushTable_idle:
  assumes "flushTable cfg k t (p, c) = (p', c')"
  shows "idle p' t" "idle p u \<Longrightarrow> idle p' u"
proof -
  show t: "idle p' t" using flushTable_effect(5) [OF assms] by (auto simp: idle_def newPendingBatch_def)
  show "idle p u \<Longrightarrow> idle p' u" using t flushTable_effect(6) [OF assms, of u] by (cases "u = t") (simp_all add: idle_def)
qed

lemma fold_flushTable_idle:
  "t \<in> set names \<or> idle (fst s) t \<Longrightarrow> idle (fst (fold (flushTable cfg k) names s)) t"
proof (induction names arbitrary: s)
  case Nil
  then show ?case by simp
next
  case (Cons u names)
  obtain p c where s: "s = (p, c)" by fastforce
  obtain p' c' where f: "flushTable cfg k u (p, c) = (p', c')" by fastforce
  have "t \<in> set names \<or> idle p' t" using Cons.prems flushTable_idle(1) [OF f] flushTable_idle(2) [OF f, of t] unfolding s by auto
  with Cons.IH [of "(p', c')"] show ?case unfolding s by (simp add: f)
qed

lemma flushAll_idle: "idle (fst (flushAll cfg k order s)) t"
proof -
  have "t \<in> set (flushOrder order (fst s)) \<or> idle (fst s) t"
    by (auto simp: flushOrder_def idle_def Let_def map_of_eq_None_iff split: option.splits)
      (auto simp: map_of_eq_None_iff rev_image_eqI dest: map_of_SomeD)
  then show ?thesis unfolding flushAll_def by (rule fold_flushTable_idle)
qed

text \<open>When every table of a well-formed worker is idle, no row is pending.\<close>

lemma wf_idle_empty:
  assumes "wf_pendings p" "\<And>t. idle p t" "(t, b) \<in> set p"
  shows "pendingBody b = []" "pendingRows b = 0"
proof -
  have "map_of p t = Some b" using assms(1,3) by (simp add: wf_pendings_def)
  with assms(2) [of t] show rows: "pendingRows b = 0" by (simp add: idle_def)
  have "wf_pending b" using assms(1,3) by (force simp: wf_pendings_def)
  with rows show "pendingBody b = []" by (auto simp: wf_pending_def)
qed

section \<open>Insert turns\<close>

lemma httpRequest_frame:
  assumes "httpRequest req c = (r, c')"
  shows "batches c' = batches c \<and> outcomes c' = outcomes c \<and> tracker c' = tracker c \<and> totals c' = totals c"
  using assms by (auto simp: httpRequest_def Let_def split: prod.splits option.splits)

lemma ensureTable_frame:
  assumes "ensureClickHouseTable t c = (r, c')"
  shows "batches c' = batches c \<and> outcomes c' = outcomes c \<and> tracker c' = tracker c \<and> totals c' TotalParsed = totals c TotalParsed"
  using assms by (auto simp: ensureClickHouseTable_def split: prod.splits option.splits if_splits dest!: httpRequest_frame)

lemma insertBatch_frame:
  assumes "insertBatchToClickHouse cfg b c = (r, c')"
  shows "batches c' = batches c \<and> outcomes c' = outcomes c \<and> tracker c' = tracker c \<and> totals c' TotalParsed = totals c TotalParsed"
proof -
  obtain e c1 where 1: "ensureClickHouseTable (TableName b) c = (e, c1)" by fastforce
  show ?thesis
    using assms ensureTable_frame [OF 1] httpRequest_frame by (cases e) (fastforce simp: insertBatchToClickHouse_def 1)+
qed

lemma insertAttempts_effect:
  "insertAttempts cfg b n lastErr c = (r, c') \<Longrightarrow> 0 < n \<or> lastErr \<noteq> None \<Longrightarrow>
     batches c' = batches c \<and> (tracker c' = None \<longleftrightarrow> tracker c = None) \<and> totals c' TotalParsed = totals c TotalParsed
     \<and> outcomes c' = outcomes c @ (if r = None then [(InClickHouse, b)] else [])"
proof (induction n arbitrary: lastErr c)
  case 0
  then show ?case by auto
next
  case (Suc n)
  obtain e c1 where 1: "insertBatchToClickHouse cfg b c = (e, c1)" by fastforce
  note f1 = insertBatch_frame [OF 1]
  show ?case
  proof (cases e)
    case None
    let ?c2 = "settle InClickHouse b (addTotal TotalBatchesInserted 1 (addTotal TotalInserted (word_of_int (BatchRows b)) c1))"
    obtain now c3 where 3: "readSecond ?c2 = (now, c3)" by fastforce
    have "batches c3 = batches c1" "outcomes c3 = outcomes c1 @ [(InClickHouse, b)]" "tracker c3 = tracker c1" "totals c3 TotalParsed = totals c1 TotalParsed"
      using transit_frame(10-12,15) [of ?c2] unfolding 3 by simp_all
    moreover have "r = None" "c' = (if tracker c1 = None then ?c2
        else track (\<lambda>t. recordInserted t (Cohorts b) (CohortShard b) now) c3)"
      using Suc.prems(1) by (auto simp: 1 None 3 Let_def split: if_splits)
    ultimately show ?thesis using f1 by simp
  next
    case (Some x)
    with Suc.prems 1 have "insertAttempts cfg b n (Some x) c1 = (r, c')" by simp
    from Suc.IH [OF this] f1 show ?thesis by simp
  qed
qed

lemma handleBatch_effect:
  assumes "0 < insertMaxRetries cfg"
  shows "\<exists>how. outcomes (handleBatch cfg b c) = outcomes c @ [(how, b)] \<and> batches (handleBatch cfg b c) = batches c
    \<and> (tracker (handleBatch cfg b c) = None \<longleftrightarrow> tracker c = None)
    \<and> totals (handleBatch cfg b c) TotalParsed = totals c TotalParsed"
proof -
  obtain r c1 where 1: "insertAttempts cfg b (nat (insertMaxRetries cfg)) None c = (r, c1)" by fastforce
  note e = insertAttempts_effect [OF 1] assms
  show ?thesis
  proof (cases r)
    case None
    with e show ?thesis by (simp add: handleBatch_def 1)
  next
    case (Some err)
    let ?c2 = "addTotal TotalInsertDroppedRows (word_of_int (BatchRows b)) (addTotal TotalInsertErrors 1 c1)"
    from spoolBatch_effect [of cfg b err ?c2] e Some show ?thesis by (auto simp: handleBatch_def 1)
  qed
qed

lemma insertTurn_effect:
  assumes "0 < insertMaxRetries cfg"
  shows "sharedTotal weight (insertTurn cfg c) = sharedTotal weight c"
    and "tracker (insertTurn cfg c) = None \<longleftrightarrow> tracker c = None" "totals (insertTurn cfg c) TotalParsed = totals c TotalParsed"
    and "length (batches (insertTurn cfg c)) = length (batches c) - 1"
proof -
  have "sharedTotal weight (insertTurn cfg c) = sharedTotal weight c
      \<and> (tracker (insertTurn cfg c) = None \<longleftrightarrow> tracker c = None) \<and> totals (insertTurn cfg c) TotalParsed = totals c TotalParsed
      \<and> length (batches (insertTurn cfg c)) = length (batches c) - 1"
  proof (cases "batches c")
    case Nil
    then show ?thesis by (simp add: insertTurn_def)
  next
    case (Cons b rest)
    with handleBatch_effect [OF assms, of b "c\<lparr>batches := rest\<rparr>"] show ?thesis
      by (auto simp: insertTurn_def sharedTotal_def ac_simps)
  qed
  then show "sharedTotal weight (insertTurn cfg c) = sharedTotal weight c"
    and "tracker (insertTurn cfg c) = None \<longleftrightarrow> tracker c = None" "totals (insertTurn cfg c) TotalParsed = totals c TotalParsed"
    and "length (batches (insertTurn cfg c)) = length (batches c) - 1" by simp_all
qed

section \<open>Conservation\<close>

text \<open>The entries a packet adds to the pipeline.\<close>

definition entriesOf :: "collectorConfig \<Rightarrow> UDPPacket \<Rightarrow> (nat \<Rightarrow> u32) \<Rightarrow> NATLogEntry list" where
  "entriesOf cfg packet now =
     (case goSlice (Buffer packet) 0 (Length packet) \<bind> (\<lambda>data. parsePacket data (PacketRouterIPNum packet)
             (PacketRouterPort packet) (ReceivedUnixNano packet) now) of
        Some (Inr entries) \<Rightarrow> entries
      | _ \<Rightarrow> [])"

definition secondOf :: "UDPPacket \<Rightarrow> int" where
  "secondOf packet = goQuot (ReceivedUnixNano packet) 1000000000"

definition wf_pipeline :: "pipeline \<Rightarrow> bool" where
  "wf_pipeline s \<longleftrightarrow> (\<forall>k. wf_pendings (workerPending s k))"

fun turnWorkers :: "turn \<Rightarrow> int set" where
  "turnWorkers (PacketTurn k _ _) = {k}"
| "turnWorkers (FlushTurn k _) = {k}"
| "turnWorkers InsertTurn = {}"
| "turnWorkers (ReceiveTurn _ _ _) = {}"

text \<open>The rows a turn brings into the pipeline, each with its second of reception.\<close>

fun turnEntries :: "collectorConfig \<Rightarrow> turn \<Rightarrow> (int \<times> NATLogEntry) list" where
  "turnEntries cfg (PacketTurn k packet now) = map (Pair (secondOf packet)) (entriesOf cfg packet now)"
| "turnEntries cfg (FlushTurn k order) = []"
| "turnEntries cfg InsertTurn = []"
| "turnEntries cfg (ReceiveTurn _ _ _) = []"

definition arrived :: "collectorConfig \<Rightarrow> turn list \<Rightarrow> (int \<times> NATLogEntry) list" where
  "arrived cfg turns = concat (map (turnEntries cfg) turns)"

lemma arrived_simps [simp]:
  "arrived cfg [] = []" "arrived cfg (t # ts) = turnEntries cfg t @ arrived cfg ts"
  by (simp_all add: arrived_def)

lemma sum_fun_upd:
  fixes h :: "'p \<Rightarrow> 'm::comm_monoid_add"
  shows "distinct ids \<Longrightarrow> k \<in> set ids \<Longrightarrow> (\<Sum>j\<leftarrow>ids. h ((g(k := x)) j)) + h (g k) = (\<Sum>j\<leftarrow>ids. h (g j)) + h x"
proof (induction ids)
  case (Cons i ids)
  show ?case
  proof (cases "i = k")
    case True
    with Cons.prems have "(\<Sum>j\<leftarrow>ids. h ((g(k := x)) j)) = (\<Sum>j\<leftarrow>ids. h (g j))"
      by (intro arg_cong [of _ _ sum_list] map_cong) auto
    with True show ?thesis by (simp add: ac_simps)
  next
    case False
    with Cons show ?thesis by (simp add: ac_simps)
  qed
qed simp

lemma pipelineTotal_setWorker:
  fixes weight :: "string \<Rightarrow> pendingBatch \<Rightarrow> 'm::cancel_comm_monoid_add"
  assumes "distinct ids" "k \<in> set ids"
    and "pendingTotal weight (fst r) + sharedTotal weight (snd r) = pendingTotal weight (workerPending s k) + sharedTotal weight (shared s) + g"
  shows "pipelineTotal weight ids (setWorker k r s) = pipelineTotal weight ids s + g"
proof -
  let ?old = "pendingTotal weight (workerPending s k)"
  let ?sum = "\<lambda>w. \<Sum>j\<leftarrow>ids. pendingTotal weight (w j)"
  have moved: "?sum ((workerPending s)(k := fst r)) + ?old = ?sum (workerPending s) + pendingTotal weight (fst r)"
    using sum_fun_upd [OF assms(1,2), of "pendingTotal weight" "workerPending s" "fst r"] by simp
  have "?old + (?sum ((workerPending s)(k := fst r)) + sharedTotal weight (snd r))
      = (?sum ((workerPending s)(k := fst r)) + ?old) + sharedTotal weight (snd r)"
    by (simp only: ac_simps)
  also have "\<dots> = ?sum (workerPending s) + (pendingTotal weight (fst r) + sharedTotal weight (snd r))"
    unfolding moved by (rule add.assoc)
  also have "\<dots> = ?old + (?sum (workerPending s) + sharedTotal weight (shared s) + g)"
    unfolding assms(3) by (simp only: ac_simps)
  finally show ?thesis by (simp add: pipelineTotal_def setWorker_def)
qed

locale row_measure =
  fixes weight :: "string \<Rightarrow> pendingBatch \<Rightarrow> 'm::cancel_comm_monoid_add"
    and gain :: "bool \<Rightarrow> int \<Rightarrow> string \<Rightarrow> NATLogEntry \<Rightarrow> 'm"
  assumes empty: "weight t newPendingBatch = 0"
    and grow: "wf_pending b \<Longrightarrow> weight t (appendToBatch tracked sec e b) = weight t b + gain tracked sec t e"
begin

lemma appendEntry_total:
  assumes "appendEntry cfg k sec e (p, c) = (p', c')" "wf_pendings p"
  shows "wf_pendings p' \<and> (tracker c' = None \<longleftrightarrow> tracker c = None) \<and> totals c' TotalParsed = totals c TotalParsed + 1
    \<and> pendingTotal weight p' + sharedTotal weight c'
      = pendingTotal weight p + sharedTotal weight c + gain (tracker c \<noteq> None) sec (tableOf cfg e) e"
proof -
  let ?t = "tableOf cfg e"
  let ?old = "case map_of p ?t of None \<Rightarrow> newPendingBatch | Some b \<Rightarrow> b"
  let ?b = "appendToBatch (tracker c \<noteq> None) sec e ?old"
  let ?p = "AList.update ?t ?b p" and ?c = "addTotal TotalParsed 1 c"
  have "wf_pending ?old" using assms(2) by (force simp: wf_pendings_def split: option.splits dest: map_of_SomeD)
  then have wf: "wf_pendings ?p" and w: "weight ?t ?b = weight ?t ?old + gain (tracker c \<noteq> None) sec ?t e"
    using assms(2) by (auto intro: wf_pendings_update wf_append simp: grow)
  have "pendingTotal weight ?p + weight ?t ?old = pendingTotal weight p + weight ?t ?b"
    using sum_update [of p "\<lambda>(t, b). weight t b" ?t ?b] assms(2)
    by (cases "map_of p ?t") (simp_all add: wf_pendings_def pendingTotal_def empty)
  then have "weight ?t ?old + pendingTotal weight ?p = weight ?t ?old + (pendingTotal weight p + gain (tracker c \<noteq> None) sec ?t e)"
    unfolding w by (simp only: ac_simps)
  then have total: "pendingTotal weight ?p = pendingTotal weight p + gain (tracker c \<noteq> None) sec ?t e" by (rule add_left_imp_eq)
  show ?thesis
  proof (cases "pendingRows ?b \<ge> insertBatchRows cfg \<or> int (length (pendingBody ?b)) \<ge> insertBatchBytes cfg")
    case True
    with assms(1) have f: "flushTable cfg k ?t (?p, ?c) = (p', c')" by (simp add: appendEntry_alt Let_def)
    from flushTable_effect(1-3) [OF f] flushTable_effect(4) [OF f, where weight = weight, OF empty] wf total
    show ?thesis by (simp add: ac_simps)
  next
    case False
    with assms(1) have "p' = ?p" "c' = ?c" by (auto simp: appendEntry_alt Let_def)
    with wf total show ?thesis by (simp add: ac_simps)
  qed
qed

lemma entries_total:
  assumes "fold (appendEntry cfg k sec) es (p, c) = (p', c')" "wf_pendings p"
  shows "wf_pendings p' \<and> (tracker c' = None \<longleftrightarrow> tracker c = None) \<and> totals c' TotalParsed = totals c TotalParsed + of_nat (length es)
    \<and> pendingTotal weight p' + sharedTotal weight c'
      = pendingTotal weight p + sharedTotal weight c + (\<Sum>e\<leftarrow>es. gain (tracker c \<noteq> None) sec (tableOf cfg e) e)"
  using assms
proof (induction es arbitrary: p c)
  case Nil
  then show ?case by simp
next
  case (Cons e es)
  obtain p1 c1 where 1: "appendEntry cfg k sec e (p, c) = (p1, c1)" by fastforce
  from Cons.prems(1) 1 have 2: "fold (appendEntry cfg k sec) es (p1, c1) = (p', c')" by simp
  note e1 = appendEntry_total [OF 1 Cons.prems(2)]
  from e1 have "wf_pendings p1" by simp
  from Cons.IH [OF 2 this] e1 show ?case by (simp add: ac_simps)
qed

lemma packetTurn_total:
  assumes "packetTurn cfg k packet now (p, c) = Some (p', c')" "wf_pendings p"
  shows "wf_pendings p' \<and> (tracker c' = None \<longleftrightarrow> tracker c = None)
    \<and> totals c' TotalParsed = totals c TotalParsed + of_nat (length (entriesOf cfg packet now))
    \<and> (\<not> parseOnly cfg \<longrightarrow> pendingTotal weight p' + sharedTotal weight c'
      = pendingTotal weight p + sharedTotal weight c
        + (\<Sum>e\<leftarrow>entriesOf cfg packet now. gain (tracker c \<noteq> None) (secondOf packet) (tableOf cfg e) e))"
proof -
  obtain bs parsed where slice: "goSlice (Buffer packet) 0 (Length packet) = Some bs"
    and parse: "parsePacket bs (PacketRouterIPNum packet) (PacketRouterPort packet) (ReceivedUnixNano packet) now = Some parsed"
    and run: "handleParsed cfg k packet parsed (p, c) = (p', c')"
    using assms(1) by (auto simp: packetTurn_def split: Option.bind_splits)
  show ?thesis
  proof (cases parsed)
    case (Inl e)
    with run have "p' = p" "c' = addTotal TotalPacketProcessed 1 (track (\<lambda>t. recordParseResult t (goQuot (ReceivedUnixNano packet) 1000000000)
        (packetWorkerShard cfg k) False 0) (addTotal TotalParseErrors 1 c))"
      by (simp_all add: handleParsed_def Let_def)
    with assms(2) show ?thesis by (simp add: entriesOf_def slice parse Inl)
  next
    case (Inr es)
    let ?c = "track (\<lambda>t. recordParseResult t (secondOf packet) (packetWorkerShard cfg k) True (of_nat (length es))) c"
    have es: "entriesOf cfg packet now = es" by (simp add: entriesOf_def slice parse Inr)
    show ?thesis
    proof (cases "parseOnly cfg")
      case True
      with run Inr have "p' = p" "c' = addTotal TotalPacketProcessed 1 (addTotal TotalParsed (of_nat (length es)) ?c)"
        by (simp_all add: handleParsed_def secondOf_def Let_def)
      with assms(2) True es show ?thesis by simp
    next
      case False
      obtain p1 c1 where 1: "fold (appendEntry cfg k (secondOf packet)) es (p, ?c) = (p1, c1)" by fastforce
      with run Inr False have "p' = p1" "c' = addTotal TotalPacketProcessed 1 c1"
        by (simp_all add: handleParsed_def secondOf_def Let_def split: prod.splits)
      with entries_total [OF 1 assms(2)] es show ?thesis by simp
    qed
  qed
qed

lemma takeTurn_total:
  assumes "takeTurn cfg t s = Some s'" "wf_pipeline s" "distinct ids" "turnWorkers t \<subseteq> set ids"
    and cfg: "0 < insertMaxRetries cfg" "\<not> parseOnly cfg"
  shows "wf_pipeline s' \<and> (tracker (shared s') = None \<longleftrightarrow> tracker (shared s) = None)
    \<and> totals (shared s') TotalParsed = totals (shared s) TotalParsed + of_nat (length (turnEntries cfg t))
    \<and> pipelineTotal weight ids s' = pipelineTotal weight ids s
      + (\<Sum>(sec, e)\<leftarrow>turnEntries cfg t. gain (tracker (shared s) \<noteq> None) sec (tableOf cfg e) e)"
proof (cases t)
  case (PacketTurn k packet now)
  with assms(1) obtain p c where run: "packetTurn cfg k packet now (workerPending s k, shared s) = Some (p, c)"
    and s': "s' = setWorker k (p, c) s" by auto
  have "wf_pendings (workerPending s k)" using assms(2) by (simp add: wf_pipeline_def)
  note e = packetTurn_total [OF run this]
  have "pipelineTotal weight ids s' = pipelineTotal weight ids s
      + (\<Sum>e\<leftarrow>entriesOf cfg packet now. gain (tracker (shared s) \<noteq> None) (secondOf packet) (tableOf cfg e) e)"
    unfolding s' using assms(3,4) PacketTurn e cfg by (intro pipelineTotal_setWorker) simp_all
  with e assms(2) PacketTurn show ?thesis by (simp add: s' wf_pipeline_def setWorker_def comp_def)
next
  case (FlushTurn k order)
  obtain p c where run: "fold (flushTable cfg k) (flushOrder order (workerPending s k)) (workerPending s k, shared s) = (p, c)" by fastforce
  with assms(1) FlushTurn have s': "s' = setWorker k (p, c) s" by (simp add: flushAll_def)
  have "wf_pendings (workerPending s k)" using assms(2) by (simp add: wf_pipeline_def)
  then have e: "wf_pendings p" "tracker c = None \<longleftrightarrow> tracker (shared s) = None" "totals c TotalParsed = totals (shared s) TotalParsed"
    "pendingTotal weight p + sharedTotal weight c = pendingTotal weight (workerPending s k) + sharedTotal weight (shared s)"
    using fold_flushTable [where weight = weight, OF empty _ run] by simp_all
  have "pipelineTotal weight ids s' = pipelineTotal weight ids s + 0"
    unfolding s' using assms(3,4) FlushTurn e by (intro pipelineTotal_setWorker) simp_all
  with e assms(2) FlushTurn show ?thesis by (simp add: s' wf_pipeline_def setWorker_def)
next
  case InsertTurn
  with assms(1,2) insertTurn_effect(1) [OF cfg(1), of weight "shared s"] insertTurn_effect(2,3) [OF cfg(1), of "shared s"]
  show ?thesis by (auto simp: wf_pipeline_def pipelineTotal_def)
next
  case (ReceiveTurn r sec d)
  with assms(1,2) show ?thesis by (auto simp: wf_pipeline_def pipelineTotal_def)
qed

lemma takeTurns_total:
  assumes "takeTurns cfg turns s = Some s'" "wf_pipeline s" "distinct ids" "\<forall>t \<in> set turns. turnWorkers t \<subseteq> set ids"
    and cfg: "0 < insertMaxRetries cfg" "\<not> parseOnly cfg"
  shows "wf_pipeline s' \<and> (tracker (shared s') = None \<longleftrightarrow> tracker (shared s) = None)
    \<and> totals (shared s') TotalParsed = totals (shared s) TotalParsed + of_nat (length (arrived cfg turns))
    \<and> pipelineTotal weight ids s' = pipelineTotal weight ids s
      + (\<Sum>(sec, e)\<leftarrow>arrived cfg turns. gain (tracker (shared s) \<noteq> None) sec (tableOf cfg e) e)"
  using assms(1,2,4)
proof (induction turns arbitrary: s)
  case Nil
  then show ?case by simp
next
  case (Cons t turns)
  from Cons.prems(1) obtain s1 where 1: "takeTurn cfg t s = Some s1" and 2: "takeTurns cfg turns s1 = Some s'"
    by (auto split: Option.bind_splits)
  from Cons.prems(3) have "turnWorkers t \<subseteq> set ids" by simp
  note e = takeTurn_total [OF 1 Cons.prems(2) assms(3) this cfg]
  from e have "wf_pipeline s1" by simp
  from Cons.IH [OF 2 this] Cons.prems(3) e show ?case by (simp add: ac_simps)
qed

end

end
