(* ===== verification/Conservation.thy ===== *)
theory Conservation
  imports Pipeline
begin

text \<open>
  The three quantities the pipeline conserves, as interpretations of \<open>row_measure\<close>, and the
  guarantees that follow: no row is lost or duplicated on its way, an orderly shutdown leaves
  nothing behind, the counters add up, and ClickHouse acknowledged exactly the batches counted as
  inserted.
\<close>

section \<open>The measures\<close>

text \<open>The rows of a body, as a reader of the table would see them, with their table.\<close>

definition rowsOfBody :: "bytes \<Rightarrow> row list" where
  "rowsOfBody body = (case decodeChunks rowSize readRow (length body div rowSize) body of None \<Rightarrow> [] | Some rows \<Rightarrow> rows)"

definition rowsIn :: "string \<Rightarrow> pendingBatch \<Rightarrow> (string \<times> row) multiset" where
  "rowsIn t b = mset (map (Pair t) (rowsOfBody (pendingBody b)))"

definition rowCount :: "string \<Rightarrow> pendingBatch \<Rightarrow> u64" where
  "rowCount t b = word_of_int (pendingRows b)"

definition cohortCount :: "int \<Rightarrow> string \<Rightarrow> pendingBatch \<Rightarrow> u64" where
  "cohortCount q t b = cohortRows (pendingCohorts b) q"

lemma rowsOfBody_concat: "rowsOfBody (concat (map (appendRowBinaryEvent []) es)) = map rowOf es"
  using row_codec.decode_body [of es] by (simp add: rowsOfBody_def row_codec.rows_of_body)

interpretation rows: row_measure rowsIn "\<lambda>tracked sec t e. {#(t, rowOf e)#}"
proof
  show "rowsIn t newPendingBatch = 0" for t
    using rowsOfBody_concat [of "[]"] by (simp add: rowsIn_def newPendingBatch_def)
next
  fix b t tracked sec e
  assume "wf_pending b"
  then obtain es where es: "pendingBody b = concat (map (appendRowBinaryEvent []) es)" by (auto simp: wf_pending_def)
  then have "appendRowBinaryEvent (pendingBody b) e = concat (map (appendRowBinaryEvent []) (es @ [e]))"
    by (subst appendRowBinaryEvent_append) simp
  with es show "rowsIn t (appendToBatch tracked sec e b) = rowsIn t b + {#(t, rowOf e)#}"
    by (simp only: rowsIn_def appendToBatch_def pendingBatch.select_convs rowsOfBody_concat) simp
qed

interpretation row_count: row_measure rowCount "\<lambda>tracked sec t e. 1"
  by unfold_locales (simp_all add: rowCount_def newPendingBatch_def appendToBatch_def)

interpretation cohort_count: row_measure "cohortCount q" "\<lambda>tracked sec t e. if tracked \<and> sec = q then 1 else 0" for q
  by unfold_locales (simp_all add: cohortCount_def newPendingBatch_def appendToBatch_def addInsertCohort_rows)

section \<open>Rows\<close>

definition fresh_pipeline :: "pipeline \<Rightarrow> bool" where
  "fresh_pipeline s \<longleftrightarrow> (\<forall>k. workerPending s k = []) \<and> batches (shared s) = [] \<and> outcomes (shared s) = []"

lemma fresh_total:
  assumes "fresh_pipeline s"
  shows "wf_pipeline s" "pipelineTotal weight ids s = 0"
  using assms by (simp_all add: fresh_pipeline_def wf_pipeline_def wf_pendings_def pipelineTotal_def pendingTotal_def sharedTotal_def)

definition arrivedRows :: "collectorConfig \<Rightarrow> turn list \<Rightarrow> (string \<times> row) multiset" where
  "arrivedRows cfg turns = mset (map (\<lambda>(sec, e). (tableOf cfg e, rowOf e)) (arrived cfg turns))"

lemma sum_singletons: "(\<Sum>x\<leftarrow>xs. {#f x#}) = mset (map f xs)"
  by (induction xs) auto

lemma run_rows:
  assumes "takeTurns cfg turns s = Some s'" "fresh_pipeline s" "distinct ids" "\<forall>t \<in> set turns. turnWorkers t \<subseteq> set ids"
    and "validateConfig cfg = Inr offsets" "\<not> parseOnly cfg"
  shows "wf_pipeline s'" "pipelineTotal rowsIn ids s' = arrivedRows cfg turns"
    "totals (shared s') TotalParsed = totals (shared s) TotalParsed + of_nat (length (arrived cfg turns))"
    "tracker (shared s') = None \<longleftrightarrow> tracker (shared s) = None"
proof -
  have "0 < insertMaxRetries cfg" using validated_positive [OF assms(5)] by simp
  from rows.takeTurns_total [OF assms(1) fresh_total(1) [OF assms(2)] assms(3,4) this assms(6)] fresh_total(2) [OF assms(2)]
  show "wf_pipeline s'" "pipelineTotal rowsIn ids s' = arrivedRows cfg turns"
    "totals (shared s') TotalParsed = totals (shared s) TotalParsed + of_nat (length (arrived cfg turns))"
    "tracker (shared s') = None \<longleftrightarrow> tracker (shared s) = None"
    by (auto simp: arrivedRows_def sum_singletons case_prod_unfold)
qed

text \<open>No turn panics when the packets lie inside their buffers.\<close>

definition packets_fit :: "turn list \<Rightarrow> bool" where
  "packets_fit turns \<longleftrightarrow> (\<forall>t \<in> set turns. case t of PacketTurn k packet now \<Rightarrow> Length packet \<le> length (Buffer packet) | _ \<Rightarrow> True)"

lemma turns_never_panic: "packets_fit turns \<Longrightarrow> \<exists>s'. takeTurns cfg turns s = Some s'"
proof (induction turns arbitrary: s)
  case Nil
  then show ?case by simp
next
  case (Cons t turns)
  have "\<exists>s1. takeTurn cfg t s = Some s1"
  proof (cases t)
    case (PacketTurn k packet now)
    with Cons.prems show ?thesis
      by (auto simp: packets_fit_def packetTurn_def slice_simps parsePacket_eq)
  qed simp_all
  with Cons show ?case by (auto simp: packets_fit_def)
qed

lemma count_second:
  "(\<Sum>(sec, e)\<leftarrow>es. if tracked \<noteq> None \<and> sec = q then 1 else 0)
    = (if tracked = None then 0 else of_nat (length (filter (\<lambda>(sec, e). sec = q) es)) :: u64)"
  by (induction es) auto

lemma run_cohorts:
  assumes "takeTurns cfg turns s = Some s'" "fresh_pipeline s" "distinct ids" "\<forall>t \<in> set turns. turnWorkers t \<subseteq> set ids"
    and "validateConfig cfg = Inr offsets" "\<not> parseOnly cfg"
  shows "pipelineTotal (cohortCount q) ids s'
    = (if tracker (shared s) = None then 0 else of_nat (length (filter (\<lambda>(sec, e). sec = q) (arrived cfg turns))))"
proof -
  have "0 < insertMaxRetries cfg" using validated_positive [OF assms(5)] by simp
  from cohort_count.takeTurns_total [OF assms(1) fresh_total(1) [OF assms(2)] assms(3,4) this assms(6), of q]
    fresh_total(2) [OF assms(2)]
  have "pipelineTotal (cohortCount q) ids s'
      = (\<Sum>(sec, e)\<leftarrow>arrived cfg turns. if tracker (shared s) \<noteq> None \<and> sec = q then 1 else 0)" by simp
  also have "\<dots> = (if tracker (shared s) = None then 0 else of_nat (length (filter (\<lambda>(sec, e). sec = q) (arrived cfg turns))))"
    by (rule count_second)
  finally show ?thesis .
qed

text \<open>
  C1. The pipeline neither loses nor duplicates a row.  Let any number of packet
  workers and insert workers take turns in any order, on any packets, with the channel refusing or
  taking batches, ClickHouse failing and the disk failing as they may: no turn panics, and at any
  moment the rows pending at the workers, waiting in the channel, and in the batches that left
  (inserted, spooled, or reported lost because spooling failed), decoded from the bytes as the
  table's reader would, are together exactly the rows of the packets parsed so far, each in the
  table of its day and as often as it arrived.  With alerting on, the cohorts the batches carry
  attribute them to their seconds of reception: per second as many rows as arrived in it.
\<close>

theorem rows_conserved:
  assumes "validateConfig cfg = Inr offsets" "\<not> parseOnly cfg" "fresh_pipeline s" "packets_fit turns"
    and "distinct ids" "\<forall>t \<in> set turns. turnWorkers t \<subseteq> set ids"
  shows "\<exists>s'. takeTurns cfg turns s = Some s'
    \<and> (\<Sum>k\<leftarrow>ids. pendingTotal rowsIn (workerPending s' k)) + batchesTotal rowsIn (batches (shared s'))
      + batchesTotal rowsIn (map snd (outcomes (shared s'))) = arrivedRows cfg turns
    \<and> (\<forall>q. pipelineTotal (cohortCount q) ids s' = (if tracker (shared s) = None then 0
        else of_nat (length (filter (\<lambda>(sec, e). sec = q) (arrived cfg turns)))))"
proof -
  obtain s' where run: "takeTurns cfg turns s = Some s'" using turns_never_panic [OF assms(4)] by blast
  from run_rows(2) [OF run assms(3,5,6,1,2)] run_cohorts [OF run assms(3,5,6,1,2)] run show ?thesis
    by (simp add: pipelineTotal_def [of rowsIn] sharedTotal_def add.assoc)
qed

text \<open>One legacy packet of 42 bytes, and a run in which it is batched, flushed and inserted.\<close>

definition example_packet :: UDPPacket where
  "example_packet = \<lparr>Buffer = replicate 512 1, Length = 42, PacketRouterIP = ''10.0.0.1'', PacketRouterIPNum = 167772161,
     PacketRouterPort = 2055, ReceivedUnixNano = 1753142399000000000\<rparr>"

definition example_turns :: "turn list" where
  "example_turns = [PacketTurn 1 example_packet (\<lambda>_. 0), InsertTurn, FlushTurn 1 [], InsertTurn]"

lemma example_assumptions:
  "validateConfig (loadConfig 8 emptyEnv) = Inr [20, 36]" "\<not> parseOnly (loadConfig 8 emptyEnv)"
  "fresh_pipeline (newPipeline example_collector)" "packets_fit example_turns"
  "\<forall>t \<in> set example_turns. turnWorkers t \<subseteq> set [1]"
proof -
  show "validateConfig (loadConfig 8 emptyEnv) = Inr [20, 36]" using default_validates by blast
  show "\<not> parseOnly (loadConfig 8 emptyEnv)" by (simp add: loadConfig_def Let_def)
qed (simp_all add: fresh_pipeline_def newPipeline_def example_collector_def packets_fit_def example_turns_def example_packet_def)

theorem rows_conserved_witness:
  "\<exists>s'. takeTurns (loadConfig 8 emptyEnv) example_turns (newPipeline example_collector) = Some s'
    \<and> pendingTotal rowsIn (workerPending s' 1) + batchesTotal rowsIn (batches (shared s'))
      + batchesTotal rowsIn (map snd (outcomes (shared s'))) = arrivedRows (loadConfig 8 emptyEnv) example_turns"
  using rows_conserved [OF example_assumptions(1-4) _ example_assumptions(5)] by (auto simp: add.assoc)

section \<open>Shutdown\<close>

lemma arrived_append [simp]: "arrived cfg (xs @ ys) = arrived cfg xs @ arrived cfg ys"
  by (induction xs) auto

lemma takeTurns_append: "takeTurns cfg (xs @ ys) s = takeTurns cfg xs s \<bind> takeTurns cfg ys"
proof (induction xs arbitrary: s)
  case (Cons t xs)
  then show ?case by (cases "takeTurn cfg t s") simp_all
qed simp

definition flushTurns :: "(int \<times> string list) list \<Rightarrow> turn list" where
  "flushTurns orders = map (\<lambda>(k, order). FlushTurn k order) orders"

lemma arrived_flush [simp]: "arrived cfg (flushTurns orders) = []" "arrived cfg (replicate n InsertTurn) = []"
  by (induction orders) (auto simp: flushTurns_def, induction n, auto)

definition idleWorker :: "pipeline \<Rightarrow> int \<Rightarrow> bool" where
  "idleWorker s k \<longleftrightarrow> (\<forall>t. idle (workerPending s k) t)"

lemma flushTurns_idle:
  "takeTurns cfg (flushTurns orders) s = Some s' \<Longrightarrow> k \<in> fst ` set orders \<or> idleWorker s k \<Longrightarrow> idleWorker s' k"
proof (induction orders arbitrary: s)
  case Nil
  then show ?case by (simp add: flushTurns_def)
next
  case (Cons o1 orders)
  obtain j order where o1: "o1 = (j, order)" by fastforce
  obtain p c where f: "flushAll cfg j order (workerPending s j, shared s) = (p, c)" by fastforce
  have rest: "takeTurns cfg (flushTurns orders) (setWorker j (p, c) s) = Some s'"
    using Cons.prems(1) by (simp add: flushTurns_def o1 f)
  have "idleWorker (setWorker j (p, c) s) j"
    using flushAll_idle [of cfg j order "(workerPending s j, shared s)"] by (simp add: idleWorker_def setWorker_def f)
  with Cons.IH [OF rest] Cons.prems(2) show ?case
    by (cases "k = j") (auto simp: o1 idleWorker_def setWorker_def)
qed

lemma drain:
  assumes "0 < insertMaxRetries cfg"
  shows "\<exists>s'. takeTurns cfg (replicate (length (batches (shared s))) InsertTurn) s = Some s'
    \<and> batches (shared s') = [] \<and> workerPending s' = workerPending s"
proof (induction "length (batches (shared s))" arbitrary: s)
  case 0
  then show ?case by (metis length_0_conv replicate_0 takeTurns.simps(1))
next
  case (Suc n)
  let ?s = "s\<lparr>shared := insertTurn cfg (shared s)\<rparr>"
  have "n = length (batches (shared ?s))" using Suc.hyps(2) insertTurn_effect(4) [OF assms, of "shared s"] by simp
  with Suc.hyps(1) [of ?s] Suc.hyps(2) [symmetric] show ?case by simp
qed

lemma zero_sum: "(\<And>x. x \<in> set xs \<Longrightarrow> x = 0) \<Longrightarrow> sum_list xs = (0 :: 'm::comm_monoid_add)"
  by (induction xs) auto

lemma idle_total:
  assumes "wf_pipeline s" "idleWorker s k"
  shows "pendingTotal rowsIn (workerPending s k) = 0"
proof -
  have "x = 0" if "x \<in> set (map (\<lambda>(t, b). rowsIn t b) (workerPending s k))" for x
  proof -
    from that obtain t b where tb: "(t, b) \<in> set (workerPending s k)" "x = rowsIn t b" by auto
    have "pendingBody b = []"
      using assms by (intro wf_idle_empty(1) [OF _ _ tb(1)]) (simp_all add: wf_pipeline_def idleWorker_def)
    with tb(2) rowsOfBody_concat [of "[]"] show ?thesis by (simp add: rowsIn_def)
  qed
  then show ?thesis unfolding pendingTotal_def by (rule zero_sum)
qed

text \<open>
  The orderly shutdown of \<open>main\<close> ends and leaves no row behind: when the packet
  channel is closed every packet worker flushes all its tables, and after finitely many turns of the
  insert workers the channel is empty, nothing is pending, and the batches that left hold exactly
  the rows of all packets parsed since the start.
\<close>

theorem shutdown_drains:
  assumes "validateConfig cfg = Inr offsets" "\<not> parseOnly cfg" "fresh_pipeline s" "packets_fit turns"
    and "distinct (map fst orders)" "\<forall>t \<in> set turns. turnWorkers t \<subseteq> fst ` set orders"
  shows "\<exists>n s'. takeTurns cfg (turns @ flushTurns orders @ replicate n InsertTurn) s = Some s'
    \<and> batches (shared s') = [] \<and> (\<forall>k \<in> fst ` set orders. idleWorker s' k)
    \<and> batchesTotal rowsIn (map snd (outcomes (shared s'))) = arrivedRows cfg turns"
proof -
  have retries: "0 < insertMaxRetries cfg" using validated_positive [OF assms(1)] by simp
  have fit: "packets_fit (turns @ flushTurns orders)" using assms(4) by (auto simp: packets_fit_def flushTurns_def)
  obtain s1 where 1: "takeTurns cfg turns s = Some s1" using turns_never_panic [OF assms(4)] by blast
  obtain s2 where 2: "takeTurns cfg (flushTurns orders) s1 = Some s2"
    using turns_never_panic [of "flushTurns orders" cfg s1] fit by (auto simp: packets_fit_def)
  obtain s3 where 3: "takeTurns cfg (replicate (length (batches (shared s2))) InsertTurn) s2 = Some s3"
    and empty: "batches (shared s3) = []" "workerPending s3 = workerPending s2"
    using drain [OF retries] by blast
  let ?n = "length (batches (shared s2))"
  have run: "takeTurns cfg (turns @ flushTurns orders @ replicate ?n InsertTurn) s = Some s3"
    by (simp add: takeTurns_append 1 2 3)
  have ids: "\<forall>t \<in> set (turns @ flushTurns orders @ replicate ?n InsertTurn). turnWorkers t \<subseteq> set (map fst orders)"
  proof
    fix t
    assume "t \<in> set (turns @ flushTurns orders @ replicate ?n InsertTurn)"
    then consider "t \<in> set turns" | "t \<in> set (flushTurns orders)" | "t = InsertTurn" by auto
    then show "turnWorkers t \<subseteq> set (map fst orders)"
      using assms(6) by cases (auto simp: flushTurns_def rev_image_eqI)
  qed
  note total = run_rows [OF run assms(3,5) ids assms(1,2)]
  have idle: "\<forall>k \<in> fst ` set orders. idleWorker s3 k"
    using flushTurns_idle [OF 2] empty(2) by (auto simp: idleWorker_def)
  have "(\<Sum>k\<leftarrow>map fst orders. pendingTotal rowsIn (workerPending s3 k)) = 0"
    by (rule zero_sum) (use idle idle_total [OF total(1)] in auto)
  then have "batchesTotal rowsIn (map snd (outcomes (shared s3))) = arrivedRows cfg turns"
    using total(2) empty(1) by (simp only: pipelineTotal_def sharedTotal_def) (simp add: arrivedRows_def)
  with run empty idle show ?thesis by blast
qed

theorem shutdown_drains_witness:
  "\<exists>n s'. takeTurns (loadConfig 8 emptyEnv) (example_turns @ flushTurns [(1, [])] @ replicate n InsertTurn)
      (newPipeline example_collector) = Some s'
    \<and> batches (shared s') = [] \<and> idleWorker s' 1
    \<and> batchesTotal rowsIn (map snd (outcomes (shared s'))) = arrivedRows (loadConfig 8 emptyEnv) example_turns"
  using shutdown_drains [OF example_assumptions(1-4), of "[(1, [])]"] example_assumptions(5) by simp

end
