(* ===== verification/Ledger.thy ===== *)
theory Ledger
  imports Conservation
begin

text \<open>
  The counters of the collector against what happened to the batches: an invariant of the shared
  state that every turn keeps, whatever fails.
\<close>

section \<open>The invariant\<close>

definition rowsOut :: "settlement \<Rightarrow> (settlement \<times> InsertBatch) list \<Rightarrow> u64" where
  "rowsOut how os = (\<Sum>(h, b)\<leftarrow>os. if h = how then word_of_int (BatchRows b) else 0)"

definition insertedBatches :: "(settlement \<times> InsertBatch) list \<Rightarrow> InsertBatch list" where
  "insertedBatches os = map snd (filter (\<lambda>(h, b). h = InClickHouse) os)"

definition isInsertRequest :: "request \<Rightarrow> bool" where
  "isInsertRequest req = (case req of InsertRows _ _ \<Rightarrow> True | CreateTable _ \<Rightarrow> False)"

definition insertRequest :: "collectorConfig \<Rightarrow> InsertBatch \<Rightarrow> request" where
  "insertRequest cfg b = InsertRows (clickHouseInsertURL (clickhouseURL cfg) (TableName b)) (Body b)"

definition tableRequest :: "string \<Rightarrow> request" where
  "tableRequest t = CreateTable (clickHouseCreateTableDDL t)"

text \<open>The part of the shared state the invariant reads.\<close>

definition view :: "collector \<Rightarrow> u64 \<times> u64 \<times> u64 \<times> (settlement \<times> InsertBatch) list \<times> request list \<times> string list" where
  "view c = (totals c TotalInserted, totals c TotalInsertDroppedRows + totals c TotalLiveSkippedRows,
     totals c TotalFailedRowsSpooled, outcomes c, served c, createdTables c)"

definition ledger :: "collectorConfig \<Rightarrow> collector \<Rightarrow> bool" where
  "ledger cfg c = (case view c of (inserted, skipped, spooled, os, requests, tables) \<Rightarrow>
     inserted = rowsOut InClickHouse os \<and> skipped = rowsOut OnDisk os + rowsOut SpoolLost os \<and> spooled = rowsOut OnDisk os
     \<and> filter isInsertRequest requests = map (insertRequest cfg) (insertedBatches os)
     \<and> (\<forall>t \<in> set tables. tableRequest t \<in> set requests)
     \<and> (\<forall>b \<in> set (insertedBatches os). tableRequest (TableName b) \<in> set requests))"

lemma rowsOut_simps [simp]:
  "rowsOut how [] = 0" "rowsOut how ((h, b) # os) = (if h = how then word_of_int (BatchRows b) else 0) + rowsOut how os"
  "rowsOut how (os @ ps) = rowsOut how os + rowsOut how ps"
  by (simp_all add: rowsOut_def)

lemma insertedBatches_simps [simp]:
  "insertedBatches [] = []" "insertedBatches ((h, b) # os) = (if h = InClickHouse then b # insertedBatches os else insertedBatches os)"
  "insertedBatches (os @ ps) = insertedBatches os @ insertedBatches ps"
  by (simp_all add: insertedBatches_def)

lemma isInsertRequest_simps [simp]:
  "isInsertRequest (insertRequest cfg b)" "\<not> isInsertRequest (tableRequest t)"
  by (simp_all add: isInsertRequest_def insertRequest_def tableRequest_def)

lemma ledger_view: "view c' = view c \<Longrightarrow> ledger cfg c' = ledger cfg c"
  by (simp add: ledger_def)

text \<open>The helpers that leave the view alone.\<close>

definition ledgerTotals :: "total set" where
  "ledgerTotals = {TotalInserted, TotalInsertDroppedRows, TotalLiveSkippedRows, TotalFailedRowsSpooled}"

lemma view_frame [simp]:
  "t \<notin> ledgerTotals \<Longrightarrow> view (addTotal t n c) = view c" "view (track f c) = view c"
  "view (snd (readSecond c)) = view c" "view (c\<lparr>channelAnswers := x\<rparr>) = view c" "view (c\<lparr>batches := y\<rparr>) = view c"
  by (auto simp: view_def addTotal_def track_def ledgerTotals_def readSecond_def readClock_def Let_def split: prod.splits)

lemma view_sendInsertBatch: "sendInsertBatch cfg b c = (ok, c') \<Longrightarrow> view c' = view c"
  by (auto simp: sendInsertBatch_def pushBatch_def Let_def split: prod.splits if_splits)

section \<open>Spooling\<close>

definition bodied :: "InsertBatch \<Rightarrow> bool" where
  "bodied b \<longleftrightarrow> (Body b = [] \<longrightarrow> BatchRows b = 0)"

lemma spool_counts:
  assumes "spoolFailedInsertBatch base b err c = (ok, c')" "bodied b"
  shows "totals c' TotalFailedRowsSpooled = totals c TotalFailedRowsSpooled + (if ok then word_of_int (BatchRows b) else 0)"
proof (cases "BatchRows b = 0 \<or> length (Body b) = 0")
  case True
  with assms show ?thesis by (auto simp: spoolFailedInsertBatch_def bodied_def)
next
  case False
  obtain now r1 where 1: "popOr 0 (clock c) = (now, r1)" by fastforce
  obtain nano r2 where 2: "popOr 0 r1 = (nano, r2)" by fastforce
  obtain s w where 3: "storeFailedBatch base (now div 1000000000) nano b err (spoolDisk c) = (s, w)" by fastforce
  from assms False 1 2 3 show ?thesis
    by (auto simp: spoolFailedInsertBatch_def readSecond_def readClock_def addTotal_def Let_def split: if_splits)
qed

lemma view_spoolBatch:
  assumes "bodied b" "view c = (i, d, f, os, requests, tables)"
  shows "\<exists>how \<in> {OnDisk, SpoolLost}. view (spoolBatch cfg b err c)
    = (i, d, f + (if how = OnDisk then word_of_int (BatchRows b) else 0), os @ [(how, b)], requests, tables)"
proof -
  obtain ok c' where run: "spoolFailedInsertBatch (failedSpoolBase cfg) b err c = (ok, c')" by fastforce
  have v: "view c' = (i, d, f + (if ok then word_of_int (BatchRows b) else 0), os, requests, tables)"
    using spool_frame [OF run] spool_counts [OF run assms(1)] assms(2) by (simp add: view_def)
  let ?w = "addTotal TotalFailedSpoolErrors 1 c'"
  obtain n1 c1 where 1: "readSecond ?w = (n1, c1)" by fastforce
  obtain n2 c2 where 2: "readSecond c' = (n2, c2)" by fastforce
  have c1: "view c1 = view c'" and w: "view ?w = view c'" and c2: "view c2 = view c'"
    using view_frame(3) [of ?w] view_frame(3) [of c'] unfolding 1 2 by (simp_all add: ledgerTotals_def)
  have settled: "view (settle how b x) = (j, e, g, ps @ [(how, b)], r, t)" if "view x = (j, e, g, ps, r, t)" for how x j e g ps r t
    using that by (simp add: view_def settle_def)
  show ?thesis
    by (cases ok; cases "tracker c'")
      (simp_all add: spoolBatch_def run 1 2 Let_def settled v c1 c2 w)
qed

lemma ledger_spoolBatch:
  assumes "bodied b" "ledger cfg c" "t \<in> {TotalInsertDroppedRows, TotalLiveSkippedRows}"
    and c': "view c' = view (addTotal t (word_of_int (BatchRows b)) c)"
  shows "ledger cfg (spoolBatch cfg b err c')"
proof -
  obtain i d f os requests tables where v: "view c = (i, d, f, os, requests, tables)" by (metis prod_cases6)
  then have "view c' = (i, d + word_of_int (BatchRows b), f, os, requests, tables)"
    using assms(3) c' by (auto simp: view_def addTotal_def)
  from view_spoolBatch [OF assms(1) this, of cfg err] assms(2) v show ?thesis
    by (auto simp: ledger_def)
qed

section \<open>Packet workers\<close>

definition goodPending :: "pending \<Rightarrow> bool" where
  "goodPending p \<longleftrightarrow> (\<forall>(t, b) \<in> set p. pendingBody b = [] \<longrightarrow> pendingRows b = 0)"

lemma wf_pending_body: "wf_pending b \<Longrightarrow> pendingBody b = [] \<longleftrightarrow> pendingRows b = 0"
proof -
  have "appendRowBinaryEvent [] e \<noteq> []" for e
    using length_appendRowBinaryEvent [of "[]" e] by (auto simp: rowSize_def)
  then show "wf_pending b \<Longrightarrow> pendingBody b = [] \<longleftrightarrow> pendingRows b = 0"
    by (auto simp: wf_pending_def)
qed

lemma wf_goodPending: "wf_pendings p \<Longrightarrow> goodPending p"
  by (auto simp: wf_pendings_def goodPending_def wf_pending_body)

lemma flushTable_ledger:
  assumes "flushTable cfg k t (p, c) = (p', c')" "wf_pendings p" "ledger cfg c" "\<forall>b \<in> set (batches c). bodied b"
  shows "ledger cfg c' \<and> (\<forall>b \<in> set (batches c'). bodied b)"
proof (cases "map_of p t")
  case None
  with assms show ?thesis by (simp add: flushTable_def)
next
  case (Some b)
  let ?b = "insertBatchOf cfg k t b"
  have "(t, b) \<in> set p" using Some by (rule map_of_SomeD)
  then have good: "bodied ?b" using wf_goodPending [OF assms(2)] by (auto simp: goodPending_def bodied_def)
  obtain ok c1 where send: "sendInsertBatch cfg ?b c = (ok, c1)" by fastforce
  obtain len x rest where pop: "popOr (0, True) (channelAnswers c1) = ((len, x), rest)" by (metis prod.collapse)
  show ?thesis
  proof (cases "pendingRows b = 0")
    case True
    with assms Some show ?thesis by (simp add: flushTable_def)
  next
    case False
    note e = sendInsertBatch_effect [OF send] view_sendInsertBatch [OF send]
    show ?thesis
    proof (cases ok)
      case True
      with assms Some False send have "c' = c1" by (simp add: flushTable_def)
      with e True False assms(3,4) good ledger_view [of c1 c cfg] show ?thesis by auto
    next
      case refused: False
      let ?c2 = "(addTotal TotalLiveInsertSkipped 1 (addTotal TotalLiveSkippedRows (word_of_int (pendingRows b)) c1))\<lparr>channelAnswers := rest\<rparr>"
      have c': "c' = spoolBatch cfg ?b (overloadError cfg len) ?c2"
        using assms(1) Some False send refused pop by (auto simp: flushTable_def Let_def addTotal_def)
      have "ledger cfg c1" using e assms(3) ledger_view [of c1 c cfg] by simp
      then have "ledger cfg c'" unfolding c'
        by (intro ledger_spoolBatch [OF good, of _ c1 TotalLiveSkippedRows]) (simp_all add: ledgerTotals_def)
      moreover have "batches c' = batches c" unfolding c'
        using spoolBatch_effect [of cfg ?b "overloadError cfg len" ?c2] e refused False by auto
      ultimately show ?thesis using assms(4) by simp
    qed
  qed
qed

text \<open>The ledger with bodied batches in the channel, over a whole turn of a packet worker.\<close>

definition books :: "collectorConfig \<Rightarrow> collector \<Rightarrow> bool" where
  "books cfg c \<longleftrightarrow> ledger cfg c \<and> (\<forall>b \<in> set (batches c). bodied b)"

lemma books_quiet:
  "t \<notin> ledgerTotals \<Longrightarrow> books cfg (addTotal t n c) = books cfg c" "books cfg (track f c) = books cfg c"
  using ledger_view [of "addTotal t n c" c cfg] ledger_view [of "track f c" c cfg] by (auto simp: books_def)

lemma flush_books:
  "wf_pendings (fst s) \<Longrightarrow> books cfg (snd s) \<Longrightarrow> books cfg (snd (fold (flushTable cfg k) names s))"
proof (induction names arbitrary: s)
  case Nil
  then show ?case by simp
next
  case (Cons t names)
  obtain p c where s: "s = (p, c)" by fastforce
  obtain p' c' where f: "flushTable cfg k t (p, c) = (p', c')" by fastforce
  have "wf_pendings p'" "books cfg c'"
    using flushTable_effect(1) [OF f] flushTable_ledger [OF f] Cons.prems unfolding s books_def by simp_all
  with Cons.IH [of "(p', c')"] show ?case unfolding s by (simp add: f)
qed

lemma appendEntry_books:
  assumes "appendEntry cfg k sec e (p, c) = (p', c')" "wf_pendings p" "books cfg c"
  shows "books cfg c'"
proof -
  let ?t = "tableOf cfg e"
  let ?b = "appendToBatch (tracker c \<noteq> None) sec e (case map_of p ?t of None \<Rightarrow> newPendingBatch | Some b \<Rightarrow> b)"
  let ?p = "AList.update ?t ?b p" and ?c = "addTotal TotalParsed 1 c"
  have c: "books cfg ?c" using assms(3) by (simp add: books_quiet ledgerTotals_def)
  have "wf_pending (case map_of p ?t of None \<Rightarrow> newPendingBatch | Some b \<Rightarrow> b)"
    using assms(2) by (force simp: wf_pendings_def split: option.splits dest: map_of_SomeD)
  then have wf: "wf_pendings ?p" using assms(2) by (auto intro: wf_pendings_update wf_append)
  have "(p', c') = (?p, ?c) \<or> flushTable cfg k ?t (?p, ?c) = (p', c')"
    using assms(1) by (auto simp: appendEntry_alt Let_def split: if_splits)
  then show ?thesis
    using c flushTable_ledger [of cfg k ?t ?p ?c p' c'] wf by (auto simp: books_def)
qed

lemma entries_books:
  assumes "fold (appendEntry cfg k sec) es (p, c) = (p', c')" "wf_pendings p" "books cfg c"
  shows "books cfg c'"
  using assms
proof (induction es arbitrary: p c)
  case Nil
  then show ?case by simp
next
  case (Cons e es)
  obtain p1 c1 where 1: "appendEntry cfg k sec e (p, c) = (p1, c1)" by fastforce
  with Cons.prems(1) have "fold (appendEntry cfg k sec) es (p1, c1) = (p', c')" by simp
  moreover have "wf_pendings p1" using rows.appendEntry_total [OF 1 Cons.prems(2)] by simp
  ultimately show ?case using Cons.IH appendEntry_books [OF 1 Cons.prems(2,3)] by blast
qed

lemma packetTurn_books:
  assumes "packetTurn cfg k packet now (p, c) = Some (p', c')" "wf_pendings p" "books cfg c"
  shows "books cfg c'"
proof -
  obtain parsed where run: "handleParsed cfg k packet parsed (p, c) = (p', c')"
    using assms(1) by (auto simp: packetTurn_def split: Option.bind_splits)
  show ?thesis
  proof (cases parsed)
    case (Inl e)
    with run assms(3) show ?thesis by (auto simp: handleParsed_def Let_def books_quiet ledgerTotals_def)
  next
    case (Inr es)
    let ?c = "track (\<lambda>t. recordParseResult t (secondOf packet) (packetWorkerShard cfg k) True (of_nat (length es))) c"
    obtain p1 c1 where 1: "fold (appendEntry cfg k (secondOf packet)) es (p, ?c) = (p1, c1)" by fastforce
    have "books cfg c1" by (rule entries_books [OF 1 assms(2)]) (simp add: books_quiet assms(3))
    with run Inr 1 assms(3) show ?thesis
      by (cases "parseOnly cfg") (auto simp: handleParsed_def secondOf_def Let_def books_quiet ledgerTotals_def)
  qed
qed

section \<open>Insert workers\<close>

lemma httpRequest_result:
  assumes "httpRequest req c = (r, c')"
  shows "served c' = served c @ (if r = None then [req] else [])" "createdTables c' = createdTables c"
  using assms by (auto simp: httpRequest_def Let_def split: prod.splits option.splits)

lemma view_ensureTable:
  assumes "ensureClickHouseTable t c = (r, c')" "view c = (i, d, f, os, requests, tables)" "\<forall>t \<in> set tables. tableRequest t \<in> set requests"
  obtains requests' tables' where "view c' = (i, d, f, os, requests', tables')" "set requests \<subseteq> set requests'"
    "filter isInsertRequest requests' = filter isInsertRequest requests"
    "\<forall>t \<in> set tables'. tableRequest t \<in> set requests'" "r = None \<Longrightarrow> tableRequest t \<in> set requests'"
proof (cases "t \<in> set (createdTables c)")
  case True
  with assms that [of requests tables] show ?thesis by (simp add: ensureClickHouseTable_def view_def)
next
  case False
  obtain e c1 where 1: "httpRequest (tableRequest t) c = (e, c1)" by fastforce
  note h = httpRequest_result [OF 1] httpRequest_frame [OF 1]
  show ?thesis
  proof (cases e)
    case None
    then have "r = None" "view c' = (i, d, f, os, requests @ [tableRequest t], t # tables)"
      using assms(1,2) False 1 h by (auto simp: ensureClickHouseTable_def tableRequest_def view_def addTotal_def)
    with assms(3) that [of "requests @ [tableRequest t]" "t # tables"] show ?thesis by auto
  next
    case (Some x)
    then have "r \<noteq> None" "view c' = (i, d, f, os, requests, tables)"
      using assms(1,2) False 1 h by (auto simp: ensureClickHouseTable_def tableRequest_def view_def addTotal_def)
    with assms(3) that [of requests tables] show ?thesis by auto
  qed
qed

lemma view_insertBatch:
  assumes "insertBatchToClickHouse cfg b c = (r, c')" "view c = (i, d, f, os, requests, tables)"
    "\<forall>t \<in> set tables. tableRequest t \<in> set requests"
  obtains requests' tables' where "view c' = (i, d, f, os, requests', tables')" "set requests \<subseteq> set requests'"
    "filter isInsertRequest requests' = filter isInsertRequest requests @ (if r = None then [insertRequest cfg b] else [])"
    "\<forall>t \<in> set tables'. tableRequest t \<in> set requests'" "r = None \<Longrightarrow> tableRequest (TableName b) \<in> set requests'"
proof -
  obtain e c1 where 1: "ensureClickHouseTable (TableName b) c = (e, c1)" by fastforce
  obtain reqs tabs where v1: "view c1 = (i, d, f, os, reqs, tabs)" "set requests \<subseteq> set reqs"
    "filter isInsertRequest reqs = filter isInsertRequest requests"
    "\<forall>t \<in> set tabs. tableRequest t \<in> set reqs" "e = None \<Longrightarrow> tableRequest (TableName b) \<in> set reqs"
    using view_ensureTable [OF 1 assms(2,3)] by blast
  show ?thesis
  proof (cases e)
    case (Some x)
    with assms(1) 1 have "c' = c1" "r \<noteq> None" by (auto simp: insertBatchToClickHouse_def)
    with v1 that [of reqs tabs] show ?thesis by simp
  next
    case None
    with assms(1) 1 have req: "httpRequest (insertRequest cfg b) c1 = (r, c')" by (simp add: insertBatchToClickHouse_def insertRequest_def)
    have "view c' = (i, d, f, os, reqs @ (if r = None then [insertRequest cfg b] else []), tabs)"
      using httpRequest_result [OF req] httpRequest_frame [OF req] v1(1) by (simp add: view_def)
    with v1 None that [of "reqs @ (if r = None then [insertRequest cfg b] else [])" tabs] show ?thesis by auto
  qed
qed

lemma insertAttempts_ledger:
  "insertAttempts cfg b n lastErr c = (r, c') \<Longrightarrow> ledger cfg c \<Longrightarrow> ledger cfg c'"
proof (induction n arbitrary: lastErr c)
  case 0
  then show ?case by simp
next
  case (Suc n)
  obtain e c1 where 1: "insertBatchToClickHouse cfg b c = (e, c1)" by fastforce
  obtain i d f os requests tables where v: "view c = (i, d, f, os, requests, tables)" by (metis prod_cases6)
  have "\<forall>t \<in> set tables. tableRequest t \<in> set requests" using Suc.prems(2) v by (simp add: ledger_def)
  from view_insertBatch [OF 1 v this] obtain reqs tabs where v1: "view c1 = (i, d, f, os, reqs, tabs)" "set requests \<subseteq> set reqs"
    "filter isInsertRequest reqs = filter isInsertRequest requests @ (if e = None then [insertRequest cfg b] else [])"
    "\<forall>t \<in> set tabs. tableRequest t \<in> set reqs" "e = None \<Longrightarrow> tableRequest (TableName b) \<in> set reqs" by metis
  show ?case
  proof (cases e)
    case None
    let ?c2 = "settle InClickHouse b (addTotal TotalBatchesInserted 1 (addTotal TotalInserted (word_of_int (BatchRows b)) c1))"
    obtain now c3 where 3: "readSecond ?c2 = (now, c3)" by fastforce
    have v2: "view ?c2 = (i + word_of_int (BatchRows b), d, f, os @ [(InClickHouse, b)], reqs, tabs)"
      using v1(1) by (simp add: view_def settle_def addTotal_def)
    have "c' = (if tracker c1 = None then ?c2 else track (\<lambda>t. recordInserted t (Cohorts b) (CohortShard b) now) c3)"
      using Suc.prems(1) by (auto simp: 1 None 3 Let_def split: if_splits)
    then have "view c' = view ?c2" using view_frame(3) [of ?c2] unfolding 3 by simp
    with v2 v1 None Suc.prems(2) v show ?thesis by (auto simp: ledger_def)
  next
    case (Some x)
    with Suc.prems(1) 1 have "insertAttempts cfg b n (Some x) c1 = (r, c')" by simp
    moreover have "ledger cfg c1" using v1 Some Suc.prems(2) v by (auto simp: ledger_def)
    ultimately show ?thesis by (rule Suc.IH)
  qed
qed

lemma handleBatch_ledger:
  assumes "bodied b" "ledger cfg c"
  shows "ledger cfg (handleBatch cfg b c)"
proof -
  obtain r c1 where 1: "insertAttempts cfg b (nat (insertMaxRetries cfg)) None c = (r, c1)" by fastforce
  note l = insertAttempts_ledger [OF 1 assms(2)]
  show ?thesis
  proof (cases r)
    case None
    with l show ?thesis by (simp add: handleBatch_def 1)
  next
    case (Some err)
    let ?c2 = "addTotal TotalInsertDroppedRows (word_of_int (BatchRows b)) (addTotal TotalInsertErrors 1 c1)"
    have "view ?c2 = view (addTotal TotalInsertDroppedRows (word_of_int (BatchRows b)) c1)"
      by (simp add: view_def addTotal_def)
    from ledger_spoolBatch [OF assms(1) l _ this] Some show ?thesis by (simp add: handleBatch_def 1)
  qed
qed

lemma insertTurn_books:
  assumes "0 < insertMaxRetries cfg" "books cfg c"
  shows "books cfg (insertTurn cfg c)"
proof (cases "batches c")
  case Nil
  with assms show ?thesis by (simp add: insertTurn_def)
next
  case (Cons b rest)
  let ?c = "c\<lparr>batches := rest\<rparr>"
  have "ledger cfg ?c" using assms(2) ledger_view [of ?c c cfg] by (simp add: books_def)
  moreover have "bodied b" "\<forall>b \<in> set rest. bodied b" using assms(2) Cons by (simp_all add: books_def)
  ultimately show ?thesis
    using handleBatch_ledger [of b cfg ?c] handleBatch_effect [OF assms(1), of b ?c] Cons
    by (auto simp: insertTurn_def books_def)
qed

lemma takeTurns_books:
  assumes "takeTurns cfg turns s = Some s'" "wf_pipeline s" "books cfg (shared s)" "\<not> parseOnly cfg" "0 < insertMaxRetries cfg"
  shows "books cfg (shared s')"
  using assms(1-3)
proof (induction turns arbitrary: s)
  case Nil
  then show ?case by simp
next
  case (Cons t turns)
  from Cons.prems(1) obtain s1 where 1: "takeTurn cfg t s = Some s1" and 2: "takeTurns cfg turns s1 = Some s'"
    by (auto split: Option.bind_splits)
  obtain k where k: "turnWorkers t \<subseteq> set [k :: int]" by (cases t) auto
  have wf1: "wf_pipeline s1" using rows.takeTurn_total [OF 1 Cons.prems(2) _ k assms(5,4)] by simp
  have wf: "wf_pendings (workerPending s j)" for j using Cons.prems(2) by (simp add: wf_pipeline_def)
  have "books cfg (shared s1)"
  proof (cases t)
    case (PacketTurn k packet now)
    with 1 obtain p c where run: "packetTurn cfg k packet now (workerPending s k, shared s) = Some (p, c)"
      and "s1 = setWorker k (p, c) s" by auto
    with packetTurn_books [OF run wf Cons.prems(3)] show ?thesis by (simp add: setWorker_def)
  next
    case (FlushTurn k order)
    with 1 flush_books [of "(workerPending s k, shared s)" cfg k "flushOrder order (workerPending s k)"] wf Cons.prems(3)
    show ?thesis by (auto simp: setWorker_def flushAll_def)
  next
    case InsertTurn
    with 1 insertTurn_books [OF assms(5) Cons.prems(3)] show ?thesis by auto
  next
    case (ReceiveTurn r sec d)
    with 1 Cons.prems(3) show ?thesis by (auto simp: countReceived_def books_quiet ledgerTotals_def Let_def)
  qed
  with Cons.IH [OF 2 wf1] show ?case by simp
qed

section \<open>The guarantees\<close>

text \<open>The collector when its workers start: counters at zero, nothing created or sent.\<close>

definition just_started :: "pipeline \<Rightarrow> bool" where
  "just_started s \<longleftrightarrow> fresh_pipeline s \<and> totals (shared s) = (\<lambda>_. 0) \<and> served (shared s) = [] \<and> createdTables (shared s) = []"

lemma just_started_books: "just_started s \<Longrightarrow> books cfg (shared s)"
  by (auto simp: just_started_def fresh_pipeline_def books_def ledger_def view_def)

lemma run_books:
  assumes "takeTurns cfg turns s = Some s'" "just_started s" "validateConfig cfg = Inr offsets" "\<not> parseOnly cfg"
  shows "ledger cfg (shared s')"
  using takeTurns_books [OF assms(1) _ just_started_books [OF assms(2)] assms(4)] validated_positive [OF assms(3)]
    fresh_total(1) [of s] assms(2)
  by (simp add: just_started_def books_def)

lemma rowsOut_total: "batchesTotal rowCount (map snd os) = rowsOut InClickHouse os + (rowsOut OnDisk os + rowsOut SpoolLost os)"
proof (induction os)
  case (Cons o1 os)
  obtain h b where "o1 = (h, b)" by fastforce
  with Cons show ?case by (cases h) (simp_all add: rowCount_def pendingOf_def)
qed simp

text \<open>
  C12. The counters of the metrics line add up at every moment, however the workers
  interleave and whatever fails: the rows parsed are those pending, those waiting in the channel,
  and those the counters report as inserted, as dropped after the retries, or as skipped on
  overload; and the rows counted as spooled are those of the batches that were written.
\<close>

theorem counters_reconcile:
  assumes "takeTurns cfg turns s = Some s'" "just_started s" "validateConfig cfg = Inr offsets" "\<not> parseOnly cfg"
    and "distinct ids" "\<forall>t \<in> set turns. turnWorkers t \<subseteq> set ids"
  defines "c \<equiv> shared s'"
  shows "totals c TotalParsed = (\<Sum>k\<leftarrow>ids. pendingTotal rowCount (workerPending s' k)) + batchesTotal rowCount (batches c)
      + totals c TotalInserted + totals c TotalInsertDroppedRows + totals c TotalLiveSkippedRows
    \<and> totals c TotalFailedRowsSpooled = rowsOut OnDisk (outcomes c)"
proof -
  have fresh: "fresh_pipeline s" and zero: "totals (shared s) = (\<lambda>_. 0)" using assms(2) by (simp_all add: just_started_def)
  have retries: "0 < insertMaxRetries cfg" using validated_positive [OF assms(3)] by simp
  have "pipelineTotal rowCount ids s' = of_nat (length (arrived cfg turns))"
    using row_count.takeTurns_total [OF assms(1) fresh_total(1) [OF fresh] assms(5,6) retries assms(4)] fresh_total(2) [OF fresh]
    by (simp add: sum_list_triv case_prod_unfold)
  moreover have "totals c TotalParsed = of_nat (length (arrived cfg turns))"
    using run_rows(3) [OF assms(1) fresh assms(5,6,3,4)] zero by (simp add: c_def)
  moreover have l: "totals c TotalInserted = rowsOut InClickHouse (outcomes c)" "totals c TotalFailedRowsSpooled = rowsOut OnDisk (outcomes c)"
      "rowsOut OnDisk (outcomes c) + rowsOut SpoolLost (outcomes c) = totals c TotalInsertDroppedRows + totals c TotalLiveSkippedRows"
    using run_books [OF assms(1-4)] by (simp_all add: ledger_def view_def c_def)
  ultimately have "totals c TotalParsed = (\<Sum>k\<leftarrow>ids. pendingTotal rowCount (workerPending s' k))
      + (batchesTotal rowCount (batches c) + (totals c TotalInserted + (totals c TotalInsertDroppedRows + totals c TotalLiveSkippedRows)))"
    by (simp only: pipelineTotal_def sharedTotal_def rowsOut_total c_def)
  then show ?thesis using l(2) by (simp only: add.assoc simp_thms)
qed

text \<open>
  C13. Among the inserts ClickHouse acknowledged, every batch counted as inserted
  occurs exactly once and nothing else does, in the order of the outcomes: a batch is not sent again
  after an acknowledgement, none is counted without one, each goes to its own table with its whole
  body, and that table's creation was acknowledged too.
\<close>

theorem acknowledged_once:
  assumes "takeTurns cfg turns s = Some s'" "just_started s" "validateConfig cfg = Inr offsets" "\<not> parseOnly cfg"
  defines "c \<equiv> shared s'"
  shows "filter isInsertRequest (served c) = map (insertRequest cfg) (insertedBatches (outcomes c))
    \<and> (\<forall>b \<in> set (insertedBatches (outcomes c)). tableRequest (TableName b) \<in> set (served c))
    \<and> totals c TotalInserted = rowsOut InClickHouse (outcomes c)"
  using run_books [OF assms(1-4)] by (simp add: ledger_def view_def c_def)

lemma example_started: "just_started (newPipeline example_collector)"
  using example_assumptions(3) by (simp add: just_started_def newPipeline_def example_collector_def)

theorem counters_reconcile_witness:
  "\<exists>s'. takeTurns (loadConfig 8 emptyEnv) example_turns (newPipeline example_collector) = Some s'
    \<and> totals (shared s') TotalFailedRowsSpooled = rowsOut OnDisk (outcomes (shared s'))"
proof -
  obtain s' where run: "takeTurns (loadConfig 8 emptyEnv) example_turns (newPipeline example_collector) = Some s'"
    using turns_never_panic [OF example_assumptions(4)] by blast
  from counters_reconcile [OF run example_started example_assumptions(1,2) _ example_assumptions(5)] run
  show ?thesis by simp
qed

theorem acknowledged_once_witness:
  "\<exists>s'. takeTurns (loadConfig 8 emptyEnv) example_turns (newPipeline example_collector) = Some s'
    \<and> filter isInsertRequest (served (shared s')) = map (insertRequest (loadConfig 8 emptyEnv)) (insertedBatches (outcomes (shared s')))"
proof -
  obtain s' where run: "takeTurns (loadConfig 8 emptyEnv) example_turns (newPipeline example_collector) = Some s'"
    using turns_never_panic [OF example_assumptions(4)] by blast
  from acknowledged_once [OF run example_started example_assumptions(1,2)] run show ?thesis by simp
qed

end
