(* ===== verification/ReprocessConfig.thy ===== *)
theory ReprocessConfig
  imports CollectorConfig Schema
begin

text \<open>
  The reprocessor's configuration: \<open>loadConfig\<close> (\<open>reprocesador/config.go\<close>),
  \<open>loadReprocessAlertConfig\<close> and the two \<open>validate\<close> methods
  (\<open>reprocesador/reprocess_alerts.go\<close>).  The environment, \<open>net.ParseIP\<close> and
  \<open>url.Parse\<close> are arguments.  A duration is a count of nanoseconds in an \<open>int64\<close>, and the
  products of \<open>time.Duration(n) * time.Second\<close> wrap.
\<close>

section \<open>Results and durations\<close>

definition onOk :: "'e + 'a \<Rightarrow> ('a \<Rightarrow> 'e + 'b) \<Rightarrow> 'e + 'b" where
  "onOk x f = (case x of Inl e \<Rightarrow> Inl e | Inr a \<Rightarrow> f a)"

lemma onOk_simps [simp]: "onOk (Inl e) f = Inl e" "onOk (Inr a) f = f a"
  by (simp_all add: onOk_def)

lemma onOk_InrE:
  assumes "onOk x f = Inr b"
  obtains a where "x = Inr a" "f a = Inr b"
  using assms by (cases x) simp_all

definition goDuration :: "int \<Rightarrow> int \<Rightarrow> int" where
  "goDuration n unit = sint (word_of_int (n * unit) :: 64 word)"

definition seconds :: "int \<Rightarrow> int" where "seconds n = goDuration n (10 ^ 9)"
definition milliseconds :: "int \<Rightarrow> int" where "milliseconds n = goDuration n (10 ^ 6)"

lemma goDuration_exact: "- (2 ^ 63) \<le> n * unit \<Longrightarrow> n * unit < 2 ^ 63 \<Longrightarrow> goDuration n unit = n * unit"
  unfolding goDuration_def int_word_sint by simp

section \<open>Inherited variables\<close>

definition reprocessGetEnvUint64 :: "env \<Rightarrow> string \<Rightarrow> u64 \<Rightarrow> env_error + u64" where
  "reprocessGetEnvUint64 env key fallback =
     (case lookupTrimmed env key of
        None \<Rightarrow> Inr fallback
      | Some v \<Rightarrow> (case parseUint v of Inl _ \<Rightarrow> Inl (NotAnInteger key) | Inr n \<Rightarrow> Inr n))"

definition reprocessGetEnvFloat :: "env \<Rightarrow> string \<Rightarrow> f64 \<Rightarrow> env_error + f64" where
  "reprocessGetEnvFloat env key fallback =
     (case lookupTrimmed env key of
        None \<Rightarrow> Inr fallback
      | Some v \<Rightarrow> (case parseFloat v of Inl _ \<Rightarrow> Inl (NotANumber key) | Inr x \<Rightarrow> Inr x))"

definition getEnvInherited :: "env \<Rightarrow> string \<Rightarrow> string \<Rightarrow> string \<Rightarrow> string" where
  "getEnvInherited env primary inherited fallback =
     (case lookupTrimmed env primary of Some v \<Rightarrow> v | None \<Rightarrow> reprocessGetEnv env inherited fallback)"

definition getEnvBoolInherited :: "env \<Rightarrow> string \<Rightarrow> string \<Rightarrow> bool \<Rightarrow> env_error + bool" where
  "getEnvBoolInherited env primary inherited fallback =
     (case lookupTrimmed env primary of
        Some v \<Rightarrow> (case parseBool v of Inl _ \<Rightarrow> Inl (NotABool primary) | Inr b \<Rightarrow> Inr b)
      | None \<Rightarrow> reprocessGetEnvBool env inherited fallback)"

definition getEnvIntInherited :: "env \<Rightarrow> string \<Rightarrow> string \<Rightarrow> int \<Rightarrow> env_error + int" where
  "getEnvIntInherited env primary inherited fallback =
     (case lookupTrimmed env primary of
        Some v \<Rightarrow> (case atoi v of Inl _ \<Rightarrow> Inl (NotAnInteger primary) | Inr n \<Rightarrow> Inr n)
      | None \<Rightarrow> reprocessGetEnvInt env inherited fallback)"

definition getEnvBoolDefault :: "env \<Rightarrow> string \<Rightarrow> bool \<Rightarrow> bool" where
  "getEnvBoolDefault env key fallback =
     (case reprocessGetEnvBool env key fallback of Inl _ \<Rightarrow> fallback | Inr b \<Rightarrow> b)"

definition getEnvIntDefault :: "env \<Rightarrow> string \<Rightarrow> int \<Rightarrow> int" where
  "getEnvIntDefault env key fallback =
     (case reprocessGetEnvInt env key fallback of Inl _ \<Rightarrow> fallback | Inr n \<Rightarrow> n)"

section \<open>Alert configuration\<close>

record reprocessClickHouseAlertConfig =
  rchURL :: string
  rchUser :: string
  rchPassword :: string
  rchTable :: string
  rchAutoCreate :: bool
  rchConnectTimeout :: int
  rchOperationTimeout :: int
  rchRetry :: int
  rchMaxRetry :: int

record reprocessAlertConfig =
  raEnabled :: bool
  raMode :: string
  raServerIP :: string
  raStateDir :: string
  raEvaluationInterval :: int
  raWindow :: int
  raBacklogSLA :: int
  raMinimumBatches :: u64
  raTriggerWindows :: int
  raClearWindows :: int
  raActiveUpdate :: int
  raBacklogThresholdPct :: f64
  raBacklogClearPct :: f64
  raFailureThresholdPct :: f64
  raFailureClearPct :: f64
  raQuarantineThresholdPct :: f64
  raQuarantineClearPct :: f64
  raClickHouse :: reprocessClickHouseAlertConfig

definition validateReprocessClickHouse ::
    "(string \<Rightarrow> (string \<times> string) option) \<Rightarrow> reprocessClickHouseAlertConfig \<Rightarrow> alert_config_error option" where
  "validateReprocessClickHouse urlParse c =
     (if (case urlParse (rchURL c) of None \<Rightarrow> True
          | Some (scheme, host) \<Rightarrow> host = [] \<or> (scheme \<noteq> ''http'' \<and> scheme \<noteq> ''https''))
      then Some BadURL
      else if rchConnectTimeout c \<le> 0 \<or> rchOperationTimeout c \<le> 0 \<or> rchRetry c \<le> 0 \<or> rchMaxRetry c < rchRetry c
      then Some BadTimeouts
      else map_option BadAlertTable (validateTableName (rchTable c)))"

text \<open>The thresholds are checked by the same loop as the collector's, under other names.\<close>

definition validateReprocessAlertConfig ::
    "(string \<Rightarrow> bool) \<Rightarrow> (string \<Rightarrow> (string \<times> string) option) \<Rightarrow> reprocessAlertConfig \<Rightarrow> alert_config_error option" where
  "validateReprocessAlertConfig parseIP urlParse c =
     (if \<not> raEnabled c then None
      else if raMode c \<noteq> alertModeObserve \<and> raMode c \<noteq> alertModeClickHouse then Some BadMode
      else if \<not> parseIP (raServerIP c) then Some BadServerIP
      else if raStateDir c = [] then Some EmptyStateDir
      else if raEvaluationInterval c \<le> 0 \<or> raWindow c \<le> 0 \<or> raBacklogSLA c \<le> 0 then Some BadSeconds
      else if raMinimumBatches c = 0 \<or> raTriggerWindows c \<le> 0 \<or> raClearWindows c \<le> 0 \<or> raActiveUpdate c \<le> 0 then Some BadWindows
      else case thresholdLoop [(''backlog'', raBacklogThresholdPct c, raBacklogClearPct c),
                               (''failure'', raFailureThresholdPct c, raFailureClearPct c),
                               (''quarantine'', raQuarantineThresholdPct c, raQuarantineClearPct c)] of
             Some e \<Rightarrow> Some e
           | None \<Rightarrow> (if raMode c = alertModeClickHouse
                      then validateReprocessClickHouse urlParse (raClickHouse c) else None))"

datatype reprocess_config_error =
    BadVariable env_error | BadSuccessAction | NotGreaterThanZero string | IsNegative string | BadAlerts alert_config_error

definition envValue :: "env_error + 'a \<Rightarrow> reprocess_config_error + 'a" where
  "envValue x = (case x of Inl e \<Rightarrow> Inl (BadVariable e) | Inr a \<Rightarrow> Inr a)"

lemma envValue_simps [simp]: "envValue (Inl e) = Inl (BadVariable e)" "envValue (Inr a) = Inr a"
  by (simp_all add: envValue_def)

definition loadReprocessAlertConfig :: "(string \<Rightarrow> bool) \<Rightarrow> (string \<Rightarrow> (string \<times> string) option)
    \<Rightarrow> env \<Rightarrow> string \<Rightarrow> string \<Rightarrow> string \<Rightarrow> string \<Rightarrow> reprocess_config_error + reprocessAlertConfig" where
  "loadReprocessAlertConfig parseIP urlParse env spoolBase url user pass =
     onOk (envValue (getEnvBoolInherited env ''REPROCESS_ALERTS_ENABLED'' ''ALERTS_ENABLED'' False)) (\<lambda>enabled.
     onOk (envValue (getEnvIntInherited env ''REPROCESS_ALERT_EVALUATION_INTERVAL_SECONDS'' ''ALERT_EVALUATION_INTERVAL_SECONDS'' 10)) (\<lambda>evaluationSeconds.
     onOk (envValue (getEnvIntInherited env ''REPROCESS_ALERT_WINDOW_SECONDS'' ''ALERT_WINDOW_SECONDS'' 60)) (\<lambda>windowSeconds.
     onOk (envValue (reprocessGetEnvInt env ''REPROCESS_ALERT_BACKLOG_SLA_SECONDS'' 300)) (\<lambda>backlogSLASeconds.
     onOk (envValue (reprocessGetEnvUint64 env ''REPROCESS_ALERT_MIN_BATCHES'' 1)) (\<lambda>minimumBatches.
     onOk (envValue (getEnvIntInherited env ''REPROCESS_ALERT_TRIGGER_WINDOWS'' ''ALERT_TRIGGER_WINDOWS'' 1)) (\<lambda>triggers.
     onOk (envValue (getEnvIntInherited env ''REPROCESS_ALERT_CLEAR_WINDOWS'' ''ALERT_CLEAR_WINDOWS'' 3)) (\<lambda>clears.
     onOk (envValue (getEnvIntInherited env ''REPROCESS_ALERT_ACTIVE_UPDATE_SECONDS'' ''ALERT_ACTIVE_UPDATE_SECONDS'' 60)) (\<lambda>activeUpdateSeconds.
     onOk (envValue (reprocessGetEnvFloat env ''REPROCESS_ALERT_BACKLOG_THRESHOLD_PCT'' (f64Const 1))) (\<lambda>backlogThreshold.
     onOk (envValue (reprocessGetEnvFloat env ''REPROCESS_ALERT_BACKLOG_CLEAR_PCT'' (f64Const 0.01))) (\<lambda>backlogClear.
     onOk (envValue (reprocessGetEnvFloat env ''REPROCESS_ALERT_FAILURE_THRESHOLD_PCT'' (f64Const 1))) (\<lambda>failureThreshold.
     onOk (envValue (reprocessGetEnvFloat env ''REPROCESS_ALERT_FAILURE_CLEAR_PCT'' (f64Const 0.01))) (\<lambda>failureClear.
     onOk (envValue (reprocessGetEnvFloat env ''REPROCESS_ALERT_QUARANTINE_THRESHOLD_PCT'' (f64Const 1))) (\<lambda>quarantineThreshold.
     onOk (envValue (reprocessGetEnvFloat env ''REPROCESS_ALERT_QUARANTINE_CLEAR_PCT'' (f64Const 0.01))) (\<lambda>quarantineClear.
       (let config = \<lparr>raEnabled = enabled,
              raMode = toLower (getEnvInherited env ''REPROCESS_ALERTS_MODE'' ''ALERTS_MODE'' alertModeObserve),
              raServerIP = getEnvInherited env ''REPROCESS_ALERT_SERVER_IP'' ''ALERT_SERVER_IP'' [],
              raStateDir = reprocessGetEnv env ''REPROCESS_ALERT_STATE_DIR'' (joinPath spoolBase ''alerts''),
              raEvaluationInterval = seconds evaluationSeconds, raWindow = seconds windowSeconds,
              raBacklogSLA = seconds backlogSLASeconds, raMinimumBatches = minimumBatches,
              raTriggerWindows = triggers, raClearWindows = clears, raActiveUpdate = seconds activeUpdateSeconds,
              raBacklogThresholdPct = backlogThreshold, raBacklogClearPct = backlogClear,
              raFailureThresholdPct = failureThreshold, raFailureClearPct = failureClear,
              raQuarantineThresholdPct = quarantineThreshold, raQuarantineClearPct = quarantineClear,
              raClickHouse = \<lparr>rchURL = url, rchUser = user, rchPassword = pass,
                rchTable = reprocessGetEnv env ''REPROCESS_CLICKHOUSE_ALERT_TABLE''
                             (reprocessGetEnv env ''CLICKHOUSE_ALERT_TABLE'' ''cgnat.collector_alerts''),
                rchAutoCreate = getEnvBoolDefault env ''REPROCESS_CLICKHOUSE_ALERT_AUTO_CREATE''
                                  (getEnvBoolDefault env ''CLICKHOUSE_ALERT_AUTO_CREATE'' True),
                rchConnectTimeout = seconds (getEnvIntDefault env ''CLICKHOUSE_ALERT_CONNECT_TIMEOUT_SECONDS'' 5),
                rchOperationTimeout = seconds (getEnvIntDefault env ''CLICKHOUSE_ALERT_OPERATION_TIMEOUT_SECONDS'' 10),
                rchRetry = seconds (getEnvIntDefault env ''CLICKHOUSE_ALERT_RETRY_SECONDS'' 5),
                rchMaxRetry = seconds (getEnvIntDefault env ''CLICKHOUSE_ALERT_MAX_RETRY_SECONDS'' 300)\<rparr>\<rparr>
        in case validateReprocessAlertConfig parseIP urlParse config of
             Some e \<Rightarrow> Inl (BadAlerts e)
           | None \<Rightarrow> Inr config)))))))))))))))"

section \<open>The configuration of the program\<close>

record repConfig =
  repURL :: string
  repUser :: string
  repPass :: string
  repSpoolBase :: string
  repDoneDir :: string
  repArchiveDir :: string
  repBadDir :: string
  repWorkers :: int
  repPollInterval :: int
  repMinAge :: int
  repHTTPTimeout :: int
  repMaxRetries :: int
  repRetryDelay :: int
  repInterBatchDelay :: int
  repScanLimit :: int
  repAutoCreateTable :: bool
  repSuccessAction :: string
  repAllowHTTPRedirect :: bool
  repAlerts :: reprocessAlertConfig

definition successActionDelete :: string where "successActionDelete = ''delete''"
definition successActionArchive :: string where "successActionArchive = ''archive''"

definition loadReprocessConfig :: "(string \<Rightarrow> bool) \<Rightarrow> (string \<Rightarrow> (string \<times> string) option)
    \<Rightarrow> env \<Rightarrow> reprocess_config_error + repConfig" where
  "loadReprocessConfig parseIP urlParse env =
     (let spoolBase = reprocessGetEnv env ''FAILED_SPOOL_BASE'' ''/index2/huawei-cgn-go/failed'';
          url = reprocessGetEnv env ''CLICKHOUSE_URL'' ''http://127.0.0.1:8123'';
          user = reprocessGetEnv env ''CLICKHOUSE_USER'' ''admin'';
          pass = reprocessGetEnv env ''CLICKHOUSE_PASS'' []
      in onOk (envValue (reprocessGetEnvInt env ''REPROCESS_WORKERS'' 1)) (\<lambda>workers.
         onOk (envValue (reprocessGetEnvInt env ''REPROCESS_POLL_SECONDS'' 30)) (\<lambda>pollSeconds.
         onOk (envValue (reprocessGetEnvInt env ''REPROCESS_MIN_AGE_SECONDS'' 60)) (\<lambda>minAgeSeconds.
         onOk (envValue (reprocessGetEnvInt env ''REPROCESS_HTTP_TIMEOUT_SECONDS'' 180)) (\<lambda>httpTimeoutSeconds.
         onOk (envValue (reprocessGetEnvInt env ''REPROCESS_MAX_RETRIES'' 3)) (\<lambda>maxRetries.
         onOk (envValue (reprocessGetEnvInt env ''REPROCESS_RETRY_MS'' 1000)) (\<lambda>retryMS.
         onOk (envValue (reprocessGetEnvInt env ''REPROCESS_INTER_BATCH_DELAY_MS'' 250)) (\<lambda>interBatchDelayMS.
         onOk (envValue (reprocessGetEnvInt env ''REPROCESS_SCAN_LIMIT'' 1000)) (\<lambda>scanLimit.
         onOk (envValue (reprocessGetEnvBool env ''REPROCESS_AUTO_CREATE_TABLE'' True)) (\<lambda>autoCreateTable.
         onOk (envValue (reprocessGetEnvBool env ''REPROCESS_ALLOW_HTTP_REDIRECT'' False)) (\<lambda>allowHTTPRedirect.
           (let successAction = toLower (reprocessGetEnv env ''REPROCESS_SUCCESS_ACTION'' successActionDelete)
            in if successAction \<noteq> successActionDelete \<and> successAction \<noteq> successActionArchive then Inl BadSuccessAction
               else if workers \<le> 0 then Inl (NotGreaterThanZero ''REPROCESS_WORKERS'')
               else if pollSeconds \<le> 0 then Inl (NotGreaterThanZero ''REPROCESS_POLL_SECONDS'')
               else if minAgeSeconds < 0 then Inl (IsNegative ''REPROCESS_MIN_AGE_SECONDS'')
               else if httpTimeoutSeconds \<le> 0 then Inl (NotGreaterThanZero ''REPROCESS_HTTP_TIMEOUT_SECONDS'')
               else if maxRetries \<le> 0 then Inl (NotGreaterThanZero ''REPROCESS_MAX_RETRIES'')
               else if retryMS < 0 then Inl (IsNegative ''REPROCESS_RETRY_MS'')
               else if interBatchDelayMS < 0 then Inl (IsNegative ''REPROCESS_INTER_BATCH_DELAY_MS'')
               else if scanLimit < 0 then Inl (IsNegative ''REPROCESS_SCAN_LIMIT'')
               else onOk (loadReprocessAlertConfig parseIP urlParse env spoolBase url user pass) (\<lambda>alerts.
                 Inr \<lparr>repURL = url, repUser = user, repPass = pass, repSpoolBase = spoolBase,
                   repDoneDir = joinPath spoolBase ''done'', repArchiveDir = joinPath spoolBase ''reprocessed'',
                   repBadDir = joinPath spoolBase ''bad'', repWorkers = workers, repPollInterval = seconds pollSeconds,
                   repMinAge = seconds minAgeSeconds, repHTTPTimeout = seconds httpTimeoutSeconds,
                   repMaxRetries = maxRetries, repRetryDelay = milliseconds retryMS,
                   repInterBatchDelay = milliseconds interBatchDelayMS, repScanLimit = scanLimit,
                   repAutoCreateTable = autoCreateTable, repSuccessAction = successAction,
                   repAllowHTTPRedirect = allowHTTPRedirect, repAlerts = alerts\<rparr>)))))))))))))"

lemma loadReprocessConfig_parts:
  assumes "loadReprocessConfig parseIP urlParse env = Inr cfg"
  shows "repWorkers cfg > 0 \<and> repMaxRetries cfg > 0 \<and> repScanLimit cfg \<ge> 0
    \<and> repSuccessAction cfg \<in> {successActionDelete, successActionArchive}
    \<and> repDoneDir cfg = joinPath (repSpoolBase cfg) ''done'' \<and> repArchiveDir cfg = joinPath (repSpoolBase cfg) ''reprocessed''
    \<and> repBadDir cfg = joinPath (repSpoolBase cfg) ''bad''
    \<and> loadReprocessAlertConfig parseIP urlParse env (repSpoolBase cfg) (repURL cfg) (repUser cfg) (repPass cfg) = Inr (repAlerts cfg)"
  using assms unfolding loadReprocessConfig_def Let_def
  by (elim onOk_InrE) (auto simp: not_le not_less split: if_split_asm elim!: onOk_InrE)

lemma loadReprocessAlertConfig_valid:
  assumes "loadReprocessAlertConfig parseIP urlParse env spoolBase url user pass = Inr c"
  shows "validateReprocessAlertConfig parseIP urlParse c = None"
  using assms unfolding loadReprocessAlertConfig_def
  by (elim onOk_InrE) (simp add: Let_def split: option.splits)


text \<open>The default alert settings of a reprocessor with alerting switched on.\<close>

definition example_repAlerts :: reprocessAlertConfig where
  "example_repAlerts = \<lparr>raEnabled = True, raMode = alertModeClickHouse, raServerIP = ''10.0.0.1'', raStateDir = ''/s/alerts'',
     raEvaluationInterval = 10000000000, raWindow = 60000000000, raBacklogSLA = 300000000000, raMinimumBatches = 1,
     raTriggerWindows = 1, raClearWindows = 3, raActiveUpdate = 60000000000,
     raBacklogThresholdPct = Fin 1, raBacklogClearPct = Fin (1 / 100), raFailureThresholdPct = Fin 1, raFailureClearPct = Fin (1 / 100),
     raQuarantineThresholdPct = Fin 1, raQuarantineClearPct = Fin (1 / 100),
     raClickHouse = \<lparr>rchURL = ''http://127.0.0.1:8123'', rchUser = ''admin'', rchPassword = [], rchTable = ''cgnat.collector_alerts'',
       rchAutoCreate = True, rchConnectTimeout = 5000000000, rchOperationTimeout = 10000000000, rchRetry = 5000000000,
       rchMaxRetry = 300000000000\<rparr>\<rparr>"

end
