(* ===== verification/Reprocessor.thy ===== *)
theory Reprocessor
  imports Ledger ReprocessConfig
begin

text \<open>
  The reprocessor of failed batches (\<open>reprocesador/reprocessor.go\<close>): scanning the spool,
  validating a pair of data and metadata, inserting the data with retries, and moving the pair to
  the archive, to the quarantine, or off the disk.  The modification times, the bytes of files that
  are not whole, and the SHA-256 function are arguments; the answers of ClickHouse and of the
  cancelled context are lists consumed one by one.
\<close>

section \<open>State\<close>

record spoolView =
  modTime :: "path \<Rightarrow> int"
  oddBytes :: "path \<Rightarrow> bytes"
  sha256 :: "bytes \<Rightarrow> bytes"

datatype rep_request = RepCreateTable string | RepInsert string string bytes

record reprocessor =
  repDisk :: "spool_file world"
  knownTables :: "string list"
  repReplies :: "string option list"
  repServed :: "rep_request list"
  contextDone :: "bool list"
  repTotalBatches :: u64
  repTotalRows :: u64
  repTotalErrors :: u64

definition failedDataSuffix :: string where "failedDataSuffix = ''.rowbinary.done''"

record candidate =
  dataPath :: path
  metaPath :: path
  candModTime :: int
  candMeta :: FailedInsertBatchMeta

datatype candidate_error =
    InfoFailed | StatFailed | ReadMetadata | DecodeMetadata | UnsupportedFormat string | BadSchema schema_error
  | BadTableName table_error | RowsNotPositive | BytesNotPositive | SizeMismatch int int

record scanResult =
  candidates :: "candidate list"
  invalid :: "(path \<times> path \<times> candidate_error) list"
  incompletePairs :: nat
  tooRecent :: nat

record cycleResult =
  discovered :: nat
  processed :: nat
  insertedRows :: u64
  failed :: nat
  quarantined :: nat
  cycleIncomplete :: nat
  cycleTooRecent :: nat

section \<open>Reading the spool\<close>

text \<open>The bytes of a data file.\<close>

definition dataBytes :: "spoolView \<Rightarrow> path \<Rightarrow> spool_file content \<Rightarrow> bytes" where
  "dataBytes v p content = (case content of Whole (BodyFile bs) \<Rightarrow> bs | _ \<Rightarrow> oddBytes v p)"

datatype stat_result = StatMissing | StatError | StatOk

definition statFile :: "path \<Rightarrow> 'c world \<Rightarrow> stat_result \<times> 'c world" where
  "statFile p w =
     (if fileAt w p = None then (StatMissing, w)
      else let (ok, w) = quietCall w in (if ok then StatOk else StatError, w))"

text \<open>\<open>None\<close> on the left is the missing metadata.\<close>

definition loadCandidate :: "path \<Rightarrow> path \<Rightarrow> int \<Rightarrow> int \<Rightarrow> spool_file world
    \<Rightarrow> (candidate_error option + candidate) \<times> spool_file world" where
  "loadCandidate dataP metaP mtime actualSize w =
     (if fileAt w metaP = None then (Inl None, w)
      else let (payload, w) = readFile metaP w
      in (case payload of
            None \<Rightarrow> Inl (Some ReadMetadata)
          | Some (Whole (MetaFile m)) \<Rightarrow>
              (if toLower (Format m) \<noteq> toLower ''RowBinary'' then Inl (Some (UnsupportedFormat (Format m)))
               else case normalizeRowBinarySchema (SchemaVersion m) of
                 Inl e \<Rightarrow> Inl (Some (BadSchema e))
               | Inr schemaVersion \<Rightarrow>
                   (let m = m\<lparr>SchemaVersion := schemaVersion\<rparr>
                    in case validateTableName (MetaTable m) of
                      Some e \<Rightarrow> Inl (Some (BadTableName e))
                    | None \<Rightarrow>
                        (if MetaRows m \<le> 0 then Inl (Some RowsNotPositive)
                         else if MetaBytes m \<le> 0 then Inl (Some BytesNotPositive)
                         else if actualSize \<noteq> MetaBytes m then Inl (Some (SizeMismatch actualSize (MetaBytes m)))
                         else Inr \<lparr>dataPath = dataP, metaPath = metaP, candModTime = mtime, candMeta = m\<rparr>)))
          | Some _ \<Rightarrow> Inl (Some DecodeMetadata), w))"

definition addInvalid :: "path \<Rightarrow> path \<Rightarrow> candidate_error \<Rightarrow> scanResult \<Rightarrow> scanResult" where
  "addInvalid dataP metaP e r = r\<lparr>invalid := invalid r @ [(dataP, metaP, e)]\<rparr>"

definition scanEntry :: "spoolView \<Rightarrow> repConfig \<Rightarrow> int \<Rightarrow> string \<Rightarrow> scanResult \<times> spool_file world \<Rightarrow> scanResult \<times> spool_file world" where
  "scanEntry v cfg now name = (\<lambda>(r, w).
     if \<not> hasSuffix name failedDataSuffix then (r, w)
     else let dataP = (repDoneDir cfg, name);
              metaP = (repDoneDir cfg, name @ ''.json'');
              (info, w) = statFile dataP w
          in if info \<noteq> StatOk then (addInvalid dataP metaP InfoFailed r, w)
          else if now - modTime v dataP < repMinAge cfg then (r\<lparr>tooRecent := tooRecent r + 1\<rparr>, w)
          else let (metaInfo, w) = statFile metaP w
          in if metaInfo = StatMissing then (r\<lparr>incompletePairs := incompletePairs r + 1\<rparr>, w)
          else if metaInfo = StatError then (addInvalid dataP metaP StatFailed r, w)
          else if now - modTime v metaP < repMinAge cfg then (r\<lparr>tooRecent := tooRecent r + 1\<rparr>, w)
          else let size = (case fileAt w dataP of None \<Rightarrow> 0 | Some c \<Rightarrow> int (length (dataBytes v dataP c)));
                   (item, w) = loadCandidate dataP metaP (modTime v dataP) size w
          in case item of
               Inl None \<Rightarrow> (r\<lparr>incompletePairs := incompletePairs r + 1\<rparr>, w)
             | Inl (Some e) \<Rightarrow> (addInvalid dataP metaP e r, w)
             | Inr c \<Rightarrow> (r\<lparr>candidates := candidates r @ [c]\<rparr>, w))"

text \<open>
  \<open>sort.Slice\<close> orders by modification time; the order of equal times is unspecified, the model
  keeps the directory's.
\<close>

definition scan :: "spoolView \<Rightarrow> repConfig \<Rightarrow> int \<Rightarrow> int \<Rightarrow> spool_file world \<Rightarrow> scanResult option \<times> spool_file world" where
  "scan v cfg now limit w =
     (case readDir (repDoneDir cfg) w of
        (None, w) \<Rightarrow> (None, w)
      | (Some entries, w) \<Rightarrow>
          (let (r, w) = fold (scanEntry v cfg now) entries
                 (\<lparr>candidates = [], invalid = [], incompletePairs = 0, tooRecent = 0\<rparr>, w);
               sorted = sort_key candModTime (candidates r)
           in (Some (r\<lparr>candidates := if limit > 0 \<and> int (length sorted) > limit then take (nat limit) sorted else sorted\<rparr>), w)))"

section \<open>Moving a pair\<close>

datatype move_error = MkdirFailed | DestinationExists path | StatDestination | MoveData | MoveMetadata | RollbackFailed

definition movePairWithDestinations :: "path \<Rightarrow> path \<Rightarrow> string \<Rightarrow> spool_file world
    \<Rightarrow> (move_error + path \<times> path) \<times> spool_file world" where
  "movePairWithDestinations dataP metaP dir w =
     (let (made, w) = quietCall w
      in if \<not> made then (Inl MkdirFailed, w)
      else let destData = (dir, snd dataP); destMeta = (dir, snd metaP);
               (s, w) = statFile destData w
      in if s = StatOk then (Inl (DestinationExists destData), w)
      else if s = StatError then (Inl StatDestination, w)
      else let (s, w) = statFile destMeta w
      in if s = StatOk then (Inl (DestinationExists destMeta), w)
      else if s = StatError then (Inl StatDestination, w)
      else let (moved, w) = renameFile dataP destData w
      in if \<not> moved then (Inl MoveData, w)
      else let (moved, w) = renameFile metaP destMeta w
      in if \<not> moved
         then (let (back, w) = renameFile destData dataP w in (Inl (if back then MoveMetadata else RollbackFailed), w))
         else (Inr (destData, destMeta), w))"

datatype finalize_error = NotMoved move_error | NotDeleted path

definition finalizeSuccess :: "repConfig \<Rightarrow> candidate \<Rightarrow> spool_file world \<Rightarrow> finalize_error option \<times> spool_file world" where
  "finalizeSuccess cfg item w =
     (case movePairWithDestinations (dataPath item) (metaPath item) (repArchiveDir cfg) w of
        (Inl e, w) \<Rightarrow> (Some (NotMoved e), w)
      | (Inr (archivedData, archivedMeta), w) \<Rightarrow>
          (if repSuccessAction cfg = successActionArchive then (None, w)
           else let (removed, w) = removeFile archivedData w
           in if \<not> removed then (Some (NotDeleted archivedData), w)
           else let (removed, w) = removeFile archivedMeta w
           in (if removed then None else Some (NotDeleted archivedMeta), w)))"

section \<open>Inserting\<close>

definition queryIDForFile :: "(bytes \<Rightarrow> bytes) \<Rightarrow> string \<Rightarrow> string" where
  "queryIDForFile sha fileName = ''cgn_failed_reprocess_'' @ hexEncode (take 12 (sha (map of_char fileName)))"

definition doRequest :: "rep_request \<Rightarrow> reprocessor \<Rightarrow> string option \<times> reprocessor" where
  "doRequest req r =
     (let (reply, rest) = popOr None (repReplies r);
          r = r\<lparr>repReplies := rest\<rparr>
      in case reply of None \<Rightarrow> (None, r\<lparr>repServed := repServed r @ [req]\<rparr>) | Some e \<Rightarrow> (Some e, r))"

datatype attempt_error = EnsureSchema schema_error | RequestFailed string | OpenFailed | InsertSchema schema_error | LengthMismatch

definition ensureTable :: "repConfig \<Rightarrow> string \<Rightarrow> int \<Rightarrow> reprocessor \<Rightarrow> attempt_error option \<times> reprocessor" where
  "ensureTable cfg tableName schemaVersion r =
     (if \<not> repAutoCreateTable cfg then (None, r)
      else if tableName \<in> set (knownTables r) then (None, r)
      else case reprocessCreateTableDDL tableName schemaVersion of
             Inl e \<Rightarrow> (Some (EnsureSchema e), r)
           | Inr ddl \<Rightarrow>
               (case doRequest (RepCreateTable ddl) r of
                  (Some e, r) \<Rightarrow> (Some (RequestFailed e), r)
                | (None, r) \<Rightarrow> (None, r\<lparr>knownTables := tableName # knownTables r\<rparr>)))"

text \<open>
  The request carries the file as its body under the declared length; the transport fails when
  they differ.
\<close>

definition insertFile :: "spoolView \<Rightarrow> candidate \<Rightarrow> reprocessor \<Rightarrow> attempt_error option \<times> reprocessor" where
  "insertFile v item r =
     (case fileAt (repDisk r) (dataPath item) of
        None \<Rightarrow> (Some OpenFailed, r)
      | Some content \<Rightarrow>
          (let (opened, w) = quietCall (repDisk r);
               r = r\<lparr>repDisk := w\<rparr>
           in if \<not> opened then (Some OpenFailed, r)
           else case reprocessInsertQuery (MetaTable (candMeta item)) (SchemaVersion (candMeta item)) of
                  Inl e \<Rightarrow> (Some (InsertSchema e), r)
                | Inr query \<Rightarrow>
                    (let body = dataBytes v (dataPath item) content
                     in if int (length body) \<noteq> MetaBytes (candMeta item) then (Some LengthMismatch, r)
                        else case doRequest (RepInsert query (queryIDForFile (sha256 v) (snd (dataPath item))) body) r of
                               (Some e, r) \<Rightarrow> (Some (RequestFailed e), r)
                             | (None, r) \<Rightarrow> (None, r))))"

text \<open>\<open>False\<close>: the context was cancelled during the sleep.\<close>

definition sleepContext :: "int \<Rightarrow> reprocessor \<Rightarrow> bool \<times> reprocessor" where
  "sleepContext duration r =
     (if duration \<le> 0 then (True, r)
      else let (cancelled, rest) = popOr False (contextDone r) in (\<not> cancelled, r\<lparr>contextDone := rest\<rparr>))"

datatype process_error = AttemptFailed attempt_error | FinalizeFailed finalize_error | Cancelled

definition attemptInsert :: "spoolView \<Rightarrow> repConfig \<Rightarrow> candidate \<Rightarrow> reprocessor \<Rightarrow> attempt_error option \<times> reprocessor" where
  "attemptInsert v cfg item r =
     (case ensureTable cfg (MetaTable (candMeta item)) (SchemaVersion (candMeta item)) r of
        (Some e, r) \<Rightarrow> (Some e, r)
      | (None, r) \<Rightarrow> insertFile v item r)"

text \<open>The attempts left; the attempt's number scales the delay.\<close>

fun processAttempts :: "spoolView \<Rightarrow> repConfig \<Rightarrow> candidate \<Rightarrow> nat \<Rightarrow> process_error option \<Rightarrow> reprocessor
    \<Rightarrow> process_error option \<times> reprocessor" where
  "processAttempts v cfg item 0 lastErr r = (lastErr, r)"
| "processAttempts v cfg item (Suc n) lastErr r =
     (case attemptInsert v cfg item r of
        (None, r) \<Rightarrow>
          (let (e, w) = finalizeSuccess cfg item (repDisk r) in (map_option FinalizeFailed e, r\<lparr>repDisk := w\<rparr>))
      | (Some e, r) \<Rightarrow>
          (if n = 0 then processAttempts v cfg item n (Some (AttemptFailed e)) r
           else let (awake, r) = sleepContext ((repMaxRetries cfg - int n) * repRetryDelay cfg) r
                in if \<not> awake then (Some Cancelled, r)
                   else processAttempts v cfg item n (Some (AttemptFailed e)) r))"

definition processCandidate :: "spoolView \<Rightarrow> repConfig \<Rightarrow> candidate \<Rightarrow> reprocessor \<Rightarrow> process_error option \<times> reprocessor" where
  "processCandidate v cfg item r = processAttempts v cfg item (nat (repMaxRetries cfg)) None r"

section \<open>One cycle\<close>

definition quarantineInvalid :: "repConfig \<Rightarrow> path \<times> path \<times> candidate_error \<Rightarrow> cycleResult \<times> reprocessor \<Rightarrow> cycleResult \<times> reprocessor" where
  "quarantineInvalid cfg = (\<lambda>(dataP, metaP, err) (res, r).
     case movePairWithDestinations dataP metaP (repBadDir cfg) (repDisk r) of
       (Inl e, w) \<Rightarrow> (res\<lparr>failed := failed res + 1\<rparr>, r\<lparr>repDisk := w, repTotalErrors := repTotalErrors r + 1\<rparr>)
     | (Inr _, w) \<Rightarrow> (res\<lparr>quarantined := quarantined res + 1\<rparr>, r\<lparr>repDisk := w\<rparr>))"

definition processItem :: "spoolView \<Rightarrow> repConfig \<Rightarrow> candidate \<Rightarrow> cycleResult \<times> reprocessor \<Rightarrow> cycleResult \<times> reprocessor" where
  "processItem v cfg item = (\<lambda>(res, r).
     let (err, r) = processCandidate v cfg item r;
         res = res\<lparr>processed := processed res + 1\<rparr>
     in case err of
          Some e \<Rightarrow> (res\<lparr>failed := failed res + 1\<rparr>, r\<lparr>repTotalErrors := repTotalErrors r + 1\<rparr>)
        | None \<Rightarrow>
            (let rows = word_of_int (MetaRows (candMeta item))
             in (res\<lparr>insertedRows := insertedRows res + rows\<rparr>,
                 r\<lparr>repTotalBatches := repTotalBatches r + 1, repTotalRows := repTotalRows r + rows\<rparr>)))"

definition cycleLimit :: "repConfig \<Rightarrow> int \<Rightarrow> int" where
  "cycleLimit cfg limit =
     (if limit > 0 \<and> (repScanLimit cfg = 0 \<or> limit < repScanLimit cfg) then limit else repScanLimit cfg)"

end
