(* ===== verification/Recovery.thy ===== *)
theory Recovery
  imports Reprocessor
begin

text \<open>
  What the reprocessor guarantees: a pair of files is moved as a whole or not at all, a batch
  leaves the disk only after ClickHouse acknowledged it, and a batch the collector spooled is read
  back and inserted with the collector's own statement and bytes.
\<close>

section \<open>Moving a pair\<close>

lemma statFile_cases:
  assumes "statFile p w = (s, w')"
  obtains "s = StatMissing" "w' = w" "fileAt w p = None"
  | ok where "s \<noteq> StatMissing" "quietCall w = (ok, w')" "fileAt w p \<noteq> None"
proof -
  obtain ok w1 where 1: "quietCall w = (ok, w1)" by fastforce
  show thesis
    using assms that 1 by (cases "fileAt w p = None"; cases ok) (simp_all add: statFile_def)
qed

lemma statFile_result:
  assumes "statFile p w = (s, w')"
  shows "files w' = files w" "fileAt w' q = fileAt w q" "s = StatMissing \<longleftrightarrow> fileAt w p = None"
  using assms by (auto elim!: statFile_cases simp: quietCall_files quietCall_fileAt)

lemma statFile_keeps:
  assumes "statFile p w = (s, w')" "Q (files w)"
  shows "keeps Q w w' \<and> Q (files w')"
  by (rule statFile_cases [OF assms(1)]) (use assms(2) quietCall_keeps [of w _ w' Q] in auto)

text \<open>
  Where one file of a pair may be, and the states of the disk while the pair \<open>(data, meta)\<close> with
  the contents \<open>cd\<close> and \<open>cm\<close> moves to \<open>(data', meta')\<close>.
\<close>

definition at_one :: "path \<Rightarrow> path \<Rightarrow> spool_file content \<Rightarrow> spool_file disk \<Rightarrow> bool" where
  "at_one src dst c d \<longleftrightarrow> map_of d src = Some c \<and> map_of d dst = None \<or> map_of d src = None \<and> map_of d dst = Some c"

definition moving :: "path \<times> path \<Rightarrow> path \<times> path \<Rightarrow> spool_file content \<times> spool_file content
    \<Rightarrow> spool_file disk \<Rightarrow> spool_file disk \<Rightarrow> bool" where
  "moving = (\<lambda>(data, meta) (data', meta') (cd, cm) d0 d.
     at_one data data' cd d \<and> at_one meta meta' cm d
     \<and> (\<forall>q. q \<notin> {data, meta, data', meta'} \<longrightarrow> map_of d q = map_of d0 q))"

definition destinations :: "path \<Rightarrow> path \<Rightarrow> string \<Rightarrow> path \<times> path" where
  "destinations data meta dir = ((dir, snd data), (dir, snd meta))"

text \<open>The disks the renames produce.\<close>

lemma moving_disks:
  assumes "distinct [data, meta, data', meta']" "map_of d data = Some cd" "map_of d meta = Some cm"
    "map_of d data' = None" "map_of d meta' = None"
  defines "d1 \<equiv> AList.update data' cd (AList.delete data d)"
  shows "moving (data, meta) (data', meta') (cd, cm) d d"
    and "moving (data, meta) (data', meta') (cd, cm) d d1"
    and "moving (data, meta) (data', meta') (cd, cm) d (AList.update meta' cm (AList.delete meta d1))"
    and "moving (data, meta) (data', meta') (cd, cm) d (AList.update data cd (AList.delete data' d1))"
  using assms by (auto simp: moving_def at_one_def)

lemma renameFile_other:
  "renameFile src dst w = (ok, w') \<Longrightarrow> q \<noteq> src \<Longrightarrow> q \<noteq> dst \<Longrightarrow> fileAt w' q = fileAt w q"
  by (auto simp: renameFile_def fileAt_def split: option.splits elim!: sysCall_cases)

lemma renameFile_gone:
  "renameFile src dst w = (True, w') \<Longrightarrow> src \<noteq> dst \<Longrightarrow> fileAt w' src = None"
  by (auto simp: renameFile_def fileAt_def split: option.splits elim!: sysCall_cases)

lemma renameFile_files:
  "renameFile src dst w = (ok, w') \<Longrightarrow> fileAt w src = Some c \<Longrightarrow>
    files w' = (if ok then AList.update dst c (AList.delete src (files w)) else files w)"
  by (auto simp: renameFile_def elim!: sysCall_cases)

lemma rename_keeps_both:
  assumes "renameFile src dst w = (ok, w')" "fileAt w src = Some c" "Q (files w)"
    and "Q (AList.update dst c (AList.delete src (files w)))"
  shows "keeps Q w w' \<and> Q (files w')"
  by (rule renameFile_keeps [OF assms(1), where Q = Q]) (use assms(2-4) in auto)

text \<open>The renames at the end of a move, once the destinations are free.\<close>

definition renames :: "path \<Rightarrow> path \<Rightarrow> path \<Rightarrow> path \<Rightarrow> spool_file world \<Rightarrow> (move_error + path \<times> path) \<times> spool_file world" where
  "renames data meta data' meta' w =
     (let (moved, w) = renameFile data data' w
      in if \<not> moved then (Inl MoveData, w)
      else let (moved, w) = renameFile meta meta' w
      in if \<not> moved
         then (let (back, w) = renameFile data' data w in (Inl (if back then MoveMetadata else RollbackFailed), w))
         else (Inr (data', meta'), w))"

lemma renames_states:
  assumes run: "renames data meta data' meta' w = (res, w')"
    and paths: "distinct [data, meta, data', meta']"
    and there: "fileAt w data = Some cd" "fileAt w meta = Some cm" "fileAt w data' = None" "fileAt w meta' = None"
  defines "Q \<equiv> moving (data, meta) (data', meta') (cd, cm) (files w)"
  shows "keeps Q w w' \<and> Q (files w')
    \<and> (case res of
         Inr ps \<Rightarrow> ps = (data', meta') \<and> fileAt w' data' = Some cd \<and> fileAt w' meta' = Some cm
       | Inl e \<Rightarrow> fileAt w' meta = Some cm \<and> (if e = RollbackFailed then fileAt w' data' = Some cd else fileAt w' data = Some cd))"
proof -
  have neq: "data \<noteq> meta" "data \<noteq> data'" "data \<noteq> meta'" "meta \<noteq> data'" "meta \<noteq> meta'" "data' \<noteq> meta'"
    "meta \<noteq> data" "data' \<noteq> data" "meta' \<noteq> data" "data' \<noteq> meta" "meta' \<noteq> meta" "meta' \<noteq> data'"
    using paths by auto
  obtain b1 w1 where 1: "renameFile data data' w = (b1, w1)" by fastforce
  obtain b2 w2 where 2: "renameFile meta meta' w1 = (b2, w2)" by fastforce
  obtain b3 w3 where 3: "renameFile data' data w2 = (b3, w3)" by fastforce
  let ?d1 = "AList.update data' cd (AList.delete data (files w))"
  have disks: "Q (files w)" "Q ?d1" "Q (AList.update meta' cm (AList.delete meta ?d1))" "Q (AList.update data cd (AList.delete data' ?d1))"
    using moving_disks [OF paths there [unfolded fileAt_def]] by (simp_all add: Q_def)
  have f1: "files w1 = (if b1 then ?d1 else files w)" by (rule renameFile_files [OF 1 there(1)])
  have k1: "keeps Q w w1 \<and> Q (files w1)" by (rule rename_keeps_both [OF 1 there(1) disks(1,2)])
  show ?thesis
  proof (cases b1)
    case False
    with run 1 have "res = Inl MoveData" "w' = w1" by (auto simp: renames_def)
    with k1 f1 False there show ?thesis by (simp add: fileAt_def)
  next
    case b1: True
    have m1: "fileAt w1 meta = Some cm" "fileAt w1 data' = Some cd"
      using f1 b1 neq there by (simp_all add: fileAt_def)
    have f2: "files w2 = (if b2 then AList.update meta' cm (AList.delete meta (files w1)) else files w1)"
      by (rule renameFile_files [OF 2 m1(1)])
    have k2: "keeps Q w1 w2 \<and> Q (files w2)"
      by (rule rename_keeps_both [OF 2 m1(1)]) (use disks b1 f1 in simp_all)
    have r2: "keeps Q w w2" by (rule keeps_trans [OF conjunct1 [OF k1] conjunct1 [OF k2]])
    show ?thesis
    proof (cases b2)
      case True
      with run 1 2 b1 have "res = Inr (data', meta')" "w' = w2" by (auto simp: renames_def)
      with r2 k2 f1 f2 True b1 neq show ?thesis by (simp add: fileAt_def)
    next
      case False
      have m2: "fileAt w2 data' = Some cd" using m1 f2 False by (simp add: fileAt_def)
      have f3: "files w3 = (if b3 then AList.update data cd (AList.delete data' (files w2)) else files w2)"
        by (rule renameFile_files [OF 3 m2])
      have k3: "keeps Q w2 w3 \<and> Q (files w3)"
        by (rule rename_keeps_both [OF 3 m2]) (use disks b1 f1 f2 False in simp_all)
      have r3: "keeps Q w w3" by (rule keeps_trans [OF r2 conjunct1 [OF k3]])
      have "res = Inl (if b3 then MoveMetadata else RollbackFailed)" "w' = w3"
        using run 1 2 3 b1 False by (auto simp: renames_def)
      with r3 k3 f1 f2 f3 False b1 neq there show ?thesis by (simp add: fileAt_def)
    qed
  qed
qed

lemma movePair_cases:
  assumes run: "movePairWithDestinations data meta dir w = (res, w')" and "destinations data meta dir = (data', meta')"
  obtains (early) e where "res = Inl e" "e \<noteq> RollbackFailed" "files w' = files w" "keeps (\<lambda>d. d = files w) w w'"
      "e \<in> {MkdirFailed, StatDestination} \<or> fileAt w data' \<noteq> None \<or> fileAt w meta' \<noteq> None"
    | (moves) x where "files x = files w" "keeps (\<lambda>d. d = files w) w x" "renames data meta data' meta' x = (res, w')"
      "fileAt w data' = None" "fileAt w meta' = None"
proof -
  have dest: "data' = (dir, snd data)" "meta' = (dir, snd meta)" using assms(2) by (auto simp: destinations_def)
  obtain b1 w1 where 1: "quietCall w = (b1, w1)" by fastforce
  obtain s2 w2 where 2: "statFile data' w1 = (s2, w2)" by fastforce
  obtain s3 w3 where 3: "statFile meta' w2 = (s3, w3)" by fastforce
  have same: "files w1 = files w" "files w2 = files w" "files w3 = files w"
    using quietCall_files [OF 1] statFile_result(1) [OF 2] statFile_result(1) [OF 3] by simp_all
  have k1: "keeps (\<lambda>d. d = files w) w w1" using quietCall_keeps [OF 1, of "\<lambda>d. d = files w"] by simp
  have k2: "keeps (\<lambda>d. d = files w) w w2"
    using statFile_keeps [OF 2, of "\<lambda>d. d = files w"] same by (intro keeps_trans [OF k1]) simp
  have k3: "keeps (\<lambda>d. d = files w) w w3"
    using statFile_keeps [OF 3, of "\<lambda>d. d = files w"] same by (intro keeps_trans [OF k2]) simp
  have stat: "s2 = StatMissing \<longleftrightarrow> fileAt w data' = None" "s3 = StatMissing \<longleftrightarrow> fileAt w meta' = None"
    using statFile_result(3) [OF 2] statFile_result(3) [OF 3] same by (simp_all add: fileAt_def)
  show thesis
  proof (cases "b1 \<and> s2 = StatMissing \<and> s3 = StatMissing")
    case True
    then have "renames data meta data' meta' w3 = (res, w')"
      using run 1 2 3 by (simp add: movePairWithDestinations_def renames_def dest Let_def)
    with moves same k3 stat True show thesis by blast
  next
    case False
    then obtain e where "res = Inl e" "e \<in> {MkdirFailed, StatDestination, DestinationExists data', DestinationExists meta'}"
      "w' \<in> {w1, w2, w3}" "e \<in> {MkdirFailed, StatDestination} \<or> fileAt w data' \<noteq> None \<or> fileAt w meta' \<noteq> None"
      using run 1 2 3 stat by (cases b1; cases s2; cases s3) (auto simp: movePairWithDestinations_def dest Let_def)
    with early [of e] same k1 k2 k3 show thesis by auto
  qed
qed

lemma movePair_states:
  assumes run: "movePairWithDestinations data meta dir w = (res, w')" and dest: "destinations data meta dir = (data', meta')"
    and paths: "distinct [data, meta, data', meta']"
    and there: "fileAt w data = Some cd" "fileAt w meta = Some cm"
  shows "(fileAt w data' = None \<and> fileAt w meta' = None \<longrightarrow>
      keeps (moving (data, meta) (data', meta') (cd, cm) (files w)) w w'
      \<and> moving (data, meta) (data', meta') (cd, cm) (files w) (files w')
      \<and> (case res of
           Inr ps \<Rightarrow> ps = (data', meta') \<and> fileAt w' data' = Some cd \<and> fileAt w' meta' = Some cm
         | Inl e \<Rightarrow> fileAt w' meta = Some cm \<and> (if e = RollbackFailed then fileAt w' data' = Some cd else fileAt w' data = Some cd)))
    \<and> (fileAt w data' \<noteq> None \<or> fileAt w meta' \<noteq> None \<longrightarrow> (\<exists>e. res = Inl e) \<and> files w' = files w \<and> keeps (\<lambda>d. d = files w) w w')"
  using run dest
proof (cases rule: movePair_cases)
  case (early e)
  have "moving (data, meta) (data', meta') (cd, cm) (files w) (files w)" if "fileAt w data' = None" "fileAt w meta' = None"
    using moving_disks(1) [OF paths] there that by (simp add: fileAt_def)
  with early there show ?thesis by (auto simp: fileAt_def elim: keeps_mono)
next
  case (moves x)
  have at: "fileAt x p = fileAt w p" for p using moves(1) by (simp add: fileAt_def)
  have Q: "moving (data, meta) (data', meta') (cd, cm) (files w) (files w)"
    using moving_disks(1) [OF paths] there moves(4,5) by (simp add: fileAt_def)
  have start: "keeps (moving (data, meta) (data', meta') (cd, cm) (files w)) w x"
    by (rule keeps_mono [OF moves(2)]) (simp add: Q)
  have "fileAt x data = Some cd" "fileAt x meta = Some cm" "fileAt x data' = None" "fileAt x meta' = None"
    using at there moves(4,5) by simp_all
  from renames_states [OF moves(3) paths this] moves(1,4,5) keeps_trans [OF start] show ?thesis by simp
qed


text \<open>
  C29. Moving a data file and its metadata to another directory
  (\<open>movePairWithDestinations\<close>), whatever calls fail and wherever the process stops: each of the two
  files is complete at exactly one of its two places, and no other file changes.  Success means both
  arrived; an error means both are where they were, except that a failed rollback leaves the data at
  the destination and the metadata behind.  When a destination is taken the disk is never touched.
\<close>

theorem move_pair_atomic:
  assumes "movePairWithDestinations data meta dir w = (res, w')" "destinations data meta dir = (data', meta')"
    and "distinct [data, meta, data', meta']" "fileAt w data = Some cd" "fileAt w meta = Some cm"
  shows "(fileAt w data' = None \<and> fileAt w meta' = None \<longrightarrow>
      keeps (moving (data, meta) (data', meta') (cd, cm) (files w)) w w'
      \<and> moving (data, meta) (data', meta') (cd, cm) (files w) (files w')
      \<and> (case res of
           Inr ps \<Rightarrow> ps = (data', meta') \<and> fileAt w' data' = Some cd \<and> fileAt w' meta' = Some cm
         | Inl e \<Rightarrow> fileAt w' meta = Some cm \<and> (if e = RollbackFailed then fileAt w' data' = Some cd else fileAt w' data = Some cd)))
    \<and> (fileAt w data' \<noteq> None \<or> fileAt w meta' \<noteq> None \<longrightarrow> (\<exists>e. res = Inl e) \<and> files w' = files w \<and> keeps (\<lambda>d. d = files w) w w')"
  using assms by (rule movePair_states)

definition example_meta :: FailedInsertBatchMeta where
  "example_meta = \<lparr>SchemaVersion = 2, CreatedTime = ''2025-07-21 19:00:00'', MetaTable = ''cgnat.nat'', MetaRows = 1,
     MetaBytes = 35, Format = ''RowBinary'', Error = ''timeout''\<rparr>"

text \<open>The second rename fails, and so does the rollback.\<close>

definition example_spool :: "bool list \<Rightarrow> spool_file world" where
  "example_spool fs = \<lparr>files = [((''/s/done'', ''b.rowbinary.done''), Whole (BodyFile (replicate 35 7))),
      ((''/s/done'', ''b.rowbinary.done.json''), Whole (MetaFile example_meta))], faults = fs, suffixes = [], trace = []\<rparr>"

theorem move_pair_atomic_witness:
  "let w = example_spool [False, False, True, True];
       res = movePairWithDestinations (''/s/done'', ''b.rowbinary.done'') (''/s/done'', ''b.rowbinary.done.json'') ''/s/bad'' w
   in fst res = Inl RollbackFailed \<and> fileAt (snd res) (''/s/bad'', ''b.rowbinary.done'') = Some (Whole (BodyFile (replicate 35 7)))
      \<and> fileAt (snd res) (''/s/done'', ''b.rowbinary.done.json'') = Some (Whole (MetaFile example_meta))"
proof -
  let ?w = "example_spool [False, False, True, True]"
  let ?data = "(''/s/done'', ''b.rowbinary.done'')" and ?meta = "(''/s/done'', ''b.rowbinary.done.json'')"
  obtain res w' where run: "movePairWithDestinations ?data ?meta ''/s/bad'' ?w = (res, w')" by fastforce
  have "fst (movePairWithDestinations ?data ?meta ''/s/bad'' ?w) = Inl RollbackFailed" by code_simp
  with run have res: "res = Inl RollbackFailed" by simp
  have dest: "destinations ?data ?meta ''/s/bad'' = ((''/s/bad'', ''b.rowbinary.done''), (''/s/bad'', ''b.rowbinary.done.json''))"
    by (simp add: destinations_def)
  have there: "fileAt ?w ?data = Some (Whole (BodyFile (replicate 35 7)))" "fileAt ?w ?meta = Some (Whole (MetaFile example_meta))"
    by (simp_all add: fileAt_def example_spool_def)
  have free: "fileAt ?w (''/s/bad'', ''b.rowbinary.done'') = None" "fileAt ?w (''/s/bad'', ''b.rowbinary.done.json'') = None"
    by (simp_all add: fileAt_def example_spool_def)
  from move_pair_atomic [OF run dest _ there] free res run show ?thesis by (simp add: Let_def)
qed

section \<open>Inserting a candidate\<close>

definition is_create :: "rep_request \<Rightarrow> bool" where
  "is_create q = (case q of RepCreateTable _ \<Rightarrow> True | RepInsert _ _ _ \<Rightarrow> False)"

text \<open>The insert the file \<open>content\<close> of a candidate makes.\<close>

definition inserts :: "spoolView \<Rightarrow> candidate \<Rightarrow> spool_file content \<Rightarrow> rep_request \<Rightarrow> bool" where
  "inserts v item content q \<longleftrightarrow>
     (\<exists>query. reprocessInsertQuery (MetaTable (candMeta item)) (SchemaVersion (candMeta item)) = Inr query
        \<and> q = RepInsert query (queryIDForFile (sha256 v) (snd (dataPath item))) (dataBytes v (dataPath item) content)
        \<and> int (length (dataBytes v (dataPath item) content)) = MetaBytes (candMeta item))"

lemma doRequest_effect:
  "doRequest q r = (e, r') \<Longrightarrow> repServed r' = repServed r @ (if e = None then [q] else []) \<and> repDisk r' = repDisk r"
  by (auto simp: doRequest_def Let_def split: prod.splits option.splits)

lemma ensureTable_effect:
  assumes "ensureTable cfg t s r = (e, r')"
  obtains creates where "repServed r' = repServed r @ creates" "list_all is_create creates" "repDisk r' = repDisk r"
  using assms that by (auto simp: ensureTable_def is_create_def split: if_splits sum.splits prod.splits option.splits
      dest!: doRequest_effect)

lemma insertFile_effect:
  assumes "insertFile v item r = (e, r')"
  shows "files (repDisk r') = files (repDisk r) \<and> keeps (\<lambda>d. d = files (repDisk r)) (repDisk r) (repDisk r')
    \<and> (if e = None then \<exists>content q. fileAt (repDisk r) (dataPath item) = Some content \<and> inserts v item content q
           \<and> repServed r' = repServed r @ [q]
        else repServed r' = repServed r)"
proof (cases "fileAt (repDisk r) (dataPath item)")
  case None
  with assms show ?thesis by (auto simp: insertFile_def)
next
  case (Some content)
  obtain b w where 1: "quietCall (repDisk r) = (b, w)" by fastforce
  have same: "files w = files (repDisk r)" "keeps (\<lambda>d. d = files (repDisk r)) (repDisk r) w"
    using quietCall_files [OF 1] quietCall_keeps [OF 1, of "\<lambda>d. d = files (repDisk r)"] by simp_all
  from assms Some 1 same show ?thesis
    by (auto simp: insertFile_def inserts_def Let_def split: if_splits sum.splits prod.splits option.splits
        dest!: doRequest_effect)
qed

text \<open>An attempt does not touch the disk; it inserts the file or fails.\<close>

lemma attemptInsert_effect:
  assumes "attemptInsert v cfg item r = (e, r')"
  shows "files (repDisk r') = files (repDisk r) \<and> keeps (\<lambda>d. d = files (repDisk r)) (repDisk r) (repDisk r')
    \<and> (\<exists>creates q. list_all is_create creates \<and> repServed r' = repServed r @ creates @ (if e = None then [q] else [])
         \<and> (e = None \<longrightarrow> (\<exists>content. fileAt (repDisk r) (dataPath item) = Some content \<and> inserts v item content q)))"
proof -
  obtain e1 r1 where 1: "ensureTable cfg (MetaTable (candMeta item)) (SchemaVersion (candMeta item)) r = (e1, r1)" by fastforce
  then obtain creates where c: "repServed r1 = repServed r @ creates" "list_all is_create creates" "repDisk r1 = repDisk r"
    by (rule ensureTable_effect)
  show ?thesis
  proof (cases e1)
    case None
    with assms 1 have "insertFile v item r1 = (e, r')" by (simp add: attemptInsert_def)
    from insertFile_effect [OF this] c show ?thesis by (cases e) auto
  next
    case (Some x)
    with assms 1 c show ?thesis by (auto simp: attemptInsert_def)
  qed
qed


text \<open>The attempts either all fail, leaving the disk alone, or one insert is acknowledged and the files are finalized.\<close>

lemma processAttempts_effect:
  assumes "processAttempts v cfg item n lastErr r = (res, r')"
  shows "(\<exists>creates. list_all is_create creates \<and> repServed r' = repServed r @ creates \<and> files (repDisk r') = files (repDisk r)
        \<and> keeps (\<lambda>d. d = files (repDisk r)) (repDisk r) (repDisk r')
        \<and> (if n = 0 then res = lastErr else \<exists>e. res = Some e \<and> (\<forall>f. e \<noteq> FinalizeFailed f)))
    \<or> (\<exists>creates q content w fin. list_all is_create creates \<and> repServed r' = repServed r @ creates @ [q]
        \<and> fileAt (repDisk r) (dataPath item) = Some content \<and> inserts v item content q
        \<and> files w = files (repDisk r) \<and> keeps (\<lambda>d. d = files (repDisk r)) (repDisk r) w
        \<and> finalizeSuccess cfg item w = (fin, repDisk r') \<and> res = map_option FinalizeFailed fin)"
  using assms
proof (induction n arbitrary: lastErr r)
  case 0
  then show ?case by (intro disjI1 exI [of _ "[]"]) auto
next
  case (Suc n)
  obtain e r1 where 1: "attemptInsert v cfg item r = (e, r1)" by fastforce
  note a = attemptInsert_effect [OF 1]
  show ?case
  proof (cases e)
    case None
    obtain fin w where f: "finalizeSuccess cfg item (repDisk r1) = (fin, w)" by fastforce
    with Suc.prems 1 None have "res = map_option FinalizeFailed fin" "r' = r1\<lparr>repDisk := w\<rparr>" by simp_all
    with a f None show ?thesis by (intro disjI2) fastforce
  next
    case (Some x)
    obtain creates where c: "list_all is_create creates" "repServed r1 = repServed r @ creates"
      using a Some by auto
    obtain awake r2 where 2: "sleepContext ((repMaxRetries cfg - int n) * repRetryDelay cfg) r1 = (awake, r2)" by fastforce
    have r2: "repServed r2 = repServed r1" "repDisk r2 = repDisk r1"
      using 2 by (auto simp: sleepContext_def Let_def split: if_splits prod.splits)
    have at: "fileAt (repDisk r1) p = fileAt (repDisk r) p" for p using a by (simp add: fileAt_def)
    consider (last) "n = 0" "res = Some (AttemptFailed x)" "r' = r1" | (cancelled) "res = Some Cancelled" "r' = r2"
      | (again) "n > 0" "processAttempts v cfg item n (Some (AttemptFailed x)) r2 = (res, r')"
      using Suc.prems 1 2 Some by (cases "n = 0"; cases awake) simp_all
    then show ?thesis
    proof cases
      case again
      from Suc.IH [OF again(2)] show ?thesis
      proof (elim disjE exE conjE, goal_cases)
        case (1 more)
        have "keeps (\<lambda>d. d = files (repDisk r)) (repDisk r) (repDisk r')"
          by (rule keeps_trans [of _ _ "repDisk r1"]) (use a r2 1 in simp_all)
        with 1 a c r2 again(1) show ?case by (intro disjI1 exI [of _ "creates @ more"]) simp
      next
        case (2 more q content w fin)
        have "keeps (\<lambda>d. d = files (repDisk r)) (repDisk r) w"
          by (rule keeps_trans [of _ _ "repDisk r1"]) (use a r2 2 in simp_all)
        with 2 a c r2 at show ?case by (intro disjI2 exI [of _ "creates @ more"] exI [of _ q]) auto
      qed
    qed (use a c r2 in auto)
  qed
qed


lemma removeFile_files:
  "removeFile p w = (ok, w') \<Longrightarrow> files w' = (if ok then AList.delete p (files w) else files w)"
  by (auto simp: removeFile_def split: option.splits elim!: sysCall_cases)

lemma finalizeSuccess_effect:
  assumes run: "finalizeSuccess cfg item w = (fin, w')"
    and dest: "destinations (dataPath item) (metaPath item) (repArchiveDir cfg) = (data', meta')"
    and paths: "distinct [dataPath item, metaPath item, data', meta']"
    and there: "fileAt w (dataPath item) = Some cd" "fileAt w (metaPath item) = Some cm"
  shows "(fin = None \<longrightarrow> fileAt w' (dataPath item) = None \<and> fileAt w' (metaPath item) = None
      \<and> (if repSuccessAction cfg = successActionArchive then fileAt w' data' = Some cd \<and> fileAt w' meta' = Some cm
         else fileAt w' data' = None \<and> fileAt w' meta' = None))
    \<and> (fileAt w data' \<noteq> None \<or> fileAt w meta' \<noteq> None \<longrightarrow> (\<exists>e. fin = Some e) \<and> files w' = files w)"
proof -
  obtain res w1 where 1: "movePairWithDestinations (dataPath item) (metaPath item) (repArchiveDir cfg) w = (res, w1)" by fastforce
  obtain b2 w2 where 2: "removeFile data' w1 = (b2, w2)" by fastforce
  obtain b3 w3 where 3: "removeFile meta' w2 = (b3, w3)" by fastforce
  note m = movePair_states [OF 1 dest paths there]
  show ?thesis
  proof (cases res)
    case (Inl e)
    with run 1 have "fin = Some (NotMoved e)" "w' = w1" by (simp_all add: finalizeSuccess_def)
    with m show ?thesis by auto
  next
    case (Inr ps)
    with m have free: "fileAt w data' = None" "fileAt w meta' = None" by auto
    with m Inr have moved: "ps = (data', meta')" "fileAt w1 data' = Some cd" "fileAt w1 meta' = Some cm"
        "fileAt w1 (dataPath item) = None" "fileAt w1 (metaPath item) = None"
      by (auto simp: moving_def at_one_def fileAt_def)
    show ?thesis
    proof (cases "repSuccessAction cfg = successActionArchive")
      case True
      with run 1 Inr moved have "fin = None" "w' = w1" by (simp_all add: finalizeSuccess_def)
      with moved free True show ?thesis by simp
    next
      case False
      with run 1 2 3 Inr moved have "fin = (if \<not> b2 then Some (NotDeleted data') else if b3 then None else Some (NotDeleted meta'))"
          "b2 \<Longrightarrow> w' = w3"
        by (auto simp: finalizeSuccess_def)
      with removeFile_files [OF 2] removeFile_files [OF 3] moved free False paths show ?thesis
        by (auto simp: fileAt_def)
    qed
  qed
qed

text \<open>
  C4. Processing a spooled batch (\<open>processCandidate\<close>) inserts it at most once and
  never loses it: besides statements that create tables ClickHouse acknowledges either nothing, and
  then no state of the disk differs from the one before and the result is an error, or exactly one
  insert of the table of the metadata carrying the whole file.  The result is success only after
  that insert, and then the pair has left the spool, into the archive when archiving is configured;
  a failure after it is reported as a failed finalization.
\<close>

theorem no_loss_before_ack:
  assumes run: "processCandidate v cfg item r = (res, r')" and retries: "repMaxRetries cfg > 0"
    and dest: "destinations (dataPath item) (metaPath item) (repArchiveDir cfg) = (data', meta')"
    and paths: "distinct [dataPath item, metaPath item, data', meta']"
    and there: "fileAt (repDisk r) (dataPath item) = Some cd" "fileAt (repDisk r) (metaPath item) = Some cm"
  shows "\<exists>creates acks. list_all is_create creates \<and> repServed r' = repServed r @ creates @ acks
    \<and> (acks = [] \<and> files (repDisk r') = files (repDisk r) \<and> keeps (\<lambda>d. d = files (repDisk r)) (repDisk r) (repDisk r')
          \<and> (\<exists>e. res = Some e \<and> (\<forall>f. e \<noteq> FinalizeFailed f))
       \<or> (\<exists>q. acks = [q] \<and> inserts v item cd q
          \<and> (case res of
               Some e \<Rightarrow> \<exists>f. e = FinalizeFailed f
             | None \<Rightarrow> fileAt (repDisk r') (dataPath item) = None \<and> fileAt (repDisk r') (metaPath item) = None
                 \<and> (repSuccessAction cfg = successActionArchive \<longrightarrow>
                      fileAt (repDisk r') data' = Some cd \<and> fileAt (repDisk r') meta' = Some cm))))"
proof -
  note e = processAttempts_effect [OF run [unfolded processCandidate_def]]
  from e show ?thesis
  proof (elim disjE exE conjE, goal_cases)
    case (1 creates)
    with retries show ?case by (intro exI [of _ creates] exI [of _ "[]"]) (auto split: if_splits)
  next
    case (2 creates q content w fin)
    have at: "fileAt w p = fileAt (repDisk r) p" for p using 2 by (simp add: fileAt_def)
    have f: "fin = None \<Longrightarrow> fileAt (repDisk r') (dataPath item) = None \<and> fileAt (repDisk r') (metaPath item) = None
        \<and> (repSuccessAction cfg = successActionArchive \<longrightarrow>
             fileAt (repDisk r') data' = Some cd \<and> fileAt (repDisk r') meta' = Some cm)"
      using finalizeSuccess_effect [OF 2(7) dest paths, of cd cm] at there by (simp split: if_splits)
    show ?case
      by (rule exI [of _ creates], rule exI [of _ "[q]"]) (use 2 f there in \<open>cases fin; simp\<close>)
  qed
qed

definition example_view :: spoolView where
  "example_view = \<lparr>modTime = (\<lambda>_. 0), oddBytes = (\<lambda>_. []), sha256 = take 32\<rparr>"

definition example_repConfig :: "string \<Rightarrow> repConfig" where
  "example_repConfig action = \<lparr>repURL = ''http://127.0.0.1:8123'', repUser = ''admin'', repPass = [], repSpoolBase = ''/s'',
     repDoneDir = ''/s/done'', repArchiveDir = ''/s/reprocessed'', repBadDir = ''/s/bad'', repWorkers = 1,
     repPollInterval = 30000000000, repMinAge = 60, repHTTPTimeout = 180000000000, repMaxRetries = 3, repRetryDelay = 1000,
     repInterBatchDelay = 250, repScanLimit = 1000, repAutoCreateTable = True, repSuccessAction = action,
     repAllowHTTPRedirect = False, repAlerts = example_repAlerts\<rparr>"

definition example_reprocessor :: "bool list \<Rightarrow> string option list \<Rightarrow> reprocessor" where
  "example_reprocessor fs replies = \<lparr>repDisk = example_spool fs, knownTables = [], repReplies = replies, repServed = [],
     contextDone = [], repTotalBatches = 0, repTotalRows = 0, repTotalErrors = 0\<rparr>"

definition example_candidate :: candidate where
  "example_candidate = \<lparr>dataPath = (''/s/done'', ''b.rowbinary.done''), metaPath = (''/s/done'', ''b.rowbinary.done.json''),
     candModTime = 0, candMeta = example_meta\<rparr>"

text \<open>The first attempt creates the table and fails to insert, the second inserts.\<close>

theorem no_loss_before_ack_witness:
  "let (res, r') = processCandidate example_view (example_repConfig ''archive'') example_candidate
         (example_reprocessor [] [None, Some ''timeout''])
   in res = None \<and> length (repServed r') = 2 \<and> fileAt (repDisk r') (''/s/done'', ''b.rowbinary.done'') = None
      \<and> fileAt (repDisk r') (''/s/reprocessed'', ''b.rowbinary.done'') = Some (Whole (BodyFile (replicate 35 7)))"
proof -
  let ?cfg = "example_repConfig ''archive''" and ?r = "example_reprocessor [] [None, Some ''timeout'']"
  let ?data' = "(''/s/reprocessed'', ''b.rowbinary.done'')" and ?meta' = "(''/s/reprocessed'', ''b.rowbinary.done.json'')"
  obtain res r' where run: "processCandidate example_view ?cfg example_candidate ?r = (res, r')" by fastforce
  have "fst (processCandidate example_view ?cfg example_candidate ?r) = None
      \<and> length (repServed (snd (processCandidate example_view ?cfg example_candidate ?r))) = 2"
    by code_simp
  with run have res: "res = None" "length (repServed r') = 2" by simp_all
  have dest: "destinations (dataPath example_candidate) (metaPath example_candidate) (repArchiveDir ?cfg) = (?data', ?meta')"
    by (simp add: destinations_def example_candidate_def example_repConfig_def)
  have there: "fileAt (repDisk ?r) (dataPath example_candidate) = Some (Whole (BodyFile (replicate 35 7)))"
      "fileAt (repDisk ?r) (metaPath example_candidate) = Some (Whole (MetaFile example_meta))"
    by (simp_all add: fileAt_def example_spool_def example_reprocessor_def example_candidate_def)
  have "distinct [dataPath example_candidate, metaPath example_candidate, ?data', ?meta']"
    by (simp add: example_candidate_def)
  from no_loss_before_ack [OF run _ dest this there] res run show ?thesis
    by (auto simp: example_repConfig_def example_candidate_def successActionArchive_def)
qed


section \<open>From the collector's spool to ClickHouse\<close>

text \<open>When no call fails.\<close>

lemma changeTo_simps [simp]: "files (changeTo d w) = d" "faults (changeTo d w) = faults w" "fileAt (changeTo d w) p = map_of d p"
  by (simp_all add: changeTo_def fileAt_def)

lemma calm_calls:
  assumes "faults w = []"
  shows "quietCall w = (True, changeTo (files w) w)"
    and "fileAt w p = None \<Longrightarrow> statFile p w = (StatMissing, w)"
    and "fileAt w p = Some c \<Longrightarrow> statFile p w = (StatOk, changeTo (files w) w)"
    and "fileAt w p = Some c \<Longrightarrow> readFile p w = (Some c, changeTo (files w) w)"
    and "fileAt w p = Some c \<Longrightarrow> renameFile p q w = (True, changeTo (AList.update q c (AList.delete p (files w))) w)"
    and "fileAt w p = Some c \<Longrightarrow> removeFile p w = (True, changeTo (AList.delete p (files w)) w)"
proof -
  have w: "w\<lparr>faults := []\<rparr> = w" using assms by simp
  show "quietCall w = (True, changeTo (files w) w)"
    "fileAt w p = None \<Longrightarrow> statFile p w = (StatMissing, w)"
    "fileAt w p = Some c \<Longrightarrow> statFile p w = (StatOk, changeTo (files w) w)"
    "fileAt w p = Some c \<Longrightarrow> readFile p w = (Some c, changeTo (files w) w)"
    "fileAt w p = Some c \<Longrightarrow> renameFile p q w = (True, changeTo (AList.update q c (AList.delete p (files w))) w)"
    "fileAt w p = Some c \<Longrightarrow> removeFile p w = (True, changeTo (AList.delete p (files w)) w)"
    by (simp_all add: quietCall_def statFile_def readFile_def renameFile_def removeFile_def sysCall_def popOr_def assms w)
qed

lemma finalizeSuccess_calm:
  assumes "faults w = []" and dest: "destinations (dataPath item) (metaPath item) (repArchiveDir cfg) = (data', meta')"
    and paths: "distinct [dataPath item, metaPath item, data', meta']"
    and there: "fileAt w (dataPath item) = Some cd" "fileAt w (metaPath item) = Some cm" "fileAt w data' = None" "fileAt w meta' = None"
  shows "fst (finalizeSuccess cfg item w) = None"
proof -
  have d: "(repArchiveDir cfg, snd (dataPath item)) = data'" "(repArchiveDir cfg, snd (metaPath item)) = meta'"
    using dest by (auto simp: destinations_def)
  have neq: "dataPath item \<noteq> metaPath item" "data' \<noteq> meta'" "meta' \<noteq> data'" "data' \<noteq> metaPath item" "metaPath item \<noteq> data'"
    "metaPath item \<noteq> dataPath item" "data' \<noteq> dataPath item" "meta' \<noteq> dataPath item" "meta' \<noteq> metaPath item"
    using paths by auto
  show ?thesis
    by (simp add: finalizeSuccess_def movePairWithDestinations_def d calm_calls assms(1) there there [unfolded fileAt_def] Let_def neq)
qed

text \<open>A pair the scan accepts.\<close>

definition loadable :: "FailedInsertBatchMeta \<Rightarrow> bytes \<Rightarrow> bool" where
  "loadable m body \<longleftrightarrow> Format m = ''RowBinary'' \<and> SchemaVersion m = reducedRowBinarySchema \<and> validateTableName (MetaTable m) = None
     \<and> MetaRows m > 0 \<and> body \<noteq> [] \<and> MetaBytes m = int (length body)"

lemma loadCandidate_calm:
  assumes "faults w = []" "fileAt w metaP = Some (Whole (MetaFile m))" "loadable m body"
  shows "loadCandidate dataP metaP t (int (length body)) w
    = (Inr \<lparr>dataPath = dataP, metaPath = metaP, candModTime = t, candMeta = m\<rparr>, changeTo (files w) w)"
  using assms by (simp add: loadCandidate_def calm_calls loadable_def normalizeRowBinarySchema_def reducedRowBinarySchema_def
      legacyRowBinarySchema_def)

lemma loadCandidate_calm_world:
  assumes "faults w = []" "loadCandidate dataP metaP t n w = (x, w')"
  shows "faults w' = [] \<and> files w' = files w"
  using assms by (cases "fileAt w metaP") (auto simp: loadCandidate_def calm_calls)

lemma statFile_calm:
  assumes "faults w = []"
  obtains "fileAt w p = None" "statFile p w = (StatMissing, w)" | "fileAt w p \<noteq> None" "statFile p w = (StatOk, changeTo (files w) w)"
proof (cases "fileAt w p")
  case None
  with that(1) calm_calls(2) [OF assms] show thesis by blast
next
  case (Some c)
  with that(2) calm_calls(3) [OF assms Some] show thesis by simp
qed

lemma scanEntry_calm:
  assumes "faults w = []" "scanEntry v cfg now name (r, w) = (r', w')"
  shows "faults w' = [] \<and> files w' = files w \<and> set (candidates r) \<subseteq> set (candidates r')"
proof (cases "hasSuffix name failedDataSuffix")
  case False
  with assms show ?thesis by (simp add: scanEntry_def)
next
  case True
  let ?d = "(repDoneDir cfg, name)" and ?m = "(repDoneDir cfg, name @ ''.json'')"
  show ?thesis
  proof (rule statFile_calm [OF assms(1), of ?d])
    assume "statFile ?d w = (StatMissing, w)"
    with assms True show ?thesis by (auto simp: scanEntry_def addInvalid_def Let_def)
  next
    let ?w = "changeTo (files w) w"
    assume d: "statFile ?d w = (StatOk, ?w)"
    have calm: "faults ?w = []" using assms by simp
    show ?thesis
    proof (rule statFile_calm [OF calm, of ?m])
      assume "statFile ?m ?w = (StatMissing, ?w)"
      with assms True d show ?thesis by (auto simp: scanEntry_def Let_def split: if_splits)
    next
      let ?w2 = "changeTo (files ?w) ?w"
      assume m: "statFile ?m ?w = (StatOk, ?w2)"
      obtain n where n: "n = (case fileAt ?w2 ?d of None \<Rightarrow> 0 | Some c \<Rightarrow> int (length (dataBytes v ?d c)))" by simp
      obtain x w3 where l: "loadCandidate ?d ?m (modTime v ?d) n ?w2 = (x, w3)" by fastforce
      have "faults w3 = [] \<and> files w3 = files w" using loadCandidate_calm_world [OF _ l] assms by simp
      with assms True d m l [unfolded n] show ?thesis
        by (auto simp: scanEntry_def addInvalid_def Let_def split: if_splits sum.splits option.splits)
    qed
  qed
qed

lemma scanEntry_finds:
  assumes "faults w = []" "hasSuffix name failedDataSuffix"
    and there: "fileAt w (repDoneDir cfg, name) = Some (Whole (BodyFile body))"
      "fileAt w (repDoneDir cfg, name @ ''.json'') = Some (Whole (MetaFile m))"
    and "loadable m body"
    and age: "now - modTime v (repDoneDir cfg, name) \<ge> repMinAge cfg" "now - modTime v (repDoneDir cfg, name @ ''.json'') \<ge> repMinAge cfg"
    and run: "scanEntry v cfg now name (r, w) = (r', w')"
  shows "\<lparr>dataPath = (repDoneDir cfg, name), metaPath = (repDoneDir cfg, name @ ''.json''),
      candModTime = modTime v (repDoneDir cfg, name), candMeta = m\<rparr> \<in> set (candidates r')"
  using run assms(2) age
  by (simp add: scanEntry_def calm_calls(3) [OF _ there(1)] calm_calls(3) [OF _ there(2)] there assms(1) there [unfolded fileAt_def]
      calm_calls(3) dataBytes_def loadCandidate_calm [OF _ _ assms(5)] split: prod.splits) (auto simp: Let_def)


lemma scanEntries_calm:
  assumes "faults w = []" "fold (scanEntry v cfg now) names (r, w) = (r', w')"
  shows "faults w' = [] \<and> files w' = files w \<and> set (candidates r) \<subseteq> set (candidates r')"
  using assms
proof (induction names arbitrary: r w)
  case (Cons name names)
  obtain r1 w1 where 1: "scanEntry v cfg now name (r, w) = (r1, w1)" by fastforce
  from scanEntry_calm [OF Cons.prems(1) 1] Cons.IH [of w1 r1] Cons.prems(2) 1 show ?case by auto
qed simp

text \<open>A scan without a limit finds every pair that is whole, old enough and has proper metadata.\<close>

lemma scan_finds:
  assumes calm: "faults w = []" and suffix: "hasSuffix name failedDataSuffix"
    and there: "fileAt w (repDoneDir cfg, name) = Some (Whole (BodyFile body))"
      "fileAt w (repDoneDir cfg, name @ ''.json'') = Some (Whole (MetaFile m))"
    and good: "loadable m body"
    and age: "now - modTime v (repDoneDir cfg, name) \<ge> repMinAge cfg" "now - modTime v (repDoneDir cfg, name @ ''.json'') \<ge> repMinAge cfg"
  obtains found w' where "scan v cfg now 0 w = (Some found, w')" "faults w' = []" "files w' = files w"
    "\<lparr>dataPath = (repDoneDir cfg, name), metaPath = (repDoneDir cfg, name @ ''.json''),
      candModTime = modTime v (repDoneDir cfg, name), candMeta = m\<rparr> \<in> set (candidates found)"
proof -
  let ?w = "changeTo (files w) w"
  let ?r0 = "\<lparr>candidates = [], invalid = [], incompletePairs = 0, tooRecent = 0\<rparr>"
  let ?item = "\<lparr>dataPath = (repDoneDir cfg, name), metaPath = (repDoneDir cfg, name @ ''.json''),
      candModTime = modTime v (repDoneDir cfg, name), candMeta = m\<rparr>"
  have "name \<in> set (namesIn (repDoneDir cfg) (files w))" using there by (simp add: namesIn_set fileAt_def)
  then obtain xs ys where names: "namesIn (repDoneDir cfg) (files w) = xs @ name # ys" by (meson split_list)
  obtain r1 w1 where 1: "fold (scanEntry v cfg now) xs (?r0, ?w) = (r1, w1)" by fastforce
  obtain r2 w2 where 2: "scanEntry v cfg now name (r1, w1) = (r2, w2)" by fastforce
  obtain r3 w3 where 3: "fold (scanEntry v cfg now) ys (r2, w2) = (r3, w3)" by fastforce
  have c1: "faults w1 = [] \<and> files w1 = files w" using scanEntries_calm [OF _ 1] calm by simp
  have c2: "faults w2 = [] \<and> files w2 = files w" using scanEntry_calm [OF _ 2] c1 by simp
  have c3: "faults w3 = [] \<and> files w3 = files w \<and> set (candidates r2) \<subseteq> set (candidates r3)" using scanEntries_calm [OF _ 3] c2 by simp
  have "fileAt w1 p = fileAt w p" for p using c1 by (simp add: fileAt_def)
  then have "?item \<in> set (candidates r2)"
    by (intro scanEntry_finds [OF _ suffix _ _ good age 2]) (use c1 there in simp_all)
  with c3 have "?item \<in> set (candidates (r3\<lparr>candidates := sort_key candModTime (candidates r3)\<rparr>))" by auto
  moreover have "scan v cfg now 0 w = (Some (r3\<lparr>candidates := sort_key candModTime (candidates r3)\<rparr>), w3)"
    by (simp add: scan_def readDir_def calm_calls calm names 1 2 3 Let_def)
  ultimately show thesis using c3 that by blast
qed

text \<open>Inserting a proper candidate when nothing fails.\<close>

lemma insert_statement:
  assumes "validateTableName t = None"
  shows "reprocessInsertQuery t reducedRowBinarySchema = Inr (clickHouseInsertQuery t)"
    "reprocessCreateTableDDL t reducedRowBinarySchema = Inr (clickHouseCreateTableDDL t)"
  using assms by (simp_all add: reprocessInsertQuery_def insertColumnsForSchema_def normalizeRowBinarySchema_def
      go_defs clickHouseInsertQuery_def reprocessCreateTableDDL_def clickHouseCreateTableDDL_def)

lemma attemptInsert_calm:
  assumes "faults (repDisk r) = []" "repReplies r = []" "fileAt (repDisk r) (dataPath item) = Some (Whole (BodyFile body))"
    and "loadable (candMeta item) body"
  obtains r' creates where "attemptInsert v cfg item r = (None, r')" "faults (repDisk r') = []" "files (repDisk r') = files (repDisk r)"
    "repReplies r' = []" "list_all is_create creates"
    "repServed r' = repServed r @ creates @ [RepInsert (clickHouseInsertQuery (MetaTable (candMeta item)))
       (queryIDForFile (sha256 v) (snd (dataPath item))) body]"
proof -
  let ?t = "MetaTable (candMeta item)"
  have good: "SchemaVersion (candMeta item) = reducedRowBinarySchema" "validateTableName ?t = None" "MetaBytes (candMeta item) = int (length body)"
    using assms(4) by (simp_all add: loadable_def)
  have "\<exists>r1 creates. ensureTable cfg ?t reducedRowBinarySchema r = (None, r1) \<and> repDisk r1 = repDisk r \<and> repReplies r1 = []
     \<and> list_all is_create creates \<and> repServed r1 = repServed r @ creates"
    using assms(2) by (cases "repAutoCreateTable cfg"; cases "?t \<in> set (knownTables r)")
      (auto simp: ensureTable_def insert_statement good doRequest_def popOr_def is_create_def)
  then obtain r1 creates where 1: "ensureTable cfg ?t reducedRowBinarySchema r = (None, r1)" "repDisk r1 = repDisk r" "repReplies r1 = []"
     "list_all is_create creates" "repServed r1 = repServed r @ creates" by blast
  then show thesis using assms good that
    by (simp add: attemptInsert_def insertFile_def calm_calls insert_statement dataBytes_def doRequest_def popOr_def Let_def)
qed


lemma processCandidate_inserts:
  assumes "repMaxRetries cfg > 0" "attemptInsert v cfg item r = (None, r1)"
  shows "processCandidate v cfg item r
    = (map_option FinalizeFailed (fst (finalizeSuccess cfg item (repDisk r1))), r1\<lparr>repDisk := snd (finalizeSuccess cfg item (repDisk r1))\<rparr>)"
proof -
  obtain n where "nat (repMaxRetries cfg) = Suc n" using assms(1) by (cases "nat (repMaxRetries cfg)") simp_all
  with assms(2) show ?thesis by (simp add: processCandidate_def split: prod.splits)
qed

lemma failedBaseName_suffix: "hasSuffix (failedBaseName now nano batch @ ''.done'') failedDataSuffix"
proof -
  obtain x where "failedBaseName now nano batch = x @ ''.rowbinary''" unfolding failedBaseName_def by (metis append.assoc)
  then have "failedBaseName now nano batch @ ''.done'' = x @ failedDataSuffix" by (simp add: failedDataSuffix_def)
  then show ?thesis by (simp only: hasSuffix_append)
qed

lemma spoolPaths_loadable:
  assumes "spoolPaths base now nano batch = (opened, target, metadata)"
  shows "target = (base @ ''/done'', snd target)" "metadata = (base @ ''/done'', snd target @ ''.json'')"
    "hasSuffix (snd target) failedDataSuffix"
proof -
  have "target = spoolDonePath base (failedBaseName now nano batch)" "metadata = spoolMetaPath base (failedBaseName now nano batch)"
    using assms by (auto simp: spoolPaths_def Let_def)
  then show "target = (base @ ''/done'', snd target)" "metadata = (base @ ''/done'', snd target @ ''.json'')"
    "hasSuffix (snd target) failedDataSuffix"
    by (simp_all add: spoolDonePath_def spoolMetaPath_def failedBaseName_suffix)
qed

text \<open>
  C3. A batch the collector spooled reaches ClickHouse.  When
  \<open>spoolFailedInsertBatch\<close> reported success for a batch of a valid table, and no call fails any
  more, a scan of the reprocessor (once the files are old enough) finds the batch among whatever else is
  in the spool, and processing it succeeds: after statements creating tables at most, the one insert
  carries the collector's own statement and the very bytes of the batch, and both files are gone
  from the spool.
\<close>

theorem spooled_batch_recovered:
  assumes spooled: "spoolFailedInsertBatch base batch err c = (True, c')"
    and some: "BatchRows batch > 0" "Body batch \<noteq> []" and table: "validateClickHouseTableName (TableName batch) = None"
    and clock: "clock c = now # nano # rest"
    and paths: "spoolPaths base (now div 1000000000) nano batch = (opened, target, metadata)"
    and fresh: "fileAt (spoolDisk c) target = None" "fileAt (spoolDisk c) metadata = None"
    and disk: "files (repDisk r) = files (spoolDisk c')" "faults (repDisk r) = []" "repReplies r = []"
    and cfg: "repDoneDir cfg = base @ ''/done''" "repArchiveDir cfg = base @ ''/reprocessed''" "repMaxRetries cfg > 0"
    and free: "fileAt (repDisk r) (repArchiveDir cfg, snd target) = None" "fileAt (repDisk r) (repArchiveDir cfg, snd metadata) = None"
    and age: "now' - modTime v target \<ge> repMinAge cfg" "now' - modTime v metadata \<ge> repMinAge cfg"
  shows "\<exists>found w item r' creates queryID.
      scan v cfg now' 0 (repDisk r) = (Some found, w) \<and> item \<in> set (candidates found) \<and> dataPath item = target
      \<and> processCandidate v cfg item (r\<lparr>repDisk := w\<rparr>) = (None, r')
      \<and> list_all is_create creates
      \<and> repServed r' = repServed r @ creates @ [RepInsert (clickHouseInsertQuery (TableName batch)) queryID (Body batch)]
      \<and> fileAt (repDisk r') target = None \<and> fileAt (repDisk r') metadata = None"
proof -
  define m where "m = failedMeta (now div 1000000000) batch err"
  have nz: "BatchRows batch \<noteq> 0" using some by simp
  note name = spoolPaths_loadable [OF paths]
  have there: "fileAt (repDisk r) target = Some (Whole (BodyFile (Body batch)))" "fileAt (repDisk r) metadata = Some (Whole (MetaFile m))"
    using spoolFailedInsertBatch_states [OF spooled nz some(2) clock paths fresh] disk(1) by (simp_all add: m_def fileAt_def)
  have good: "loadable m (Body batch)"
    using some table by (simp add: loadable_def m_def failedMeta_def rowBinarySchemaV2_def reducedRowBinarySchema_def validateTableName_eq)
  let ?item = "\<lparr>dataPath = target, metaPath = metadata, candModTime = modTime v target, candMeta = m\<rparr>"
  have at: "(repDoneDir cfg, snd target) = target" "(repDoneDir cfg, snd target @ ''.json'') = metadata"
    using name cfg by (simp_all flip: name(1) name(2))
  obtain found w where scan: "scan v cfg now' 0 (repDisk r) = (Some found, w)" "faults w = []" "files w = files (repDisk r)"
    "?item \<in> set (candidates found)"
    by (rule scan_finds [OF disk(2) name(3), of cfg "Body batch" m now' v, unfolded at]) (use there good age in simp_all)
  have w: "fileAt w p = fileAt (repDisk r) p" for p using scan(3) by (simp add: fileAt_def)
  let ?r = "r\<lparr>repDisk := w\<rparr>"
  obtain r1 creates where ins: "attemptInsert v cfg ?item ?r = (None, r1)" "faults (repDisk r1) = []" "files (repDisk r1) = files w"
    "repReplies r1 = []" "list_all is_create creates"
    "repServed r1 = repServed r @ creates @ [RepInsert (clickHouseInsertQuery (TableName batch)) (queryIDForFile (sha256 v) (snd target)) (Body batch)]"
    by (rule attemptInsert_calm [of ?r ?item "Body batch" v cfg]) (use scan disk there w good in \<open>simp_all add: m_def failedMeta_def\<close>)
  have w1: "fileAt (repDisk r1) p = fileAt (repDisk r) p" for p using ins(3) scan(3) by (simp add: fileAt_def)
  let ?data' = "(repArchiveDir cfg, snd target)" and ?meta' = "(repArchiveDir cfg, snd metadata)"
  have dest: "destinations (dataPath ?item) (metaPath ?item) (repArchiveDir cfg) = (?data', ?meta')" by (simp add: destinations_def)
  have fst_snd: "fst target = base @ ''/done''" "fst metadata = base @ ''/done''" "snd metadata = snd target @ ''.json''"
    using name(1,2) by (metis fst_conv, metis fst_conv, metis snd_conv)
  have dist: "distinct [dataPath ?item, metaPath ?item, ?data', ?meta']"
    using cfg(2) fst_snd by (auto simp: prod_eq_iff)
  have calm: "fst (finalizeSuccess cfg ?item (repDisk r1)) = None"
    by (rule finalizeSuccess_calm [OF ins(2) dest dist]) (use w1 there free in simp_all)
  have gone: "fileAt (snd (finalizeSuccess cfg ?item (repDisk r1))) target = None \<and> fileAt (snd (finalizeSuccess cfg ?item (repDisk r1))) metadata = None"
    using finalizeSuccess_effect [OF prod.collapse [symmetric] dest dist, of "repDisk r1"] calm w1 there by simp
  have "processCandidate v cfg ?item ?r = (None, r1\<lparr>repDisk := snd (finalizeSuccess cfg ?item (repDisk r1))\<rparr>)"
    using processCandidate_inserts [OF cfg(3) ins(1)] calm by simp
  with scan(1,4) ins(5,6) gone show ?thesis
    by (intro exI [of _ found] exI [of _ w] exI [of _ ?item] exI conjI) (assumption | simp)+
qed


theorem spooled_batch_recovered_witness:
  "let cfg = (example_repConfig ''delete'')\<lparr>repDoneDir := ''/spool/done'', repArchiveDir := ''/spool/reprocessed''\<rparr>
   in \<exists>c' found w item r' creates queryID.
        spoolFailedInsertBatch ''/spool'' example_batch ''timeout'' example_collector = (True, c')
      \<and> scan example_view cfg 100 0 (spoolDisk c') = (Some found, w) \<and> item \<in> set (candidates found)
      \<and> processCandidate example_view cfg item ((example_reprocessor [] [])\<lparr>repDisk := w\<rparr>) = (None, r')
      \<and> repServed r' = creates @ [RepInsert (clickHouseInsertQuery ''cgnat.nat'') queryID (replicate 35 7)]"
proof -
  let ?cfg = "(example_repConfig ''delete'')\<lparr>repDoneDir := ''/spool/done'', repArchiveDir := ''/spool/reprocessed''\<rparr>"
  obtain opened target metadata where paths:
    "spoolPaths ''/spool'' (1753142400000000000 div 1000000000) 1753142400000000123 example_batch = (opened, target, metadata)"
    by (metis prod_cases3)
  obtain ok c' where run: "spoolFailedInsertBatch ''/spool'' example_batch ''timeout'' example_collector = (ok, c')" by fastforce
  have "ok \<and> faults (spoolDisk c') = []"
    using run by (auto simp: spoolFailedInsertBatch_def storeFailedBatch_def writeOpenFile_def writeFile_def file_ops
        renameFile_def sysCall_def changeTo_def popOr_def fileAt_def readSecond_def readClock_def addTotal_def
        example_batch_def example_collector_def Let_def)
  with run have run: "spoolFailedInsertBatch ''/spool'' example_batch ''timeout'' example_collector = (True, c')"
    and calm: "faults (spoolDisk c') = []" by simp_all
  have batch: "BatchRows example_batch = 1" "Body example_batch = replicate 35 7" "TableName example_batch = ''cgnat.nat''"
    "clock example_collector = 1753142400000000000 # 1753142400000000123 # []" "files (spoolDisk example_collector) = []"
    by (simp_all add: example_batch_def example_collector_def)
  have valid: "validateClickHouseTableName (TableName example_batch) = None"
    by (simp add: batch validateClickHouseTableName_def isValidClickHouseIdentifier_def isLetterChar_def isDigitChar_def)
  have "opened = (''/spool/open'', snd opened)"
    using paths by (auto simp: spoolPaths_def spoolOpenPath_def Let_def)
  then have other: "(''/spool/reprocessed'', n) \<notin> {opened, target, metadata}" for n
    using spoolPaths_loadable(1,2) [OF paths] by (auto simp: prod_eq_iff dest!: arg_cong [of _ _ fst])
  have fresh: "fileAt (spoolDisk example_collector) p = None" for p using batch by (simp add: fileAt_def)
  have "spool_state (opened, target, metadata) (Body example_batch)
      (failedMeta (1753142400000000000 div 1000000000) example_batch ''timeout'') [] (files (spoolDisk c'))"
    using spoolFailedInsertBatch_states [OF run _ _ batch(4) paths fresh fresh] by (simp add: batch)
  then have free: "map_of (files (spoolDisk c')) (''/spool/reprocessed'', n) = None" for n
    using other by (simp add: spool_state_def)
  let ?r = "(example_reprocessor [] [])\<lparr>repDisk := spoolDisk c'\<rparr>"
  have "\<exists>found w item r' creates queryID.
      scan example_view ?cfg 100 0 (repDisk ?r) = (Some found, w) \<and> item \<in> set (candidates found) \<and> dataPath item = target
      \<and> processCandidate example_view ?cfg item (?r\<lparr>repDisk := w\<rparr>) = (None, r')
      \<and> list_all is_create creates
      \<and> repServed r' = repServed ?r @ creates @ [RepInsert (clickHouseInsertQuery (TableName example_batch)) queryID (Body example_batch)]
      \<and> fileAt (repDisk r') target = None \<and> fileAt (repDisk r') metadata = None"
    by (rule spooled_batch_recovered [OF run _ _ valid batch(4) paths fresh fresh])
      (simp_all add: batch calm free fileAt_def example_reprocessor_def example_repConfig_def example_view_def)
  then show ?thesis using run by (force simp: batch example_reprocessor_def Let_def)
qed

lemma finalizeSuccess_taken:
  assumes "faults w = []" and dest: "destinations (dataPath item) (metaPath item) (repArchiveDir cfg) = (data', meta')"
    and taken: "fileAt w data' \<noteq> None \<or> fileAt w meta' \<noteq> None"
  obtains e w' where "finalizeSuccess cfg item w = (Some e, w')" "files w' = files w" "faults w' = []"
proof -
  have d: "(repArchiveDir cfg, snd (dataPath item)) = data'" "(repArchiveDir cfg, snd (metaPath item)) = meta'"
    using dest by (auto simp: destinations_def)
  let ?w = "changeTo (files w) w"
  have calm: "faults ?w = []" using assms(1) by simp
  show thesis
  proof (rule statFile_calm [OF calm, of data'])
    assume data: "fileAt ?w data' = None" "statFile data' ?w = (StatMissing, ?w)"
    have "fileAt ?w meta' \<noteq> None" using taken data(1) by (simp add: fileAt_def)
    then have "statFile meta' ?w = (StatOk, changeTo (files ?w) ?w)" using calm_calls(3) [OF calm] by blast
    then show thesis
      using that by (simp add: finalizeSuccess_def movePairWithDestinations_def d calm_calls assms(1) data Let_def)
  next
    assume "statFile data' ?w = (StatOk, changeTo (files ?w) ?w)"
    then show thesis
      using that by (simp add: finalizeSuccess_def movePairWithDestinations_def d calm_calls assms(1) Let_def)
  qed
qed

text \<open>Processing one candidate again and again.\<close>

definition processTimes :: "nat \<Rightarrow> spoolView \<Rightarrow> repConfig \<Rightarrow> candidate \<Rightarrow> reprocessor \<Rightarrow> reprocessor" where
  "processTimes n v cfg item = (\<lambda>r. snd (processCandidate v cfg item r)) ^^ n"

text \<open>
  C40. When the archive already holds a file of the batch's name, the
  reprocessor inserts the batch again in every cycle.  An insert that ClickHouse acknowledged is followed by
  a finalization that fails without touching the disk, so the pair stays in the spool; processing
  it again makes the same insert, with the same query identifier and the same bytes, once per time.
\<close>

theorem failed_finalization_reinserts:
  assumes dest: "destinations (dataPath item) (metaPath item) (repArchiveDir cfg) = (data', meta')"
    and there: "fileAt (repDisk r) (dataPath item) = Some (Whole (BodyFile body))"
    and taken: "fileAt (repDisk r) data' \<noteq> None \<or> fileAt (repDisk r) meta' \<noteq> None"
    and good: "loadable (candMeta item) body" and cfg: "repMaxRetries cfg > 0"
    and calm: "faults (repDisk r) = []" "repReplies r = []"
  shows "files (repDisk (processTimes n v cfg item r)) = files (repDisk r)
    \<and> filter (\<lambda>q. \<not> is_create q) (repServed (processTimes n v cfg item r)) = filter (\<lambda>q. \<not> is_create q) (repServed r)
        @ replicate n (RepInsert (clickHouseInsertQuery (MetaTable (candMeta item))) (queryIDForFile (sha256 v) (snd (dataPath item))) body)"
proof -
  let ?ins = "RepInsert (clickHouseInsertQuery (MetaTable (candMeta item))) (queryIDForFile (sha256 v) (snd (dataPath item))) body"
  have "files (repDisk (processTimes n v cfg item r)) = files (repDisk r) \<and> faults (repDisk (processTimes n v cfg item r)) = []
    \<and> repReplies (processTimes n v cfg item r) = []
    \<and> filter (\<lambda>q. \<not> is_create q) (repServed (processTimes n v cfg item r)) = filter (\<lambda>q. \<not> is_create q) (repServed r) @ replicate n ?ins"
  proof (induction n)
    case 0
    then show ?case using calm by (simp add: processTimes_def)
  next
    case (Suc n)
    let ?r = "processTimes n v cfg item r"
    have at: "fileAt (repDisk ?r) p = fileAt (repDisk r) p" for p using Suc.IH by (simp add: fileAt_def)
    obtain r1 creates where a: "attemptInsert v cfg item ?r = (None, r1)" "faults (repDisk r1) = []" "files (repDisk r1) = files (repDisk ?r)"
      "repReplies r1 = []" "list_all is_create creates" "repServed r1 = repServed ?r @ creates @ [?ins]"
      by (rule attemptInsert_calm [of ?r item body v cfg]) (use Suc.IH at there good in simp_all)
    have "fileAt (repDisk r1) data' \<noteq> None \<or> fileAt (repDisk r1) meta' \<noteq> None" using taken Suc.IH a(3) by (simp add: fileAt_def)
    then obtain e w where f: "finalizeSuccess cfg item (repDisk r1) = (Some e, w)" "files w = files (repDisk r1)" "faults w = []"
      using finalizeSuccess_taken [OF a(2) dest] by blast
    have "filter (\<lambda>q. \<not> is_create q) creates = []" using a(5) by (simp add: list_all_iff filter_empty_conv)
    moreover have "processTimes (Suc n) v cfg item r = r1\<lparr>repDisk := w\<rparr>"
      using processCandidate_inserts [OF cfg a(1)] f by (simp add: processTimes_def)
    ultimately show ?case using Suc.IH a f by (simp add: is_create_def flip: replicate_append_same)
  qed
  then show ?thesis by simp
qed

text \<open>A pair put back into the spool while its metadata is still archived: three cycles, three times the same rows.\<close>

theorem failed_finalization_reinserts_witness:
  "let r = (example_reprocessor [] [])\<lparr>repDisk := (example_spool [])\<lparr>files :=
         ((''/s/reprocessed'', ''b.rowbinary.done.json''), Whole (MetaFile example_meta)) # files (example_spool [])\<rparr>\<rparr>
   in \<exists>queryID. filter (\<lambda>q. \<not> is_create q) (repServed (processTimes 3 example_view (example_repConfig ''delete'') example_candidate r))
        = replicate 3 (RepInsert (clickHouseInsertQuery ''cgnat.nat'') queryID (replicate 35 7))"
proof -
  let ?r = "(example_reprocessor [] [])\<lparr>repDisk := (example_spool [])\<lparr>files :=
         ((''/s/reprocessed'', ''b.rowbinary.done.json''), Whole (MetaFile example_meta)) # files (example_spool [])\<rparr>\<rparr>"
  have valid: "validateTableName ''cgnat.nat'' = None"
    by (simp add: validateTableName_eq validateClickHouseTableName_def isValidClickHouseIdentifier_def isLetterChar_def isDigitChar_def)
  have good: "loadable (candMeta example_candidate) (replicate 35 7)"
    using valid by (simp add: loadable_def example_candidate_def example_meta_def reducedRowBinarySchema_def)
  have "filter (\<lambda>q. \<not> is_create q) (repServed (processTimes 3 example_view (example_repConfig ''delete'') example_candidate ?r))
    = filter (\<lambda>q. \<not> is_create q) (repServed ?r) @ replicate 3 (RepInsert (clickHouseInsertQuery (MetaTable (candMeta example_candidate)))
        (queryIDForFile (sha256 example_view) (snd (dataPath example_candidate))) (replicate 35 7))"
    by (rule conjunct2 [OF failed_finalization_reinserts [where data' = "(''/s/reprocessed'', ''b.rowbinary.done'')"
          and meta' = "(''/s/reprocessed'', ''b.rowbinary.done.json'')", OF _ _ _ good]])
      (simp_all add: destinations_def example_candidate_def example_repConfig_def example_reprocessor_def example_spool_def fileAt_def)
  moreover have "MetaTable (candMeta example_candidate) = ''cgnat.nat''" "repServed ?r = []"
    by (simp_all add: example_candidate_def example_meta_def example_reprocessor_def)
  ultimately show ?thesis by (simp only: Let_def filter.simps append_Nil) blast
qed

end
