(* ===== verification/ReprocessAlerts.thy ===== *)
theory ReprocessAlerts
  imports Recovery AlertDelivery
begin

text \<open>
  What the reprocessor's alerts measure (\<open>reprocesador/reprocess_alerts.go\<close>): the counters of the
  cycles by sec, the backlog of the spool, and the three observations made of them.  The alert
  machine itself is \<open>reprocessApplyObservation\<close>.
\<close>

section \<open>Counters of the cycles\<close>

record reprocessCycleCounters =
  ctrAttempted :: u64
  ctrFailed :: u64
  ctrQuarantined :: u64

type_synonym cycle_counters = "(int \<times> reprocessCycleCounters) list"

definition noCycles :: reprocessCycleCounters where
  "noCycles = \<lparr>ctrAttempted = 0, ctrFailed = 0, ctrQuarantined = 0\<rparr>"

definition addCounters :: "reprocessCycleCounters \<Rightarrow> reprocessCycleCounters \<Rightarrow> reprocessCycleCounters" where
  "addCounters a b = \<lparr>ctrAttempted = ctrAttempted a + ctrAttempted b, ctrFailed = ctrFailed a + ctrFailed b,
     ctrQuarantined = ctrQuarantined a + ctrQuarantined b\<rparr>"

definition cycleCounters :: "cycleResult \<Rightarrow> reprocessCycleCounters" where
  "cycleCounters r = \<lparr>ctrAttempted = of_nat (processed r), ctrFailed = of_nat (failed r), ctrQuarantined = of_nat (quarantined r)\<rparr>"

definition counterAt :: "cycle_counters \<Rightarrow> int \<Rightarrow> reprocessCycleCounters" where
  "counterAt cs sec = (case map_of cs sec of None \<Rightarrow> noCycles | Some c \<Rightarrow> c)"

definition windowSeconds :: "reprocessAlertConfig \<Rightarrow> int" where
  "windowSeconds cfg = raWindow cfg div 10 ^ 9"

definition recordCycle :: "reprocessAlertConfig \<Rightarrow> int \<Rightarrow> cycleResult \<Rightarrow> cycle_counters \<Rightarrow> cycle_counters" where
  "recordCycle cfg now result cs =
     (let sec = now div 10 ^ 9;
          cs = AList.update sec (addCounters (counterAt cs sec) (cycleCounters result)) cs
      in filter (\<lambda>(key, _). \<not> key < sec - windowSeconds cfg - 120) cs)"

definition counterSnapshot :: "int \<Rightarrow> int \<Rightarrow> cycle_counters \<Rightarrow> reprocessCycleCounters" where
  "counterSnapshot start stop cs =
     fold (\<lambda>(sec, c) sum. if sec < start \<or> sec > stop then sum else addCounters sum c) cs noCycles"

section \<open>The backlog\<close>

fun backlogLoop :: "spoolView \<Rightarrow> string \<Rightarrow> int \<Rightarrow> int \<Rightarrow> int \<Rightarrow> string list \<Rightarrow> u64 \<times> u64 \<Rightarrow> spool_file world
    \<Rightarrow> (u64 \<times> u64) option \<times> spool_file world" where
  "backlogLoop v dir minimumAge sla now [] sofar w = (Some sofar, w)"
| "backlogLoop v dir minimumAge sla now (name # rest) (eligible, overdue) w =
     (if \<not> hasSuffix name failedDataSuffix then backlogLoop v dir minimumAge sla now rest (eligible, overdue) w
      else let (info, w) = statFile (dir, name) w
      in if info \<noteq> StatOk then (None, w)
      else let age = now - modTime v (dir, name)
      in if age < minimumAge then backlogLoop v dir minimumAge sla now rest (eligible, overdue) w
      else backlogLoop v dir minimumAge sla now rest (eligible + 1, if age \<ge> sla then overdue + 1 else overdue) w)"

definition backlogSnapshot :: "spoolView \<Rightarrow> repConfig \<Rightarrow> int \<Rightarrow> spool_file world \<Rightarrow> (u64 \<times> u64) option \<times> spool_file world" where
  "backlogSnapshot v cfg now w =
     (case readDir (repDoneDir cfg) w of
        (None, w) \<Rightarrow> (None, w)
      | (Some entries, w) \<Rightarrow> backlogLoop v (repDoneDir cfg) (repMinAge cfg) (raBacklogSLA (repAlerts cfg)) now entries (0, 0) w)"

section \<open>Observations\<close>

definition reprocessAlertBacklogName :: string where "reprocessAlertBacklogName = ''CGN_REPROCESS_BACKLOG_SLA''"
definition reprocessAlertFailureRateName :: string where "reprocessAlertFailureRateName = ''CGN_REPROCESS_FAILURE_RATE_60S''"
definition reprocessAlertQuarantineName :: string where "reprocessAlertQuarantineName = ''CGN_REPROCESS_QUARANTINE_RATE_60S''"

definition shouldEvaluate :: "reprocessAlertConfig \<Rightarrow> alertManager \<Rightarrow> string \<Rightarrow> u64 \<Rightarrow> bool" where
  "shouldEvaluate cfg m name denominator \<longleftrightarrow>
     denominator \<ge> raMinimumBatches cfg \<or> (case map_of (states m) name of None \<Rightarrow> False | Some s \<Rightarrow> Active s)"

definition reprocessObservation :: "reprocessAlertConfig \<Rightarrow> alertManager \<Rightarrow> string \<Rightarrow> f64 \<Rightarrow> f64 \<Rightarrow> u64 \<Rightarrow> u64 \<Rightarrow> alertObservation" where
  "reprocessObservation cfg m name threshold clear numerator denominator =
     \<lparr>obsName = name, obsThreshold = threshold, obsClearThreshold = clear,
      obsIndicator = percentage numerator denominator, obsNumerator = numerator, obsDenominator = denominator,
      obsValid = shouldEvaluate cfg m name denominator\<rparr>"

definition observationWindow :: "reprocessAlertConfig \<Rightarrow> int \<Rightarrow> int \<times> int" where
  "observationWindow cfg now = ((now - raWindow cfg) div 10 ^ 9 + 1, now div 10 ^ 9)"

definition reprocessObservations :: "spoolView \<Rightarrow> repConfig \<Rightarrow> cycle_counters \<Rightarrow> int \<Rightarrow> alertManager \<Rightarrow> spool_file world
    \<Rightarrow> alertObservation list option \<times> spool_file world" where
  "reprocessObservations v rcfg cs now m w =
     (let cfg = repAlerts rcfg;
          (windowStart, windowEnd) = observationWindow cfg now;
          counters = counterSnapshot windowStart windowEnd cs
      in case backlogSnapshot v rcfg now w of
           (None, w) \<Rightarrow> (None, w)
         | (Some (eligible, overdue), w) \<Rightarrow>
             (Some [reprocessObservation cfg m reprocessAlertBacklogName (raBacklogThresholdPct cfg) (raBacklogClearPct cfg) overdue eligible,
                    reprocessObservation cfg m reprocessAlertFailureRateName (raFailureThresholdPct cfg) (raFailureClearPct cfg)
                      (ctrFailed counters) (ctrAttempted counters),
                    reprocessObservation cfg m reprocessAlertQuarantineName (raQuarantineThresholdPct cfg) (raQuarantineClearPct cfg)
                      (ctrQuarantined counters) (ctrAttempted counters + ctrQuarantined counters)], w))"

definition reprocessEvaluate :: "writer \<Rightarrow> (string \<Rightarrow> string) \<Rightarrow> spoolView \<Rightarrow> repConfig \<Rightarrow> cycle_counters \<Rightarrow> int
    \<Rightarrow> alertManager \<times> spool_file world \<Rightarrow> alertManager \<times> spool_file world" where
  "reprocessEvaluate write token v rcfg cs now = (\<lambda>(m, w).
     case reprocessObservations v rcfg cs now m w of
       (None, w) \<Rightarrow> (m, w)
     | (Some found, w) \<Rightarrow> (evaluateAll (reprocessApplyObservation write token) found now m, w))"

text \<open>\<open>newReprocessAlertManager\<close>: the settings of the machine.\<close>

definition reprocessAlertSettings :: "reprocessAlertConfig \<Rightarrow> string \<Rightarrow> alert_settings" where
  "reprocessAlertSettings c host = \<lparr>Mode = raMode c, ServerIP = raServerIP c, hostname = host,
     triggerWindows = raTriggerWindows c, clearWindows = raClearWindows c, activeUpdate = raActiveUpdate c,
     statePath = (raStateDir c, ''state.json''), outboxDir = joinPath (raStateDir c) ''outbox'',
     badDir = joinPath (raStateDir c) ''bad''\<rparr>"

section \<open>The counters are the cycles of the window\<close>

lemma addCounters_simps [simp]:
  "ctrAttempted (addCounters a b) = ctrAttempted a + ctrAttempted b" "ctrFailed (addCounters a b) = ctrFailed a + ctrFailed b"
  "ctrQuarantined (addCounters a b) = ctrQuarantined a + ctrQuarantined b"
  "ctrAttempted noCycles = 0" "ctrFailed noCycles = 0" "ctrQuarantined noCycles = 0"
  by (simp_all add: addCounters_def noCycles_def)

lemma counters_eqI:
  "ctrAttempted a = ctrAttempted b \<Longrightarrow> ctrFailed a = ctrFailed b \<Longrightarrow> ctrQuarantined a = ctrQuarantined b
    \<Longrightarrow> a = (b :: reprocessCycleCounters)"
  by (cases a; cases b) simp

lemma addCounters_laws:
  "addCounters (addCounters a b) c = addCounters a (addCounters b c)" "addCounters noCycles a = a" "addCounters a noCycles = a"
  "addCounters a b = addCounters b a" "addCounters a (addCounters b c) = addCounters b (addCounters a c)"
  by (rule counters_eqI; simp add: add_ac)+

definition inWindow :: "int \<Rightarrow> int \<Rightarrow> int \<Rightarrow> bool" where
  "inWindow start stop sec \<longleftrightarrow> start \<le> sec \<and> sec \<le> stop"

text \<open>The sum of a list of counters.\<close>

definition totalCounters :: "reprocessCycleCounters list \<Rightarrow> reprocessCycleCounters" where
  "totalCounters cs = foldr addCounters cs noCycles"

lemma totalCounters_simps [simp]:
  "totalCounters [] = noCycles" "totalCounters (c # cs) = addCounters c (totalCounters cs)"
  "totalCounters (xs @ ys) = addCounters (totalCounters xs) (totalCounters ys)"
  by (induction xs) (simp_all add: totalCounters_def addCounters_laws)

lemma totalCounters_fields:
  "ctrAttempted (totalCounters cs) = sum_list (map ctrAttempted cs)" "ctrFailed (totalCounters cs) = sum_list (map ctrFailed cs)"
  "ctrQuarantined (totalCounters cs) = sum_list (map ctrQuarantined cs)"
  by (induction cs) simp_all

lemma counterSnapshot_total:
  "counterSnapshot start stop cs = totalCounters (map snd (filter (\<lambda>(sec, _). inWindow start stop sec) cs))"
proof -
  have outside: "sec < start \<or> sec > stop \<longleftrightarrow> \<not> inWindow start stop sec" for sec by (auto simp: inWindow_def)
  have "fold (\<lambda>(sec, c) sum. if sec < start \<or> sec > stop then sum else addCounters sum c) cs x
      = addCounters x (totalCounters (map snd (filter (\<lambda>(sec, _). inWindow start stop sec) cs)))" for x
    unfolding outside by (induction cs arbitrary: x) (auto simp: addCounters_laws)
  then show ?thesis by (simp add: counterSnapshot_def addCounters_laws)
qed

lemma counterSnapshot_Cons [simp]:
  "counterSnapshot start stop ((s, c) # cs)
    = (if inWindow start stop s then addCounters c (counterSnapshot start stop cs) else counterSnapshot start stop cs)"
  by (simp add: counterSnapshot_total)

lemma counterSnapshot_update:
  assumes "distinct (map fst cs)"
  shows "counterSnapshot start stop (AList.update s (addCounters (counterAt cs s) c) cs)
    = addCounters (counterSnapshot start stop cs) (if inWindow start stop s then c else noCycles)"
  using assms
proof (induction cs)
  case Nil
  then show ?case by (simp add: counterAt_def addCounters_laws)
next
  case (Cons p cs)
  obtain t d where p: "p = (t, d)" by fastforce
  show ?case
  proof (cases "t = s")
    case True
    then show ?thesis using p by (auto simp: counterAt_def addCounters_laws)
  next
    case False
    then show ?thesis using Cons p by (auto simp: counterAt_def addCounters_laws)
  qed
qed

lemma counterSnapshot_prune:
  "keep \<le> start \<Longrightarrow> counterSnapshot start stop (filter (\<lambda>(key, _). \<not> key < keep) cs) = counterSnapshot start stop cs"
  by (induction cs) (auto simp: inWindow_def)

lemma recordCycle_snapshot:
  assumes "distinct (map fst cs)" "now div 10 ^ 9 - windowSeconds cfg - 120 \<le> start"
  shows "counterSnapshot start stop (recordCycle cfg now r cs)
      = addCounters (counterSnapshot start stop cs) (if inWindow start stop (now div 10 ^ 9) then cycleCounters r else noCycles)
    \<and> distinct (map fst (recordCycle cfg now r cs))"
  using assms by (simp add: recordCycle_def Let_def counterSnapshot_prune counterSnapshot_update distinct_map_filter distinct_update)

text \<open>The counters after a history of cycles.\<close>

definition recordCycles :: "reprocessAlertConfig \<Rightarrow> (int \<times> cycleResult) list \<Rightarrow> cycle_counters" where
  "recordCycles cfg history = fold (\<lambda>(now, r). recordCycle cfg now r) history []"

definition cyclesIn :: "int \<Rightarrow> int \<Rightarrow> (int \<times> cycleResult) list \<Rightarrow> cycleResult list" where
  "cyclesIn start stop history = map snd (filter (\<lambda>(now, _). inWindow start stop (now div 10 ^ 9)) history)"

lemma recordCycles_snapshot:
  assumes "\<forall>(now, _) \<in> set history. now div 10 ^ 9 - windowSeconds cfg - 120 \<le> start"
  shows "counterSnapshot start stop (recordCycles cfg history) = totalCounters (map cycleCounters (cyclesIn start stop history))
    \<and> distinct (map fst (recordCycles cfg history))"
  using assms
proof (induction history rule: rev_induct)
  case Nil
  then show ?case by (simp add: recordCycles_def cyclesIn_def counterSnapshot_def)
next
  case (snoc x history)
  obtain now r where x: "x = (now, r)" by fastforce
  have IH: "counterSnapshot start stop (recordCycles cfg history) = totalCounters (map cycleCounters (cyclesIn start stop history))"
      "distinct (map fst (recordCycles cfg history))"
    using snoc by auto
  have "now div 10 ^ 9 - windowSeconds cfg - 120 \<le> start" using snoc.prems x by simp
  from recordCycle_snapshot [OF IH(2) this, of stop r] IH(1) x show ?case
    by (simp add: recordCycles_def cyclesIn_def addCounters_laws)
qed


lemma div_diff_le: "0 < q \<Longrightarrow> a div q \<le> (a - b) div q + b div q + (1 :: int)"
proof -
  assume q: "0 < q"
  let ?s = "(a - b) mod q + b mod q"
  have s: "0 \<le> ?s" "?s < 2 * q"
    using q add_strict_mono [OF pos_mod_bound [OF q, of "a - b"] pos_mod_bound [OF q, of b]] by simp_all
  have "?s div q < 2"
    using s q div_pos_geq [of q ?s] by (cases "?s < q") simp_all
  with div_add1_eq [of "a - b" b q] show ?thesis by simp
qed

lemma observationWindow_covers:
  assumes "t \<le> now" "0 \<le> raWindow cfg"
  shows "t div 10 ^ 9 - windowSeconds cfg - 120 \<le> fst (observationWindow cfg now)"
proof -
  have "t div 10 ^ 9 \<le> now div 10 ^ 9" using assms by (intro zdiv_mono1) simp_all
  moreover have "now div 10 ^ 9 \<le> (now - raWindow cfg) div 10 ^ 9 + raWindow cfg div 10 ^ 9 + 1"
    by (rule div_diff_le) simp
  ultimately show ?thesis by (simp add: observationWindow_def windowSeconds_def)
qed

lemma snapshot_of_history:
  assumes "\<forall>(t, _) \<in> set history. t \<le> now" "0 \<le> raWindow cfg" "observationWindow cfg now = (start, stop)"
  shows "counterSnapshot start stop (recordCycles cfg history) = totalCounters (map cycleCounters (cyclesIn start stop history))"
  using assms observationWindow_covers [of _ now cfg] by (intro conjunct1 [OF recordCycles_snapshot]) force

lemma totalCounters_cycles:
  "ctrAttempted (totalCounters (map cycleCounters cs)) = of_nat (sum_list (map processed cs))"
  "ctrFailed (totalCounters (map cycleCounters cs)) = of_nat (sum_list (map failed cs))"
  "ctrQuarantined (totalCounters (map cycleCounters cs)) = of_nat (sum_list (map quarantined cs))"
  by (induction cs) (simp_all add: cycleCounters_def)

lemma rates_of_snapshot:
  assumes "reprocessObservations v rcfg cs now m w = (Some found, w')" "observationWindow (repAlerts rcfg) now = (start, stop)"
  defines "c \<equiv> counterSnapshot start stop cs" and "cfg \<equiv> repAlerts rcfg"
  shows "found ! 1 = reprocessObservation cfg m reprocessAlertFailureRateName (raFailureThresholdPct cfg) (raFailureClearPct cfg)
       (ctrFailed c) (ctrAttempted c)
    \<and> found ! 2 = reprocessObservation cfg m reprocessAlertQuarantineName (raQuarantineThresholdPct cfg) (raQuarantineClearPct cfg)
       (ctrQuarantined c) (ctrAttempted c + ctrQuarantined c)"
  using assms by (auto simp: reprocessObservations_def Let_def split: prod.splits option.splits)

text \<open>
  C33. The failure and quarantine rates of the reprocessor are those of the very cycles
  that ended in the window: whatever cycles were recorded before, and although \<open>RecordCycle\<close> forgets old
  seconds, the observations at time \<open>now\<close> divide the failed items of the cycles of the last
  \<open>Window\<close> by their processed items, and the quarantined ones by both.
\<close>

theorem reprocess_rates_exact:
  assumes history: "\<forall>(t, _) \<in> set history. t \<le> now" and window: "0 \<le> raWindow (repAlerts rcfg)"
    "observationWindow (repAlerts rcfg) now = (start, stop)"
    and obs: "reprocessObservations v rcfg (recordCycles (repAlerts rcfg) history) now m w = (Some found, w')"
  defines "items f \<equiv> (of_nat (sum_list (map f (cyclesIn start stop history))) :: u64)"
  shows "obsNumerator (found ! 1) = items failed \<and> obsDenominator (found ! 1) = items processed
    \<and> obsIndicator (found ! 1) = percentage (items failed) (items processed)
    \<and> obsNumerator (found ! 2) = items quarantined \<and> obsDenominator (found ! 2) = items processed + items quarantined
    \<and> obsIndicator (found ! 2) = percentage (items quarantined) (items processed + items quarantined)"
  using rates_of_snapshot [OF obs window(2)] snapshot_of_history [OF history window]
  by (simp add: items_def totalCounters_cycles reprocessObservation_def)

text \<open>One cycle with two processed items, one of them failed, and one just outside the window.\<close>

definition example_cycle :: "nat \<Rightarrow> nat \<Rightarrow> nat \<Rightarrow> cycleResult" where
  "example_cycle p f q = \<lparr>discovered = p, processed = p, insertedRows = 0, failed = f, quarantined = q, cycleIncomplete = 0, cycleTooRecent = 0\<rparr>"

definition example_history :: "(int \<times> cycleResult) list" where
  "example_history = [(10 * 10 ^ 9, example_cycle 9 9 9), (40 * 10 ^ 9, example_cycle 2 1 0)]"

definition quiet_manager :: alertManager where
  "quiet_manager = alert_example\<lparr>settings := reprocessAlertSettings example_repAlerts ''h''\<rparr>"

theorem reprocess_rates_exact_witness:
  "\<exists>found w'. reprocessObservations example_view (example_repConfig ''delete'') (recordCycles example_repAlerts example_history)
        (70 * 10 ^ 9) quiet_manager (example_spool []) = (Some found, w')
      \<and> obsIndicator (found ! 1) = percentage 1 2 \<and> obsDenominator (found ! 2) = 2"
proof -
  let ?cfg = "example_repConfig ''delete''"
  have cfg: "repAlerts ?cfg = example_repAlerts" by (simp add: example_repConfig_def)
  have "fst (reprocessObservations example_view ?cfg (recordCycles example_repAlerts example_history)
        (70 * 10 ^ 9) quiet_manager (example_spool [])) \<noteq> None"
    by code_simp
  then obtain found w' where run: "reprocessObservations example_view ?cfg (recordCycles (repAlerts ?cfg) example_history)
        (70 * 10 ^ 9) quiet_manager (example_spool []) = (Some found, w')"
    unfolding cfg by (metis not_None_eq prod.collapse)
  have window: "observationWindow (repAlerts ?cfg) (70 * 10 ^ 9) = (11, 70)"
    by (simp add: cfg observationWindow_def example_repAlerts_def)
  have "cyclesIn 11 70 example_history = [example_cycle 2 1 0]"
    by (simp add: cyclesIn_def example_history_def inWindow_def)
  with reprocess_rates_exact [OF _ _ window run] run cfg show ?thesis
    by (simp add: example_history_def example_repAlerts_def example_cycle_def)
qed

text \<open>
  A quarantine that cannot take files raises no alert.  While the cycles of
  the window had no item to insert and moved nothing to the quarantine, neither of the two rates is ever
  valid for an alert that is not open, whatever number of failed moves to the quarantine the cycles
  report: the failures are counted over the items that were tried, of which there are none.
\<close>

theorem quarantine_failures_unseen:
  assumes history: "\<forall>(t, _) \<in> set history. t \<le> now" and window: "0 \<le> raWindow (repAlerts rcfg)"
    "observationWindow (repAlerts rcfg) now = (start, stop)"
    and idle: "\<forall>r \<in> set (cyclesIn start stop history). processed r = 0 \<and> quarantined r = 0"
    and quiet: "raMinimumBatches (repAlerts rcfg) \<noteq> 0" "\<forall>(name, s) \<in> set (states m). \<not> Active s"
    and obs: "reprocessObservations v rcfg (recordCycles (repAlerts rcfg) history) now m w = (Some found, w')"
  shows "obsNumerator (found ! 1) = of_nat (sum_list (map failed (cyclesIn start stop history)))
    \<and> \<not> obsValid (found ! 1) \<and> \<not> obsValid (found ! 2)"
proof -
  let ?h = "cyclesIn start stop history"
  let ?c = "counterSnapshot start stop (recordCycles (repAlerts rcfg) history)"
  have zero: "sum_list (map processed ?h) = 0" "sum_list (map quarantined ?h) = 0" using idle by simp_all
  have c: "ctrAttempted ?c = 0" "ctrQuarantined ?c = 0" "ctrFailed ?c = of_nat (sum_list (map failed ?h))"
    unfolding snapshot_of_history [OF history window] totalCounters_cycles zero by simp_all
  have "case map_of (states m) name of None \<Rightarrow> True | Some s \<Rightarrow> \<not> Active s" for name
    using quiet(2) by (auto split: option.splits dest: map_of_SomeD)
  then have closed: "\<not> (case map_of (states m) name of None \<Rightarrow> False | Some s \<Rightarrow> Active s)" for name
    by (auto split: option.splits) (metis (no_types, lifting) option.simps(5))
  show ?thesis
    using rates_of_snapshot [OF obs window(2)] closed quiet(1) by (simp add: c reprocessObservation_def shouldEvaluate_def)
qed


text \<open>Three files cannot be moved to the quarantine.\<close>

theorem quarantine_failures_unseen_witness:
  "\<exists>found w'. reprocessObservations example_view (example_repConfig ''delete'') (recordCycles example_repAlerts [(40 * 10 ^ 9, example_cycle 0 3 0)])
        (70 * 10 ^ 9) quiet_manager (example_spool []) = (Some found, w')
      \<and> obsNumerator (found ! 1) = 3 \<and> \<not> obsValid (found ! 1) \<and> \<not> obsValid (found ! 2)"
proof -
  let ?cfg = "example_repConfig ''delete''" and ?h = "[(40 * 10 ^ 9, example_cycle 0 3 0)]"
  have cfg: "repAlerts ?cfg = example_repAlerts" by (simp add: example_repConfig_def)
  have "fst (reprocessObservations example_view ?cfg (recordCycles example_repAlerts ?h) (70 * 10 ^ 9) quiet_manager (example_spool [])) \<noteq> None"
    by code_simp
  then obtain found w' where run: "reprocessObservations example_view ?cfg (recordCycles (repAlerts ?cfg) ?h)
        (70 * 10 ^ 9) quiet_manager (example_spool []) = (Some found, w')"
    unfolding cfg by (metis not_None_eq prod.collapse)
  have window: "observationWindow (repAlerts ?cfg) (70 * 10 ^ 9) = (11, 70)"
    by (simp add: cfg observationWindow_def example_repAlerts_def)
  have cycles: "cyclesIn 11 70 ?h = [example_cycle 0 3 0]" by (simp add: cyclesIn_def inWindow_def)
  have "obsNumerator (found ! 1) = of_nat (sum_list (map failed (cyclesIn 11 70 ?h))) \<and> \<not> obsValid (found ! 1) \<and> \<not> obsValid (found ! 2)"
    by (rule quarantine_failures_unseen [OF _ _ window _ _ _ run])
      (simp_all only: cycles, simp_all add: cfg example_repAlerts_def example_cycle_def quiet_manager_def alert_example_def)
  then have "obsNumerator (found ! 1) = 3 \<and> \<not> obsValid (found ! 1) \<and> \<not> obsValid (found ! 2)"
    unfolding cycles by (simp add: example_cycle_def)
  with run cfg show ?thesis by simp
qed

end
