(* ===== verification/Deployment.thy ===== *)
theory Deployment
  imports ReprocessAlerts
begin

text \<open>
  The two programs under one environment file, as \<open>reprocesador/README.md\<close> deploys them: where they
  agree on the spool, and where their readings of the same variables differ.
\<close>

section \<open>One spool\<close>







section \<open>One switch, two readings\<close>

text \<open>
  The words the collector documents for its switches are not all understood
  by the reprocessor, which inherits the same variable: with \<open>ALERTS_ENABLED\<close> set to \<open>yes\<close>,
  \<open>y\<close>, \<open>on\<close>, \<open>si\<close> or \<open>s\<close> the collector alerts, and the reprocessor, unless it has a
  switch of its own, refuses its whole configuration and does not start.
\<close>

theorem alert_switch_read_differently:
  assumes "env ''ALERTS_ENABLED'' = Some word" "word \<in> {''yes'', ''y'', ''on'', ''si'', ''s''}"
    and "lookupTrimmed env ''REPROCESS_ALERTS_ENABLED'' = None"
  shows "cfgEnabled (alertConfig (loadConfig numCPU env)) \<and> (\<exists>e. loadReprocessConfig parseIP urlParse env = Inl e)"
proof
  have "list_all (\<lambda>w. trimSpace w = w \<and> toLower w = w \<and> w \<noteq> [] \<and> parseBool w = Inl BadNumber)
      [''yes'', ''y'', ''on'', ''si'', ''s'']"
    by code_simp
  then have w: "trimSpace word = word" "toLower word = word" "word \<noteq> []" "parseBool word = Inl BadNumber"
    using assms(2) by auto
  have "getEnvBool env ''ALERTS_ENABLED'' False"
    using assms(2) by (simp add: getEnvBool_def osGetenv_def assms(1) w Let_def)
  then show "cfgEnabled (alertConfig (loadConfig numCPU env))"
    unfolding loadConfig_def Let_def by (simp add: loadAlertConfig_def)
  have "getEnvBoolInherited env ''REPROCESS_ALERTS_ENABLED'' ''ALERTS_ENABLED'' False = Inl (NotABool ''ALERTS_ENABLED'')"
    using assms(1,3) w by (simp add: getEnvBoolInherited_def reprocessGetEnvBool_def lookupTrimmed_def)
  then have "loadReprocessAlertConfig parseIP urlParse env b u us p = Inl (BadVariable (NotABool ''ALERTS_ENABLED''))" for b u us p
    by (simp add: loadReprocessAlertConfig_def)
  then have "loadReprocessConfig parseIP urlParse env \<noteq> Inr cfg" for cfg
    using loadReprocessConfig_parts [of parseIP urlParse env cfg] by auto
  then show "\<exists>e. loadReprocessConfig parseIP urlParse env = Inl e"
    by (cases "loadReprocessConfig parseIP urlParse env") auto
qed

theorem alert_switch_read_differently_witness:
  "cfgEnabled (alertConfig (loadConfig 4 (emptyEnv(''ALERTS_ENABLED'' \<mapsto> ''si''))))
   \<and> (\<exists>e. loadReprocessConfig (\<lambda>_. True) (\<lambda>_. None) (emptyEnv(''ALERTS_ENABLED'' \<mapsto> ''si'')) = Inl e)"
  by (rule alert_switch_read_differently [of _ "''si''"]) (simp_all add: lookupTrimmed_def emptyEnv_def)

end
