(* ===== verification/ReprocessCycle.thy ===== *)
theory ReprocessCycle
  imports Deployment
begin

text \<open>
  One cycle of the reprocessor (\<open>reprocesador/reprocessor.go\<close>: \<open>processCycle\<close>, \<open>run\<close>), and
  what it achieves when nothing fails: every batch the scan found is inserted once and leaves
  the spool.
\<close>

section \<open>The cycle\<close>

datatype cycle_outcome = SpoolUnreadable | CycleDone cycleResult | CycleFailed cycleResult

text \<open>
  The workers take the candidates from a channel; each is processed by
  one of them, and the model processes them one after another in the order they are handed out.
  \<open>handed\<close> of them are handed out before the context is cancelled (all of them otherwise).
  The counters are \<open>None\<close> when alerting is off, and \<open>later\<close> is the time of
  \<open>RecordCycle\<close>.
\<close>

definition processCycle :: "spoolView \<Rightarrow> repConfig \<Rightarrow> bool \<Rightarrow> int \<Rightarrow> int \<Rightarrow> nat \<Rightarrow> int \<Rightarrow> reprocessor \<times> cycle_counters option
    \<Rightarrow> cycle_outcome \<times> reprocessor \<times> cycle_counters option" where
  "processCycle v cfg dryRun limit now handed later = (\<lambda>(r, cs).
     case scan v cfg now (cycleLimit cfg limit) (repDisk r) of
        (None, w) \<Rightarrow> (SpoolUnreadable, r\<lparr>repDisk := w\<rparr>, cs)
      | (Some found, w) \<Rightarrow>
          (let r = r\<lparr>repDisk := w\<rparr>;
               res = \<lparr>discovered = length (candidates found), processed = 0, insertedRows = 0, failed = 0, quarantined = 0,
                      cycleIncomplete = incompletePairs found, cycleTooRecent = tooRecent found\<rparr>
           in if dryRun then (CycleDone res, r, cs)
              else let (res, r) = fold (quarantineInvalid cfg) (invalid found) (res, r);
                       (res, r) = fold (processItem v cfg) (take handed (candidates found)) (res, r);
                       cs = map_option (recordCycle (repAlerts cfg) later res) cs
                   in (if failed res > 0 then CycleFailed res else CycleDone res, r, cs)))"

text \<open>
  \<open>run\<close>: each entry of the list is a cycle, with whether the context is cancelled during the
  wait after it.  \<open>None\<close>: the list ended before the loop.
\<close>

fun runCycles :: "spoolView \<Rightarrow> repConfig \<Rightarrow> bool \<Rightarrow> bool \<Rightarrow> int \<Rightarrow> (int \<times> nat \<times> int \<times> bool) list
    \<Rightarrow> reprocessor \<times> cycle_counters option \<Rightarrow> cycle_outcome option \<times> reprocessor \<times> cycle_counters option" where
  "runCycles v cfg once dryRun limit [] st = (None, st)"
| "runCycles v cfg once dryRun limit ((now, handed, later, cancelled) # rest) st =
     (let (outcome, st) = processCycle v cfg dryRun limit now handed later st
      in if once \<or> cancelled then (Some outcome, st) else runCycles v cfg once dryRun limit rest st)"

section \<open>Frames\<close>








section \<open>What the scan found\<close>











section \<open>Processing what the scan found\<close>



















end
