(* ===== verification/AlertStart.thy ===== *)
theory AlertStart
  imports AlertRules ReprocessAlerts
begin

text \<open>
  How the two programs build their alert managers before anything runs: \<open>newAlertManager\<close>
  (\<open>alerts.go\<close>) and \<open>newReprocessAlertManager\<close> (\<open>reprocesador/reprocess_alerts.go\<close>), with the
  directories they create and the states they resume from.
\<close>

section \<open>Building a manager\<close>

text \<open>\<open>os.MkdirAll\<close> of each directory; the first failure ends it.  The disk has no empty directories.\<close>

fun makeDirectories :: "string list \<Rightarrow> 'c world \<Rightarrow> string option \<times> 'c world" where
  "makeDirectories [] w = (None, w)"
| "makeDirectories (dir # rest) w =
     (let (made, w) = quietCall w in if made then makeDirectories rest w else (Some dir, w))"

datatype manager_error =
    InvalidAlertConfig alert_config_error | NoHostname | AlertDirectory string | AlertStates load_error | SinkRejected alert_config_error

definition newManager :: "alert_settings \<Rightarrow> alert_file world \<Rightarrow> alertManager" where
  "newManager c w =
     \<lparr>settings = c, states = [], activeAlerts = 0, alertsOpened = 0, alertsCleared = 0, alertsDelivered = 0,
      deliveryErrs = 0, outboxPending = 0, logged = [], queued = [], disk = w, randoms = [], clocks = [],
      sinkFaults = [], accepted = []\<rparr>"

text \<open>\<open>hostName\<close> is what \<open>os.Hostname\<close> returns.  No manager is built when alerting is off.\<close>

definition newReprocessAlertManager :: "(string \<Rightarrow> (string \<times> string) option) \<Rightarrow> string option \<Rightarrow> reprocessAlertConfig
    \<Rightarrow> alert_file world \<Rightarrow> (manager_error + alertManager option) \<times> alert_file world" where
  "newReprocessAlertManager urlParse hostName cfg w =
     (if \<not> raEnabled cfg then (Inr None, w)
      else case hostName of None \<Rightarrow> (Inl NoHostname, w)
      | Some host \<Rightarrow>
          (let c = reprocessAlertSettings cfg host;
               (missing, w) = makeDirectories [raStateDir cfg, outboxDir c, badDir c] w
           in case missing of Some dir \<Rightarrow> (Inl (AlertDirectory dir), w)
           | None \<Rightarrow>
               (case loadStates (newManager c w) of
                  (Some e, m) \<Rightarrow> (Inl (AlertStates e), disk m)
                | (None, m) \<Rightarrow>
                    (if raMode cfg = alertModeClickHouse
                     then (case validateReprocessClickHouse urlParse (raClickHouse cfg) of
                             Some e \<Rightarrow> (Inl (SinkRejected e), disk m)
                           | None \<Rightarrow> (Inr (Some m), disk m))
                     else (Inr (Some m), disk m)))))"

text \<open>
  The collector's manager; its sink is refused by the same checks as its configuration, so that
  branch repeats them.
\<close>

definition newAlertManager :: "(string \<Rightarrow> bool) \<Rightarrow> (string \<Rightarrow> (string \<times> string) option) \<Rightarrow> string option \<Rightarrow> AlertConfig
    \<Rightarrow> alert_file world \<Rightarrow> (manager_error + alertManager option) \<times> alert_file world" where
  "newAlertManager parseIP urlParse hostName cfg w =
     (case validateAlertConfig parseIP urlParse cfg of Some e \<Rightarrow> (Inl (InvalidAlertConfig e), w)
      | None \<Rightarrow>
      (if \<not> cfgEnabled cfg then (Inr None, w)
      else case hostName of None \<Rightarrow> (Inl NoHostname, w)
      | Some host \<Rightarrow>
          (let c = alertSettings cfg host;
               (missing, w) = makeDirectories [cfgStateDir cfg, outboxDir c, badDir c] w
           in case missing of Some dir \<Rightarrow> (Inl (AlertDirectory dir), w)
           | None \<Rightarrow>
               (case loadStates (newManager c w) of
                  (Some e, m) \<Rightarrow> (Inl (AlertStates e), disk m)
                | (None, m) \<Rightarrow>
                    (if cfgMode cfg = alertModeClickHouse
                     then (case validateClickHouseAlertConfig urlParse (cfgClickHouse cfg) of
                             Some e \<Rightarrow> (Inl (SinkRejected e), disk m)
                           | None \<Rightarrow> (Inr (Some m), disk m))
                     else (Inr (Some m), disk m))))))"

section \<open>Building changes no file\<close>

lemma makeDirectories_files: "makeDirectories dirs w = (e, w') \<Longrightarrow> files w' = files w"
  by (induction dirs w rule: makeDirectories.induct) (auto simp: Let_def split: prod.splits if_splits dest: quietCall_files)

lemma readFile_filesE: "readFile p w = (c, w') \<Longrightarrow> files w' = files w"
  by (auto simp: readFile_def Let_def split: option.splits prod.splits if_splits dest: quietCall_files)

lemma loadStates_files: "loadStates m = (e, m') \<Longrightarrow> files (disk m') = files (disk m)"
  by (auto simp: loadStates_def Let_def split: option.splits prod.splits if_splits content.splits alert_file.splits
      dest: readFile_filesE)

lemma newReprocessAlertManager_files:
  assumes "newReprocessAlertManager urlParse hostName cfg w = (e, w')"
  shows "files w' = files w"
  using assms unfolding newReprocessAlertManager_def Let_def
  by (auto simp: newManager_def simp del: makeDirectories.simps split: option.splits prod.splits if_splits
      dest!: makeDirectories_files loadStates_files)

lemma newAlertManager_files:
  assumes "newAlertManager parseIP urlParse hostName cfg w = (e, w')"
  shows "files w' = files w"
  using assms unfolding newAlertManager_def Let_def
  by (auto simp: newManager_def simp del: makeDirectories.simps split: option.splits prod.splits if_splits
      dest!: makeDirectories_files loadStates_files)

lemma makeDirectories_calm: "faults w = [] \<Longrightarrow> \<exists>w'. makeDirectories dirs w = (None, w') \<and> faults w' = []"
proof (induction dirs arbitrary: w)
  case (Cons dir dirs)
  obtain made w1 where 1: "quietCall w = (made, w1)" by fastforce
  with Cons.prems have "made \<and> faults w1 = []" by (auto simp: quietCall_def sysCall_def changeTo_def popOr_def)
  with Cons.IH [of w1] 1 show ?case by simp
qed simp

end
