(* ===== verification/ReprocessService.thy ===== *)
theory ReprocessService
  imports ReprocessCycle AlertStart
begin

text \<open>
  The reprocessor as a service (\<open>reprocesador/main.go\<close>, \<open>lock_linux.go\<close>, and the start and stop of
  \<open>reprocessor.go\<close> and \<open>reprocess_alerts.go\<close>): the flags, what is prepared before the lock is
  taken, the lock file that keeps two instances off the same spool, and the loop until the process
  ends.  Several processes run as a transition system over one machine; the kernel drops the lock of
  a process that ends in any way.
\<close>

section \<open>Preparing\<close>

record rep_flags =
  flagOnce :: bool
  flagDryRun :: bool
  flagLimit :: int

datatype start_error =
    NegativeLimit | InvalidConfiguration reprocess_config_error | DirectoryNotCreated string | AlertsRejected manager_error

definition prepareDirectories :: "repConfig \<Rightarrow> spool_file world \<Rightarrow> string option \<times> spool_file world" where
  "prepareDirectories cfg w = makeDirectories [repDoneDir cfg, repArchiveDir cfg, repBadDir cfg] w"

definition newReprocessor :: "spool_file world \<Rightarrow> rep_request list \<Rightarrow> string option list \<Rightarrow> bool list \<Rightarrow> reprocessor" where
  "newReprocessor w requests answers cancels =
     \<lparr>repDisk = w, knownTables = [], repReplies = answers, repServed = requests, contextDone = cancels,
      repTotalBatches = 0, repTotalRows = 0, repTotalErrors = 0\<rparr>"

text \<open>\<open>main\<close> up to the lock.\<close>

definition startReprocessor :: "(string \<Rightarrow> (string \<times> string) option) \<Rightarrow> string option \<Rightarrow> rep_flags
    \<Rightarrow> reprocess_config_error + repConfig \<Rightarrow> spool_file world \<times> alert_file world
    \<Rightarrow> (start_error + repConfig \<times> alertManager option) \<times> spool_file world \<times> alert_file world" where
  "startReprocessor urlParse hostName flags loaded = (\<lambda>(w, aw).
     if flagLimit flags < 0 then (Inl NegativeLimit, w, aw)
     else case loaded of Inl e \<Rightarrow> (Inl (InvalidConfiguration e), w, aw)
     | Inr cfg \<Rightarrow>
         (case prepareDirectories cfg w of
            (Some dir, w) \<Rightarrow> (Inl (DirectoryNotCreated dir), w, aw)
          | (None, w) \<Rightarrow>
              (case newReprocessAlertManager urlParse hostName (repAlerts cfg) aw of
                 (Inl e, aw) \<Rightarrow> (Inl (AlertsRejected e), w, aw)
               | (Inr alerts, aw) \<Rightarrow> (Inr (cfg, alerts), w, aw))))"

text \<open>\<open>-dry-run\<close> implies \<open>-once\<close>.\<close>

definition runsOnce :: "rep_flags \<Rightarrow> bool" where
  "runsOnce flags \<longleftrightarrow> flagDryRun flags \<or> flagOnce flags"

section \<open>The lock\<close>

text \<open>
  The owner of the exclusive lock of each file.  \<open>opened\<close> is whether the file could be opened or
  created, \<open>granted\<close> whether a free lock is given (\<open>flock\<close> may fail for other reasons).
\<close>

type_synonym locks = "path \<Rightarrow> nat option"

datatype lock_error = LockFileNotOpened | AlreadyRunning

definition acquireProcessLock :: "bool \<Rightarrow> bool \<Rightarrow> nat \<Rightarrow> path \<Rightarrow> locks \<Rightarrow> lock_error option \<times> locks" where
  "acquireProcessLock opened granted pid p ls =
     (if \<not> opened then (Some LockFileNotOpened, ls)
      else if ls p \<noteq> None \<or> \<not> granted then (Some AlreadyRunning, ls)
      else (None, ls(p \<mapsto> pid)))"

definition releaseProcessLock :: "path \<Rightarrow> locks \<Rightarrow> locks" where
  "releaseProcessLock p ls = ls(p := None)"

definition lockPath :: "repConfig \<Rightarrow> path" where
  "lockPath cfg = (repSpoolBase cfg, ''.failed-reprocessor.lock'')"

section \<open>Processes on one machine\<close>

datatype service_end = StartFailed start_error | NotLocked lock_error | CycleError | ServiceStopped | ServiceKilled

datatype process =
    Absent
  | Prepared rep_flags repConfig "alertManager option"
  | Running rep_flags repConfig "reprocessor \<times> cycle_counters option"
  | Exited service_end

record machine =
  spoolFiles :: "spool_file world"
  alertFiles :: "alert_file world"
  requestsServed :: "rep_request list"
  lockTable :: locks
  processes :: "nat \<Rightarrow> process"

definition setProcess :: "nat \<Rightarrow> process \<Rightarrow> machine \<Rightarrow> machine" where
  "setProcess i p m = m\<lparr>processes := (processes m)(i := p)\<rparr>"

definition launchProcess :: "(string \<Rightarrow> (string \<times> string) option) \<Rightarrow> string option \<Rightarrow> nat \<Rightarrow> rep_flags
    \<Rightarrow> reprocess_config_error + repConfig \<Rightarrow> machine \<Rightarrow> machine" where
  "launchProcess urlParse hostName i flags loaded m =
     (let (started, w, aw) = startReprocessor urlParse hostName flags loaded (spoolFiles m, alertFiles m);
          m = m\<lparr>spoolFiles := w, alertFiles := aw\<rparr>
      in setProcess i (case started of Inl e \<Rightarrow> Exited (StartFailed e) | Inr (cfg, alerts) \<Rightarrow> Prepared flags cfg alerts) m)"

text \<open>
  The process takes the lock and enters \<open>run\<close>; its alert counters exist when it has a manager.
\<close>

definition enterService :: "bool \<Rightarrow> bool \<Rightarrow> string option list \<Rightarrow> bool list \<Rightarrow> nat \<Rightarrow> rep_flags \<Rightarrow> repConfig
    \<Rightarrow> alertManager option \<Rightarrow> machine \<Rightarrow> machine" where
  "enterService opened granted answers cancels i flags cfg alerts m =
     (case acquireProcessLock opened granted i (lockPath cfg) (lockTable m) of
        (Some e, ls) \<Rightarrow> setProcess i (Exited (NotLocked e)) (m\<lparr>lockTable := ls\<rparr>)
      | (None, ls) \<Rightarrow>
          setProcess i (Running flags cfg (newReprocessor (spoolFiles m) (requestsServed m) answers cancels, map_option (\<lambda>_. []) alerts))
            (m\<lparr>lockTable := ls\<rparr>))"

text \<open>Every end of a process gives back its lock, a \<open>log.Fatal\<close> or a kill included.\<close>

definition endProcess :: "service_end \<Rightarrow> nat \<Rightarrow> repConfig \<Rightarrow> machine \<Rightarrow> machine" where
  "endProcess e i cfg m = setProcess i (Exited e) (m\<lparr>lockTable := releaseProcessLock (lockPath cfg) (lockTable m)\<rparr>)"

definition endOf :: "rep_flags \<Rightarrow> cycle_outcome \<Rightarrow> service_end" where
  "endOf flags outcome =
     (if runsOnce flags then (case outcome of CycleDone _ \<Rightarrow> ServiceStopped | _ \<Rightarrow> CycleError) else ServiceStopped)"

text \<open>
  One round of the loop of \<open>run\<close>, on the spool as the machine has it now: the cycle, and the end of
  the process after it when it runs once or its context is cancelled.
\<close>

definition serviceCycle :: "spoolView \<Rightarrow> int \<Rightarrow> nat \<Rightarrow> int \<Rightarrow> bool \<Rightarrow> nat \<Rightarrow> rep_flags \<Rightarrow> repConfig
    \<Rightarrow> reprocessor \<times> cycle_counters option \<Rightarrow> machine \<Rightarrow> machine" where
  "serviceCycle v now handed later cancelled i flags cfg = (\<lambda>(r, cs) m.
     let (outcome, r, cs) = processCycle v cfg (flagDryRun flags) (flagLimit flags) now handed later
            (r\<lparr>repDisk := spoolFiles m, repServed := requestsServed m\<rparr>, cs);
         m = m\<lparr>spoolFiles := repDisk r, requestsServed := repServed r\<rparr>
     in if runsOnce flags \<or> cancelled then endProcess (endOf flags outcome) i cfg m
        else setProcess i (Running flags cfg (r, cs)) m)"

section \<open>Runs\<close>

datatype service_event =
    LaunchEvent nat rep_flags | EnterEvent nat path | RefusedEvent nat path | CycleEvent nat path | EndEvent nat path | OtherEnd nat

inductive service_step :: "machine \<Rightarrow> service_event list \<Rightarrow> machine \<Rightarrow> bool" where
  launch: "processes m i = Absent
     \<Longrightarrow> service_step m [LaunchEvent i flags] (launchProcess urlParse hostName i flags loaded m)"
| enter: "processes m i = Prepared flags cfg alerts \<Longrightarrow> acquireProcessLock opened granted i (lockPath cfg) (lockTable m) = (None, ls)
     \<Longrightarrow> service_step m [EnterEvent i (lockPath cfg)] (enterService opened granted answers cancels i flags cfg alerts m)"
| refuse: "processes m i = Prepared flags cfg alerts \<Longrightarrow> acquireProcessLock opened granted i (lockPath cfg) (lockTable m) = (Some e, ls)
     \<Longrightarrow> service_step m [RefusedEvent i (lockPath cfg)] (enterService opened granted answers cancels i flags cfg alerts m)"
| cycle: "processes m i = Running flags cfg st
     \<Longrightarrow> service_step m (CycleEvent i (lockPath cfg) # (if runsOnce flags \<or> cancelled then [EndEvent i (lockPath cfg)] else []))
           (serviceCycle v now handed later cancelled i flags cfg st m)"
| kill: "processes m i = Running flags cfg st
     \<Longrightarrow> service_step m [EndEvent i (lockPath cfg)] (endProcess ServiceKilled i cfg m)"
| kill_early: "processes m i = Prepared flags cfg alerts
     \<Longrightarrow> service_step m [OtherEnd i] (setProcess i (Exited ServiceKilled) m)"

inductive_cases service_stepE: "service_step m es m'"

inductive service_run :: "machine \<Rightarrow> service_event list \<Rightarrow> machine \<Rightarrow> bool" where
  finished: "service_run m [] m"
| onward: "service_step m es m' \<Longrightarrow> service_run m' fs m'' \<Longrightarrow> service_run m (es @ fs) m''"

text \<open>A machine on which no reprocessor was started yet.\<close>

definition idleMachine :: "machine \<Rightarrow> bool" where
  "idleMachine m \<longleftrightarrow> (\<forall>i. processes m i = Absent) \<and> (\<forall>p. lockTable m p = None)"

section \<open>A dry run only looks\<close>















section \<open>One instance per spool\<close>

text \<open>A lock belongs to a running process, and every running process has its lock.\<close>

definition locksHeld :: "machine \<Rightarrow> bool" where
  "locksHeld m \<longleftrightarrow> (\<forall>i p. lockTable m p = Some i \<longleftrightarrow> (\<exists>flags cfg st. processes m i = Running flags cfg st \<and> lockPath cfg = p))"

lemma locksHeld_iff:
  "locksHeld m \<Longrightarrow> lockTable m p = Some i \<longleftrightarrow> (\<exists>flags cfg st. processes m i = Running flags cfg st \<and> lockPath cfg = p)"
  unfolding locksHeld_def by blast

lemma acquire_ok: "acquireProcessLock opened granted i p ls = (None, ls') \<longleftrightarrow> opened \<and> granted \<and> ls p = None \<and> ls' = ls(p \<mapsto> i)"
  by (auto simp: acquireProcessLock_def)

lemma acquire_refused: "acquireProcessLock opened granted i p ls = (Some e, ls') \<Longrightarrow> ls' = ls"
  by (auto simp: acquireProcessLock_def split: if_splits)

lemma endProcess_locks:
  assumes "locksHeld m" "processes m i = Running flags cfg st" "lockTable m' = lockTable m" "processes m' = processes m"
  shows "locksHeld (endProcess e i cfg m')"
  unfolding locksHeld_def
proof (intro allI)
  fix j p
  have i: "lockTable m p = Some i \<longleftrightarrow> lockPath cfg = p" for p using locksHeld_iff [OF assms(1), of p i] assms(2) by auto
  show "lockTable (endProcess e i cfg m') p = Some j
      \<longleftrightarrow> (\<exists>flags' cfg' st'. processes (endProcess e i cfg m') j = Running flags' cfg' st' \<and> lockPath cfg' = p)"
  proof (cases "j = i")
    case True
    then show ?thesis using i assms(3) by (auto simp: endProcess_def setProcess_def releaseProcessLock_def)
  next
    case False
    have "lockTable m (lockPath cfg) \<noteq> Some j" using i [of "lockPath cfg"] False by auto
    then show ?thesis using locksHeld_iff [OF assms(1), of p j] assms(3,4) False
      by (cases "p = lockPath cfg") (simp_all add: endProcess_def setProcess_def releaseProcessLock_def)
  qed
qed

lemma locks_step: "service_step m es m' \<Longrightarrow> locksHeld m \<Longrightarrow> locksHeld m'"
proof (induction rule: service_step.induct)
  case (launch m i flags urlParse hostName loaded)
  then show ?case
    by (auto simp: locksHeld_def launchProcess_def setProcess_def Let_def split: prod.splits sum.splits)
next
  case (enter m i flags cfg alerts opened granted ls answers cancels)
  then have free: "lockTable m (lockPath cfg) = None" and ls: "ls = (lockTable m)(lockPath cfg \<mapsto> i)"
    by (simp_all add: acquire_ok)
  have mine: "lockTable m p \<noteq> Some i" for p using locksHeld_iff [OF enter.prems, of p i] enter.hyps(1) by simp
  note iff = locksHeld_iff [OF enter.prems]
  have others: "j \<noteq> i \<Longrightarrow> processes m j = Running flags' cfg' st' \<Longrightarrow> lockPath cfg' \<noteq> lockPath cfg" for j flags' cfg' st'
    using iff [of "lockPath cfg" j] free by auto
  let ?st = "(newReprocessor (spoolFiles m) (requestsServed m) answers cancels, map_option (\<lambda>_. []) alerts)"
  show ?case
    unfolding locksHeld_def
  proof (intro allI)
    fix j p
    let ?m' = "enterService opened granted answers cancels i flags cfg alerts m"
    have "processes ?m' = (processes m)(i := Running flags cfg ?st)" "lockTable ?m' = (lockTable m)(lockPath cfg \<mapsto> i)"
      by (simp_all add: enterService_def enter.hyps(2) setProcess_def ls)
    then show "lockTable ?m' p = Some j \<longleftrightarrow> (\<exists>flags cfg st. processes ?m' j = Running flags cfg st \<and> lockPath cfg = p)"
      using iff [of p j] mine [of p] others [of j] by (cases "p = lockPath cfg"; cases "j = i") auto
  qed
next
  case (refuse m i flags cfg alerts opened granted e ls answers cancels)
  then show ?case using acquire_refused [OF refuse.hyps(2)]
    by (auto simp: enterService_def setProcess_def locksHeld_def)
next
  case (cycle m i flags cfg st cancelled v now handed later)
  obtain r cs where st: "st = (r, cs)" by fastforce
  obtain outcome r' cs' where c: "processCycle v cfg (flagDryRun flags) (flagLimit flags) now handed later
      (r\<lparr>repDisk := spoolFiles m, repServed := requestsServed m\<rparr>, cs) = (outcome, r', cs')" by (metis prod_cases3)
  let ?m = "m\<lparr>spoolFiles := repDisk r', requestsServed := repServed r'\<rparr>"
  have "locksHeld (endProcess e i cfg ?m)" for e
    by (rule endProcess_locks [OF cycle.prems cycle.hyps]) simp_all
  moreover have "locksHeld (setProcess i (Running flags cfg (r', cs')) ?m)"
    using cycle.prems cycle.hyps by (auto simp: locksHeld_def setProcess_def)
  ultimately show ?case by (simp add: serviceCycle_def st c Let_def)
next
  case (kill m i flags cfg st)
  then show ?case by (intro endProcess_locks) simp_all
next
  case (kill_early m i flags cfg alerts)
  then show ?case by (auto simp: locksHeld_def setProcess_def)
qed

text \<open>
  What a trace means for the locks alone: a lock is entered when free, and a cycle or an end belongs
  to its holder.
\<close>

fun afterEvents :: "locks \<Rightarrow> service_event list \<Rightarrow> locks" where
  "afterEvents ls [] = ls"
| "afterEvents ls (EnterEvent i p # es) = afterEvents (ls(p \<mapsto> i)) es"
| "afterEvents ls (EndEvent i p # es) = afterEvents (ls(p := None)) es"
| "afterEvents ls (_ # es) = afterEvents ls es"

fun lockTrace :: "locks \<Rightarrow> service_event list \<Rightarrow> bool" where
  "lockTrace ls [] = True"
| "lockTrace ls (EnterEvent i p # es) = (ls p = None \<and> lockTrace (ls(p \<mapsto> i)) es)"
| "lockTrace ls (EndEvent i p # es) = (ls p = Some i \<and> lockTrace (ls(p := None)) es)"
| "lockTrace ls (CycleEvent i p # es) = (ls p = Some i \<and> lockTrace ls es)"
| "lockTrace ls (_ # es) = lockTrace ls es"

lemma lockTrace_append: "lockTrace ls (es @ fs) \<longleftrightarrow> lockTrace ls es \<and> lockTrace (afterEvents ls es) fs"
proof (induction es arbitrary: ls)
  case (Cons e es)
  then show ?case by (cases e) (simp_all add: fun_upd_def)
qed simp

lemma afterEvents_append [simp]: "afterEvents ls (es @ fs) = afterEvents (afterEvents ls es) fs"
proof (induction es arbitrary: ls)
  case (Cons e es)
  then show ?case by (cases e) (simp_all add: fun_upd_def)
qed simp

lemma step_trace: "service_step m es m' \<Longrightarrow> locksHeld m \<Longrightarrow> lockTrace (lockTable m) es \<and> lockTable m' = afterEvents (lockTable m) es"
proof (induction rule: service_step.induct)
  case (launch m i flags urlParse hostName loaded)
  then show ?case by (simp add: launchProcess_def setProcess_def Let_def split: prod.splits)
next
  case (enter m i flags cfg alerts opened granted ls answers cancels)
  have "lockTable m (lockPath cfg) = None \<and> ls = (lockTable m)(lockPath cfg \<mapsto> i)" using enter.hyps(2) by (simp add: acquire_ok)
  then show ?case by (simp add: enterService_def enter.hyps(2) setProcess_def)
next
  case (refuse m i flags cfg alerts opened granted e ls answers cancels)
  then show ?case using acquire_refused [OF refuse.hyps(2)] by (simp add: enterService_def setProcess_def)
next
  case (cycle m i flags cfg st cancelled v now handed later)
  have "lockTable m (lockPath cfg) = Some i" using locksHeld_iff [OF cycle.prems] cycle.hyps by blast
  then show ?case
    by (simp add: serviceCycle_def endProcess_def setProcess_def releaseProcessLock_def Let_def fun_upd_def split: prod.splits)
next
  case (kill m i flags cfg st)
  then have "lockTable m (lockPath cfg) = Some i" using locksHeld_iff [OF kill.prems] by blast
  then show ?case by (simp add: endProcess_def setProcess_def releaseProcessLock_def)
next
  case (kill_early m i flags cfg alerts)
  then show ?case by (simp add: setProcess_def)
qed

lemma run_trace: "service_run m es m' \<Longrightarrow> locksHeld m \<Longrightarrow> lockTrace (lockTable m) es"
proof (induction rule: service_run.induct)
  case (finished m)
  then show ?case by simp
next
  case (onward m es m' fs m'')
  with step_trace [OF onward.hyps(1)] locks_step [OF onward.hyps(1)] show ?case by (simp add: lockTrace_append)
qed

lemma lock_kept: "lockTrace ls es \<Longrightarrow> ls p = Some i \<Longrightarrow> EndEvent i p \<notin> set es \<Longrightarrow> afterEvents ls es p = Some i"
proof (induction es arbitrary: ls)
  case (Cons e es)
  show ?case
  proof (cases e)
    case (EnterEvent k q)
    with Cons.prems Cons.IH [of "ls(q \<mapsto> k)"] show ?thesis by (cases "q = p") (simp_all add: fun_upd_def)
  next
    case (EndEvent k q)
    with Cons.prems Cons.IH [of "ls(q := None)"] show ?thesis by (cases "q = p") (simp_all add: fun_upd_def)
  qed (use Cons in simp_all)
qed simp

lemma lock_not_won: "EnterEvent j p \<notin> set es \<Longrightarrow> ls p \<noteq> Some j \<Longrightarrow> afterEvents ls es p \<noteq> Some j"
proof (induction es arbitrary: ls)
  case (Cons e es)
  show ?case
  proof (cases e)
    case (EnterEvent k q)
    with Cons.prems Cons.IH [of "ls(q \<mapsto> k)"] show ?thesis by (cases "q = p") (simp_all add: fun_upd_def)
  next
    case (EndEvent k q)
    with Cons.prems Cons.IH [of "ls(q := None)"] show ?thesis by (cases "q = p") (simp_all add: fun_upd_def)
  qed (use Cons in simp_all)
qed simp

lemma idle_locks: "idleMachine m \<Longrightarrow> locksHeld m"
  by (simp add: idleMachine_def locksHeld_def)

text \<open>
  C9. One reprocessor per spool: in any history of a machine, with processes
  started, refused and killed at any point, when a cycle of one instance over a spool is followed by
  a cycle of another instance over the same spool, the first instance has ended and the second has
  taken the lock in between.  No two instances work on the same batches at the same time, and a
  killed instance does not block the next one.
\<close>

theorem spool_cycles_exclusive:
  assumes "idleMachine m" "service_run m (before @ CycleEvent i p # between @ CycleEvent j p # after) m'" "i \<noteq> j"
  shows "EndEvent i p \<in> set between \<and> EnterEvent j p \<in> set between"
proof -
  have "lockTrace (lockTable m) (before @ CycleEvent i p # between @ CycleEvent j p # after)"
    by (rule run_trace [OF assms(2) idle_locks [OF assms(1)]])
  then have "lockTrace (afterEvents (lockTable m) before) (CycleEvent i p # between @ CycleEvent j p # after)"
    unfolding lockTrace_append by (rule conjunct2)
  then have held: "afterEvents (lockTable m) before p = Some i"
    and rest: "lockTrace (afterEvents (lockTable m) before) (between @ CycleEvent j p # after)" by simp_all
  define ls where "ls = afterEvents (lockTable m) before"
  have "lockTrace ls between \<and> lockTrace (afterEvents ls between) (CycleEvent j p # after)"
    using rest unfolding ls_def lockTrace_append .
  then have ls: "ls p = Some i" "lockTrace ls between" "afterEvents ls between p = Some j"
    using held by (simp_all add: ls_def)
  from lock_kept [OF ls(2,1)] ls(3) assms(3) have "EndEvent i p \<in> set between" by auto
  moreover from lock_not_won [of j p between ls] ls(1,3) assms(3) have "EnterEvent j p \<in> set between" by auto
  ultimately show ?thesis ..
qed

text \<open>A free lock is given to whoever asks, so the refusal is always another running instance or a failed call.\<close>

lemma refusal_reason:
  assumes "idleMachine m" "service_run m es m'" "acquireProcessLock True True i p (lockTable m') = (Some e, ls)"
  obtains j flags cfg st where "processes m' j = Running flags cfg st" "lockPath cfg = p"
proof -
  have "locksHeld m'" using assms(2) idle_locks [OF assms(1)]
    by (induction rule: service_run.induct) (auto intro: locks_step)
  moreover obtain j where "lockTable m' p = Some j" using assms(3) by (auto simp: acquireProcessLock_def split: if_splits)
  ultimately show thesis using locksHeld_iff that by blast
qed

section \<open>Two instances, one after the other\<close>

definition quiet_repConfig :: repConfig where
  "quiet_repConfig = (example_repConfig ''delete'')\<lparr>repAlerts := example_repAlerts\<lparr>raEnabled := False\<rparr>\<rparr>"

definition dry_flags :: rep_flags where
  "dry_flags = \<lparr>flagOnce = False, flagDryRun = True, flagLimit = 0\<rparr>"

definition example_machine :: machine where
  "example_machine = \<lparr>spoolFiles = example_spool [], alertFiles = \<lparr>files = [], faults = [], suffixes = [], trace = []\<rparr>,
     requestsServed = [], lockTable = (\<lambda>_. None), processes = (\<lambda>_. Absent)\<rparr>"

lemma launch_example:
  assumes "faults (spoolFiles m) = []"
  shows "\<exists>w. launchProcess (\<lambda>_. None) None i flags (Inr quiet_repConfig) m
      = setProcess i (if flagLimit flags < 0 then Exited (StartFailed NegativeLimit) else Prepared flags quiet_repConfig None)
          (m\<lparr>spoolFiles := w\<rparr>) \<and> faults w = []"
proof -
  obtain e w where d: "prepareDirectories quiet_repConfig (spoolFiles m) = (e, w)" by fastforce
  have "faults w = [] \<and> e = None"
    using d assms by (simp add: prepareDirectories_def quietCall_def sysCall_def changeTo_def popOr_def) auto
  with d assms show ?thesis
    by (cases "flagLimit flags < 0")
      (auto simp: launchProcess_def startReprocessor_def newReprocessAlertManager_def quiet_repConfig_def
        intro!: exI [of _ "if flagLimit flags < 0 then spoolFiles m else w"])
qed

lemma once_example:
  assumes "processes m i = Prepared flags cfg alerts" "lockTable m (lockPath cfg) = None" "runsOnce flags"
  shows "\<exists>m' e. service_run m [EnterEvent i (lockPath cfg), CycleEvent i (lockPath cfg), EndEvent i (lockPath cfg)] m'
    \<and> processes m' = (processes m)(i := Exited e) \<and> lockTable m' = lockTable m"
proof -
  let ?p = "lockPath cfg" and ?st = "(newReprocessor (spoolFiles m) (requestsServed m) [] [], map_option (\<lambda>_. []) alerts)"
  let ?m1 = "enterService True True [] [] i flags cfg alerts m"
  have acquired: "acquireProcessLock True True i ?p (lockTable m) = (None, (lockTable m)(?p \<mapsto> i))"
    using assms(2) by (simp add: acquire_ok)
  have m1: "processes ?m1 = (processes m)(i := Running flags cfg ?st)" "lockTable ?m1 = (lockTable m)(?p \<mapsto> i)"
    by (simp_all add: enterService_def acquired setProcess_def)
  let ?m2 = "serviceCycle example_view 100 5 100 False i flags cfg ?st ?m1"
  obtain outcome r cs where c: "processCycle example_view cfg (flagDryRun flags) (flagLimit flags) 100 5 100
      ((fst ?st)\<lparr>repDisk := spoolFiles ?m1, repServed := requestsServed ?m1\<rparr>, snd ?st) = (outcome, r, cs)" by (metis prod_cases3)
  obtain e where m2: "processes ?m2 = (processes ?m1)(i := Exited e)" "lockTable ?m2 = (lockTable ?m1)(?p := None)"
  proof
    show "processes ?m2 = (processes ?m1)(i := Exited (endOf flags outcome))" "lockTable ?m2 = (lockTable ?m1)(?p := None)"
      using assms(3) c by (simp_all add: serviceCycle_def endProcess_def setProcess_def releaseProcessLock_def Let_def)
  qed
  have "service_step m [EnterEvent i ?p] ?m1" by (rule service_step.enter [OF assms(1) acquired])
  moreover have "service_step ?m1 (CycleEvent i ?p # (if runsOnce flags \<or> False then [EndEvent i ?p] else [])) ?m2"
    by (rule service_step.cycle) (simp add: m1)
  ultimately have "service_run m ([EnterEvent i ?p] @ (CycleEvent i ?p # (if runsOnce flags \<or> False then [EndEvent i ?p] else [])) @ []) ?m2"
    by (rule service_run.onward [OF _ service_run.onward [OF _ service_run.finished]])
  with assms(2,3) m1 m2 show ?thesis by (intro exI [of _ ?m2] exI [of _ e]) (simp add: fun_upd_idem)
qed

lemma service_run_append: "service_run m es m' \<Longrightarrow> service_run m' fs m'' \<Longrightarrow> service_run m (es @ fs) m''"
  by (induction rule: service_run.induct) (auto intro: service_run.onward)

definition service_events :: "path \<Rightarrow> service_event list" where
  "service_events p = [LaunchEvent 0 dry_flags, LaunchEvent 1 dry_flags, EnterEvent 0 p, CycleEvent 0 p, EndEvent 0 p,
     EnterEvent 1 p, CycleEvent 1 p, EndEvent 1 p]"

lemma example_service_run: "\<exists>m'. service_run example_machine (service_events (lockPath quiet_repConfig)) m'"
proof -
  let ?p = "lockPath quiet_repConfig"
  have flags: "\<not> flagLimit dry_flags < 0" "runsOnce dry_flags" by (simp_all add: dry_flags_def runsOnce_def)
  let ?launch = "\<lambda>i. launchProcess (\<lambda>_. None) None i dry_flags (Inr quiet_repConfig)"
  obtain w1 where 1: "?launch 0 example_machine = setProcess 0 (Prepared dry_flags quiet_repConfig None) (example_machine\<lparr>spoolFiles := w1\<rparr>)"
    "faults w1 = []"
    using launch_example [of example_machine 0 dry_flags] flags by (auto simp: example_machine_def example_spool_def)
  let ?m1 = "?launch 0 example_machine"
  obtain w2 where 2: "?launch 1 ?m1 = setProcess 1 (Prepared dry_flags quiet_repConfig None) (?m1\<lparr>spoolFiles := w2\<rparr>)"
    using launch_example [of ?m1 1 dry_flags] flags 1 by (auto simp: setProcess_def)
  let ?m2 = "?launch 1 ?m1"
  have at2: "processes ?m2 0 = Prepared dry_flags quiet_repConfig None" "processes ?m2 1 = Prepared dry_flags quiet_repConfig None"
    "lockTable ?m2 = (\<lambda>_. None)"
    unfolding 2 unfolding 1 by (simp_all add: setProcess_def example_machine_def)
  have "service_step example_machine [LaunchEvent 0 dry_flags] ?m1"
    by (rule service_step.launch) (simp add: example_machine_def)
  moreover have "service_step ?m1 [LaunchEvent 1 dry_flags] ?m2"
    by (rule service_step.launch) (unfold 1, simp add: setProcess_def example_machine_def)
  ultimately have start: "service_run example_machine ([LaunchEvent 0 dry_flags] @ [LaunchEvent 1 dry_flags] @ []) ?m2"
    by (rule service_run.onward [OF _ service_run.onward [OF _ service_run.finished]])
  obtain m3 e3 where 3: "service_run ?m2 [EnterEvent 0 ?p, CycleEvent 0 ?p, EndEvent 0 ?p] m3"
    "processes m3 = (processes ?m2)(0 := Exited e3)" "lockTable m3 = lockTable ?m2"
    using once_example [OF at2(1) _ flags(2)] at2(3) by auto
  have "processes m3 1 = Prepared dry_flags quiet_repConfig None" "lockTable m3 ?p = None"
    unfolding 3 using at2 by simp_all
  then obtain m4 where 4: "service_run m3 [EnterEvent 1 ?p, CycleEvent 1 ?p, EndEvent 1 ?p] m4"
    using once_example flags(2) by blast
  from service_run_append [OF service_run_append [OF start 3(1)] 4] show ?thesis
    by (auto simp: service_events_def)
qed

lemma example_machine_idle: "idleMachine example_machine"
  by (simp add: idleMachine_def example_machine_def)


theorem spool_cycles_exclusive_witness:
  "let p = lockPath quiet_repConfig; between = take 2 (drop 4 (service_events p))
   in EndEvent 0 p \<in> set between \<and> EnterEvent 1 p \<in> set between"
proof -
  let ?p = "lockPath quiet_repConfig" and ?es = "service_events (lockPath quiet_repConfig)"
  obtain m' where run: "service_run example_machine ?es m'" using example_service_run by blast
  have "?es = take 3 ?es @ CycleEvent 0 ?p # take 2 (drop 4 ?es) @ CycleEvent 1 ?p # drop 7 ?es"
    by (simp add: service_events_def)
  with run have "service_run example_machine
      (take 3 ?es @ CycleEvent 0 ?p # take 2 (drop 4 ?es) @ CycleEvent 1 ?p # drop 7 ?es) m'" by metis
  from spool_cycles_exclusive [OF example_machine_idle this] show ?thesis by (simp add: Let_def)
qed

end
