(* ===== verification/AlertSink.thy ===== *)
theory AlertSink
  imports AlertDelivery Schema
begin

text \<open>
  The ClickHouse side of the alerts (\<open>clickhouse_alerts.go\<close>, and its copy in
  \<open>reprocesador/reprocess_alerts.go\<close>): the table, the row a record becomes, \<open>Prepare\<close> and
  \<open>Upsert\<close>, and the worker that empties the outbox with an exponential backoff.  A JSON document is
  modelled by the value it encodes.
\<close>

section \<open>The table\<close>

definition clickHouseAlertCreateTableDDL :: "string \<Rightarrow> string" where
  "clickHouseAlertCreateTableDDL tableName =
     joinWith newline
       ['''', ''CREATE TABLE IF NOT EXISTS '' @ tableName, ''('',
        ''    id UUID,'',
        ''    hostname LowCardinality(String),'',
        ''    ip String,'',
        ''    fecha_inicio DateTime64(6, '' @ [CHR 0x27] @ ''America/Lima'' @ [CHR 0x27] @ ''),'',
        ''    fecha_fin Nullable(DateTime64(6, '' @ [CHR 0x27] @ ''America/Lima'' @ [CHR 0x27] @ '')),'',
        ''    nombre LowCardinality(String),'',
        ''    umbral Float64,'',
        ''    porcentaje_indicador Float64,'',
        ''    estado LowCardinality(String),'',
        ''    fecha_envio DateTime64(6, '' @ [CHR 0x27] @ ''America/Lima'' @ [CHR 0x27] @ ''),'',
        ''    version UInt64'',
        '')'',
        ''ENGINE = ReplacingMergeTree(version)'',
        ''PARTITION BY toYYYYMM(fecha_inicio)'',
        ''ORDER BY id'',
        ''SETTINGS index_granularity = 8192'']"

definition clickHouseAlertInsertQuery :: "string \<Rightarrow> string" where
  "clickHouseAlertInsertQuery tableName =
     ''INSERT INTO '' @ tableName @ '' (id, hostname, ip, fecha_inicio, fecha_fin, nombre, umbral, porcentaje_indicador, estado, fecha_envio, version) FORMAT JSONEachRow''"

text \<open>\<open>2006-01-02 15:04:05.000000\<close> in the fixed zone, of nanoseconds since the epoch.\<close>

definition formatClickHouseAlertTime :: "int \<Rightarrow> string" where
  "formatClickHouseAlertTime nano =
     (let unix = nano div 10 ^ 9
      in formatDate ''-'' unix @ '' '' @ formatClock '':'' unix @ ''.'' @ padDigits 6 (nat (nano mod 10 ^ 9 div 1000)))"

record clickHouseAlertRow =
  rowID :: string
  rowHostname :: string
  rowIP :: string
  rowStartTime :: string
  rowEndTime :: "string option"
  rowName :: string
  rowThreshold :: f64
  rowIndicator :: f64
  rowState :: string
  rowSentTime :: string
  rowVersion :: u64

definition alertRow :: "int \<Rightarrow> AlertRecord \<Rightarrow> clickHouseAlertRow" where
  "alertRow now r =
     \<lparr>rowID = recID r, rowHostname = recHostname r, rowIP = recIP r,
      rowStartTime = formatClickHouseAlertTime (recStartTime r),
      rowEndTime = map_option formatClickHouseAlertTime (recEndTime r),
      rowName = recName r, rowThreshold = recThreshold r, rowIndicator = recIndicator r, rowState = recState r,
      rowSentTime = formatClickHouseAlertTime now, rowVersion = word_of_int now\<rparr>"

section \<open>The sink\<close>

datatype sink_request = AlertDDL string | AlertInsert string clickHouseAlertRow

text \<open>
  \<open>sinkReplies\<close> is what the next requests answer (\<open>None\<close>: success), \<open>sinkServed\<close> the requests
  ClickHouse accepted, \<open>sinkClock\<close> the next values of \<open>time.Now()\<close>.
\<close>

record alertSink =
  sinkTable :: string
  sinkAutoCreate :: bool
  sinkPrepared :: bool
  sinkReplies :: "string option list"
  sinkServed :: "sink_request list"
  sinkClock :: "int list"

datatype sink_error = CreateTableError string | EncodeError | InsertError string

definition sinkExecute :: "sink_request \<Rightarrow> alertSink \<Rightarrow> string option \<times> alertSink" where
  "sinkExecute req s =
     (let (reply, rest) = popOr None (sinkReplies s);
          s = s\<lparr>sinkReplies := rest\<rparr>
      in case reply of Some e \<Rightarrow> (Some e, s) | None \<Rightarrow> (None, s\<lparr>sinkServed := sinkServed s @ [req]\<rparr>))"

definition sinkPrepare :: "(string \<Rightarrow> string) \<Rightarrow> alertSink \<Rightarrow> sink_error option \<times> alertSink" where
  "sinkPrepare ddl s =
     (if \<not> sinkAutoCreate s then (None, s)
      else if sinkPrepared s then (None, s)
      else case sinkExecute (AlertDDL (ddl (sinkTable s))) s of
             (Some e, s) \<Rightarrow> (Some (CreateTableError e), s)
           | (None, s) \<Rightarrow> (None, s\<lparr>sinkPrepared := True\<rparr>))"

text \<open>\<open>json.Marshal\<close> rejects a number that is not finite.\<close>

definition finiteNumber :: "f64 \<Rightarrow> bool" where
  "finiteNumber x \<longleftrightarrow> \<not> isNaN x \<and> \<not> isInf x"

definition sinkUpsert :: "(string \<Rightarrow> string) \<Rightarrow> (string \<Rightarrow> string) \<Rightarrow> AlertRecord \<Rightarrow> alertSink \<Rightarrow> sink_error option \<times> alertSink" where
  "sinkUpsert ddl insert_query r s =
     (case sinkPrepare ddl s of
        (Some e, s) \<Rightarrow> (Some e, s)
      | (None, s) \<Rightarrow>
          (let (now, rest) = popOr 0 (sinkClock s);
               s = s\<lparr>sinkClock := rest\<rparr>
           in if \<not> (finiteNumber (recThreshold r) \<and> finiteNumber (recIndicator r)) then (Some EncodeError, s)
              else case sinkExecute (AlertInsert (insert_query (sinkTable s)) (alertRow now r)) s of
                     (Some e, s) \<Rightarrow> (Some (InsertError e), s)
                   | (None, s) \<Rightarrow> (None, s)))"

definition collectorUpsert :: "AlertRecord \<Rightarrow> alertSink \<Rightarrow> sink_error option \<times> alertSink" where
  "collectorUpsert = sinkUpsert clickHouseAlertCreateTableDDL clickHouseAlertInsertQuery"

text \<open>The reprocessor's copies of the texts and of the calls.\<close>

definition reprocessClickHouseAlertCreateTableDDL :: "string \<Rightarrow> string" where
  "reprocessClickHouseAlertCreateTableDDL tableName =
     joinWith newline
       ['''', ''CREATE TABLE IF NOT EXISTS '' @ tableName, ''('',
        ''    id UUID,'', ''    hostname LowCardinality(String),'', ''    ip String,'',
        ''    fecha_inicio DateTime64(6, '' @ [CHR 0x27] @ ''America/Lima'' @ [CHR 0x27] @ ''),'',
        ''    fecha_fin Nullable(DateTime64(6, '' @ [CHR 0x27] @ ''America/Lima'' @ [CHR 0x27] @ '')),'',
        ''    nombre LowCardinality(String),'', ''    umbral Float64,'', ''    porcentaje_indicador Float64,'',
        ''    estado LowCardinality(String),'',
        ''    fecha_envio DateTime64(6, '' @ [CHR 0x27] @ ''America/Lima'' @ [CHR 0x27] @ ''),'',
        ''    version UInt64'', '')'',
        ''ENGINE = ReplacingMergeTree(version)'', ''PARTITION BY toYYYYMM(fecha_inicio)'', ''ORDER BY id'',
        ''SETTINGS index_granularity = 8192'']"

definition reprocessClickHouseAlertInsertQuery :: "string \<Rightarrow> string" where
  "reprocessClickHouseAlertInsertQuery tableName =
     ''INSERT INTO '' @ tableName @ '' (id, hostname, ip, fecha_inicio, fecha_fin, nombre, umbral, porcentaje_indicador, estado, fecha_envio, version) FORMAT JSONEachRow''"

definition reprocessUpsert :: "AlertRecord \<Rightarrow> alertSink \<Rightarrow> sink_error option \<times> alertSink" where
  "reprocessUpsert = sinkUpsert reprocessClickHouseAlertCreateTableDDL reprocessClickHouseAlertInsertQuery"

definition reprocessEnqueue :: "AlertRecord \<Rightarrow> alertManager \<Rightarrow> bool \<times> alertManager" where
  "reprocessEnqueue = enqueue writeReprocessAlertFile safeReprocessAlertFileToken"

definition reprocessEmit :: "AlertRecord \<Rightarrow> alertManager \<Rightarrow> bool \<times> alertManager" where
  "reprocessEmit = emit writeReprocessAlertFile safeReprocessAlertFileToken"

definition reprocessPersistStates :: "alertManager \<Rightarrow> bool \<times> alertManager" where
  "reprocessPersistStates = persistStates writeReprocessAlertFile"

definition reprocessLoadStates :: "alertManager \<Rightarrow> load_error option \<times> alertManager" where
  "reprocessLoadStates = loadStates"

definition reprocessDeliverOutbox :: "alertManager \<Rightarrow> (bool \<times> bool) \<times> alertManager" where
  "reprocessDeliverOutbox = deliverOutbox"

section \<open>The worker\<close>

record outbox_worker =
  workerPrepared :: bool
  workerRetry :: int

definition backoff :: "int \<Rightarrow> int \<Rightarrow> int" where
  "backoff maximumRetry retry = (if retry * 2 > maximumRetry then maximumRetry else retry * 2)"

text \<open>
  One turn of the loop of \<open>outboxWorker\<close>: its wait, whether it failed, and the state after it;
  \<open>prepareOK\<close> is whether \<open>Prepare\<close> succeeds if it is called.
\<close>

definition outboxTurn :: "int \<Rightarrow> int \<Rightarrow> bool \<Rightarrow> outbox_worker \<times> alertManager \<Rightarrow> (int \<times> bool) \<times> outbox_worker \<times> alertManager" where
  "outboxTurn retry0 maximumRetry prepareOK = (\<lambda>(x, m).
     if \<not> workerPrepared x \<and> \<not> prepareOK
     then ((workerRetry x, True), x\<lparr>workerRetry := backoff maximumRetry (workerRetry x)\<rparr>, countError m)
     else let x = (if workerPrepared x then x else x\<lparr>workerPrepared := True, workerRetry := retry0\<rparr>);
              ((delivered, failed), m) = deliverOutbox m
          in if failed then ((workerRetry x, True), x\<lparr>workerRetry := backoff maximumRetry (workerRetry x)\<rparr>, m)
             else ((if delivered then 10 ^ 9 else 5 * 10 ^ 9, False), x\<lparr>workerRetry := retry0\<rparr>, m))"

fun outboxWorker :: "int \<Rightarrow> int \<Rightarrow> bool list \<Rightarrow> outbox_worker \<times> alertManager \<Rightarrow> (int \<times> bool) list \<times> outbox_worker \<times> alertManager" where
  "outboxWorker retry0 maximumRetry [] xm = ([], xm)"
| "outboxWorker retry0 maximumRetry (ok # oks) xm =
     (let (wait, xm) = outboxTurn retry0 maximumRetry ok xm; (waits, xm) = outboxWorker retry0 maximumRetry oks xm
      in (wait # waits, xm))"

definition newWorker :: "int \<Rightarrow> outbox_worker" where
  "newWorker retry0 = \<lparr>workerPrepared = False, workerRetry = retry0\<rparr>"


section \<open>The table holds the last delivered record of every alert\<close>


definition acceptedOf :: "AlertRecord list \<Rightarrow> bool list \<Rightarrow> AlertRecord list" where
  "acceptedOf rs oks = map fst (filter snd (zip rs oks))"

lemma acceptedOf_simps [simp]:
  "acceptedOf [] oks = []" "acceptedOf (r # rs) (ok # oks) = (if ok then r # acceptedOf rs oks else acceptedOf rs oks)"
  by (simp_all add: acceptedOf_def)

text \<open>
  \<open>ReplacingMergeTree(version)\<close> ordered by \<open>id\<close>: of the rows of an \<open>id\<close> the one with the
  greatest version remains, of equal versions the last inserted.
\<close>

definition replacing :: "clickHouseAlertRow option \<Rightarrow> clickHouseAlertRow \<Rightarrow> clickHouseAlertRow option" where
  "replacing cur new = (case cur of None \<Rightarrow> Some new | Some c \<Rightarrow> if rowVersion new < rowVersion c then Some c else Some new)"

fun mergeRow :: "string \<Rightarrow> sink_request \<Rightarrow> clickHouseAlertRow option \<Rightarrow> clickHouseAlertRow option" where
  "mergeRow ident (AlertDDL _) cur = cur"
| "mergeRow ident (AlertInsert _ row) cur = (if rowID row = ident then replacing cur row else cur)"

definition finalRow :: "string \<Rightarrow> sink_request list \<Rightarrow> clickHouseAlertRow option" where
  "finalRow ident served = fold (mergeRow ident) served None"

lemma finalRow_append [simp]: "finalRow ident (xs @ ys) = fold (mergeRow ident) ys (finalRow ident xs)"
  by (simp add: finalRow_def)



lemma alertRow_fields [simp]: "rowID (alertRow t r) = recID r" "rowVersion (alertRow t r) = word_of_int t"
  by (simp_all add: alertRow_def)











section \<open>The backoff\<close>

lemma outboxTurn_cases:
  assumes "outboxTurn retry0 maximumRetry ok (x, m) = ((wait, failed), x', m')"
  obtains (fails) "failed" "workerPrepared x' = workerPrepared x" "wait = workerRetry x" "workerRetry x' = backoff maximumRetry (workerRetry x)"
  | (prepared) "failed" "\<not> workerPrepared x" "workerPrepared x'" "wait = retry0" "workerRetry x' = backoff maximumRetry retry0"
  | (succeeds) "\<not> failed" "workerPrepared x'" "workerRetry x' = retry0" "wait = 10 ^ 9 \<or> wait = 5 * 10 ^ 9"
  using assms by (auto simp: outboxTurn_def Let_def split: if_splits prod.splits)

lemma backoff_min: "0 < b \<Longrightarrow> 0 < mx \<Longrightarrow> backoff mx (min b mx) = min (2 * b) (mx :: int)"
  by (auto simp: backoff_def min_def)

lemma outboxTurn_prepared:
  "outboxTurn retry0 mx ok (x, m) = (out, x', m') \<Longrightarrow> workerPrepared x \<Longrightarrow> workerPrepared x'"
  by (auto simp: outboxTurn_def Let_def split: prod.splits if_splits)

lemma outboxWorker_prepared:
  "outboxWorker retry0 mx oks (x, m) = (waits, x', m') \<Longrightarrow> workerPrepared x \<Longrightarrow> workerPrepared x'"
proof (induction oks arbitrary: x m waits)
  case (Cons ok oks)
  obtain out x1 m1 where 1: "outboxTurn retry0 mx ok (x, m) = (out, x1, m1)" by (metis prod_cases3)
  from Cons.prems(1) 1 obtain waits1 where "outboxWorker retry0 mx oks (x1, m1) = (waits1, x', m')"
    by (auto split: prod.splits)
  with Cons.IH outboxTurn_prepared [OF 1 Cons.prems(2)] show ?case by blast
qed simp

lemma failing_waits:
  assumes "outboxWorker retry0 mx oks (x, m) = (waits, x', m')" "0 < retry0" "0 < mx" "workerRetry x = min (retry0 * 2 ^ k) mx"
    and "\<forall>(w, failed) \<in> set waits. failed" "workerPrepared x' = workerPrepared x"
  shows "map fst waits = map (\<lambda>i. min (retry0 * 2 ^ (k + i)) mx) [0..<length oks]"
  using assms
proof (induction oks arbitrary: x m waits k)
  case (Cons ok oks)
  obtain w f x1 m1 where 1: "outboxTurn retry0 mx ok (x, m) = ((w, f), x1, m1)" by (metis surj_pair)
  from Cons.prems(1) 1 obtain ws where rest: "outboxWorker retry0 mx oks (x1, m1) = (ws, x', m')" and ws: "waits = (w, f) # ws"
    by (auto split: prod.splits)
  have f: "f" "\<forall>(w, failed) \<in> set ws. failed" using Cons.prems(5) ws by auto
  from 1 have step: "w = workerRetry x" "workerRetry x1 = backoff mx (workerRetry x)" "workerPrepared x1 = workerPrepared x"
    using f(1) Cons.prems(6) outboxWorker_prepared [OF rest] by (cases rule: outboxTurn_cases; simp)+
  have "workerRetry x1 = min (retry0 * 2 ^ Suc k) mx"
    using step(2) Cons.prems(2-4) backoff_min [of "retry0 * 2 ^ k" mx] by (simp add: mult_ac)
  note IH = Cons.IH [OF rest Cons.prems(2,3) this f(2)]
  have "[0..<length (ok # oks)] = 0 # map Suc [0..<length oks]" by (simp add: upt_conv_Cons map_Suc_upt del: upt_Suc)
  with IH step Cons.prems(4,6) show ?case by (simp add: ws comp_def del: upt_Suc)
qed simp

lemma outboxWorker_waits:
  assumes "outboxWorker retry0 mx oks (x, m) = (waits, x', m')" "0 < retry0" "retry0 \<le> mx" "retry0 \<le> workerRetry x" "workerRetry x \<le> mx"
  shows "\<forall>(w, failed) \<in> set waits. if failed then retry0 \<le> w \<and> w \<le> mx else w = 10 ^ 9 \<or> w = 5 * 10 ^ 9"
  using assms
proof (induction oks arbitrary: x m waits)
  case (Cons ok oks)
  obtain w f x1 m1 where 1: "outboxTurn retry0 mx ok (x, m) = ((w, f), x1, m1)" by (metis surj_pair)
  from Cons.prems(1) 1 obtain ws where rest: "outboxWorker retry0 mx oks (x1, m1) = (ws, x', m')" and ws: "waits = (w, f) # ws"
    by (auto split: prod.splits)
  from 1 have step: "if f then retry0 \<le> w \<and> w \<le> mx else w = 10 ^ 9 \<or> w = 5 * 10 ^ 9"
    "retry0 \<le> workerRetry x1 \<and> workerRetry x1 \<le> mx"
    using Cons.prems(2-5) by (cases rule: outboxTurn_cases; auto simp: backoff_def)+
  with Cons.IH [OF rest] Cons.prems(2,3) show ?case by (simp add: ws)
qed simp

text \<open>
  The outbox worker never spins and never sleeps for ever.  Whatever the sink and
  the disk do, a failed turn waits between the configured retry and the maximum, a successful one 1 or 5
  seconds; and while the failures go on (the preparation of the table, or the deliveries once it is prepared)
  the waits double from the retry up to exactly the maximum.
\<close>

theorem outbox_backoff_bounded:
  assumes "outboxWorker retry0 maximumRetry oks (x, m) = (waits, x', m')" "0 < retry0" "retry0 \<le> maximumRetry" "workerRetry x = retry0"
  shows "(\<forall>(w, failed) \<in> set waits. if failed then retry0 \<le> w \<and> w \<le> maximumRetry else w = 10 ^ 9 \<or> w = 5 * 10 ^ 9)
    \<and> ((\<forall>(w, failed) \<in> set waits. failed) \<and> workerPrepared x' = workerPrepared x \<longrightarrow>
         map fst waits = map (\<lambda>i. min (retry0 * 2 ^ i) maximumRetry) [0..<length oks])"
  using outboxWorker_waits [OF assms(1-3)] failing_waits [OF assms(1,2), of 0] assms(2-4) by (simp add: min_def)

text \<open>The default settings while ClickHouse is down.\<close>

theorem outbox_backoff_bounded_witness:
  "map fst (fst (outboxWorker 5 300 (replicate 8 False) (newWorker 5, alert_example))) = [5, 10, 20, 40, 80, 160, 300, 300]"
proof -
  obtain waits x' m' where run: "outboxWorker 5 300 (replicate 8 False) (newWorker 5, alert_example) = (waits, x', m')"
    by (metis prod_cases3)
  have "(case outboxWorker 5 300 (replicate 8 False) (newWorker 5, alert_example) of
      (ws, x', _) \<Rightarrow> list_all snd ws \<and> \<not> workerPrepared x')"
    by code_simp
  with run have "list_all snd waits" "\<not> workerPrepared x'" by simp_all
  then have "map fst waits = map (\<lambda>i. min (5 * 2 ^ i) 300) [0..<length (replicate 8 False)]"
    using outbox_backoff_bounded [OF run] by (simp add: newWorker_def list_all_iff split_beta)
  also have "\<dots> = [5, 10, 20, 40, 80, 160, 300, 300]" by (simp add: upt_rec)
  finally show ?thesis by (simp add: run)
qed

end
