(* ===== verification/BufferPool.thy ===== *)
theory BufferPool
  imports Prelude "HOL-Library.Multiset"
begin

text \<open>
  The packet buffers of \<open>main.go\<close> (\<open>packetBuffer512Pool\<close>, \<open>packetBuffer2048Pool\<close>,
  \<open>acquirePacketBuffer\<close>, \<open>releasePacketBuffer\<close>, \<open>copy\<close>) over an explicit store: Go shares the
  arrays behind its slices, and the pools hand the same array out again, so that a buffer used
  after its release, or released twice, would show the bytes of another packet.  The contract the
  receivers and workers rely on is the locale \<open>private_buffers\<close>; it is interpreted on the
  code's pools.
\<close>

section \<open>Arrays, slices and pools\<close>

text \<open>An array is named by its position in \<open>arrays\<close>; a pool is a bag of arrays at rest.\<close>

record bufferStore =
  arrays :: "bytes list"
  packetBuffer512Pool :: "nat list"
  packetBuffer2048Pool :: "nat list"

text \<open>A slice from the start of its array, as every buffer of the receive path is.\<close>

record slice =
  sliceArray :: nat
  sliceLen :: nat

definition sliceCap :: "bufferStore \<Rightarrow> slice \<Rightarrow> nat" where
  "sliceCap h sl = length (arrays h ! sliceArray sl)"

definition contents :: "bufferStore \<Rightarrow> slice \<Rightarrow> bytes" where
  "contents h sl = take (sliceLen sl) (arrays h ! sliceArray sl)"

definition makeSlice :: "nat \<Rightarrow> bufferStore \<Rightarrow> slice \<times> bufferStore" where
  "makeSlice n h = (\<lparr>sliceArray = length (arrays h), sliceLen = n\<rparr>, h\<lparr>arrays := arrays h @ [replicate n 0]\<rparr>)"

text \<open>\<open>buffer[:n]\<close>; beyond the capacity it panics.\<close>

definition resize :: "bufferStore \<Rightarrow> slice \<Rightarrow> nat \<Rightarrow> slice option" where
  "resize h sl n = (if n \<le> sliceCap h sl then Some (sl\<lparr>sliceLen := n\<rparr>) else None)"

text \<open>
  \<open>sync.Pool\<close> promises no order and may drop what it holds: \<open>Get\<close> returns any pooled array or a
  new one.  The choice is an input; \<open>None\<close> is a new array.
\<close>

definition poolGet :: "nat option \<Rightarrow> nat list \<Rightarrow> (nat \<times> nat list) option" where
  "poolGet choice pool =
     (case choice of
        Some i \<Rightarrow> if i < length pool then Some (pool ! i, take i pool @ drop (Suc i) pool) else None
      | None \<Rightarrow> None)"

definition acquirePacketBuffer :: "nat option \<Rightarrow> nat \<Rightarrow> bufferStore \<Rightarrow> (slice \<times> bufferStore) option" where
  "acquirePacketBuffer choice n h =
     (if n \<le> 512 then
        (let (sl, h) = (case poolGet choice (packetBuffer512Pool h) of
                          Some (a, pool) \<Rightarrow> (\<lparr>sliceArray = a, sliceLen = 512\<rparr>, h\<lparr>packetBuffer512Pool := pool\<rparr>)
                        | None \<Rightarrow> makeSlice 512 h)
         in map_option (\<lambda>sl. (sl, h)) (resize h sl n))
      else if n \<le> 2048 then
        (let (sl, h) = (case poolGet choice (packetBuffer2048Pool h) of
                          Some (a, pool) \<Rightarrow> (\<lparr>sliceArray = a, sliceLen = 2048\<rparr>, h\<lparr>packetBuffer2048Pool := pool\<rparr>)
                        | None \<Rightarrow> makeSlice 2048 h)
         in map_option (\<lambda>sl. (sl, h)) (resize h sl n))
      else Some (makeSlice n h))"

definition releasePacketBuffer :: "slice \<Rightarrow> bufferStore \<Rightarrow> bufferStore" where
  "releasePacketBuffer sl h =
     (if sliceCap h sl = 512 then h\<lparr>packetBuffer512Pool := sliceArray sl # packetBuffer512Pool h\<rparr>
      else if sliceCap h sl = 2048 then h\<lparr>packetBuffer2048Pool := sliceArray sl # packetBuffer2048Pool h\<rparr>
      else h)"

text \<open>\<open>copy(dst, src)\<close>: as many bytes as both have.\<close>

definition copyInto :: "slice \<Rightarrow> bytes \<Rightarrow> bufferStore \<Rightarrow> bufferStore" where
  "copyInto dst src h =
     (let n = min (sliceLen dst) (length src)
      in h\<lparr>arrays := (arrays h)[sliceArray dst := take n src @ drop n (arrays h ! sliceArray dst)]\<rparr>)"

section \<open>The contract\<close>

text \<open>
  \<open>holds h held\<close>: the slices \<open>held\<close> by the program are private.  Acquiring gives a slice of the
  wanted length and disturbs none of those held; writing to one changes that one only; a released
  slice leaves the others as they were.
\<close>

locale private_buffers =
  fixes acquire :: "nat option \<Rightarrow> nat \<Rightarrow> 'h \<Rightarrow> ('s \<times> 'h) option"
    and release :: "'s \<Rightarrow> 'h \<Rightarrow> 'h"
    and copy :: "'s \<Rightarrow> bytes \<Rightarrow> 'h \<Rightarrow> 'h"
    and bytesOf :: "'h \<Rightarrow> 's \<Rightarrow> bytes"
    and holds :: "'h \<Rightarrow> 's multiset \<Rightarrow> bool"
  assumes acquire_holds: "holds h held \<Longrightarrow> \<exists>s h'. acquire choice n h = Some (s, h') \<and> holds h' (add_mset s held)
      \<and> length (bytesOf h' s) = n \<and> (\<forall>x \<in># held. bytesOf h' x = bytesOf h x)"
    and copy_holds: "holds h (add_mset s held) \<Longrightarrow> holds (copy s bs h) (add_mset s held)
      \<and> (length bs \<le> length (bytesOf h s) \<longrightarrow> bytesOf (copy s bs h) s = bs @ drop (length bs) (bytesOf h s))
      \<and> (\<forall>x \<in># held. bytesOf (copy s bs h) x = bytesOf h x)"
    and release_holds: "holds h (add_mset s held) \<Longrightarrow> holds (release s h) held \<and> (\<forall>x. bytesOf (release s h) x = bytesOf h x)"
begin

text \<open>The receivers' use: acquire and fill.\<close>

lemma store_packet:
  assumes "holds h held"
  shows "\<exists>s h'. acquire choice (length bs) h = Some (s, h') \<and> holds (copy s bs h') (add_mset s held)
    \<and> bytesOf (copy s bs h') s = bs \<and> (\<forall>x \<in># held. bytesOf (copy s bs h') x = bytesOf h x)"
proof -
  obtain s h' where s: "acquire choice (length bs) h = Some (s, h')" "holds h' (add_mset s held)"
    "length (bytesOf h' s) = length bs" "\<forall>x \<in># held. bytesOf h' x = bytesOf h x"
    using acquire_holds [OF assms] by blast
  from copy_holds [OF s(2), of bs] s show ?thesis by (intro exI [of _ s] exI [of _ h']) simp
qed

text \<open>A batch of writes to some of the held slices leaves the rest alone.\<close>

lemma fill_all:
  assumes "holds h (mset ss + held)" "length bss = length ss"
    and "\<And>i. i < length ss \<Longrightarrow> length (bss ! i) \<le> length (bytesOf h (ss ! i))"
  shows "holds (fold (\<lambda>(s, bs). copy s bs) (zip ss bss) h) (mset ss + held)
    \<and> (\<forall>i < length ss. take (length (bss ! i)) (bytesOf (fold (\<lambda>(s, bs). copy s bs) (zip ss bss) h) (ss ! i)) = bss ! i)
    \<and> (\<forall>x \<in># held. bytesOf (fold (\<lambda>(s, bs). copy s bs) (zip ss bss) h) x = bytesOf h x)"
  using assms
proof (induction ss arbitrary: bss h held)
  case Nil
  then show ?case by simp
next
  case (Cons s ss)
  then obtain bs bss' where b: "bss = bs # bss'" by (cases bss) auto
  have c: "holds (copy s bs h) (add_mset s (mset ss + held))" "\<forall>x \<in># mset ss + held. bytesOf (copy s bs h) x = bytesOf h x"
      "bytesOf (copy s bs h) s = bs @ drop (length bs) (bytesOf h s)"
    using copy_holds [of h s "mset ss + held" bs] Cons.prems(1) Cons.prems(3) [of 0] b by auto
  have "length (bss' ! i) \<le> length (bytesOf (copy s bs h) (ss ! i))" if "i < length ss" for i
    using Cons.prems(3) [of "Suc i"] that c(2) b by (auto simp: nth_mem)
  with Cons.IH [where h = "copy s bs h" and held = "add_mset s held" and bss = bss'] c(1) Cons.prems(2) b
  have ih: "holds (fold (\<lambda>(s, bs). copy s bs) (zip ss bss') (copy s bs h)) (mset ss + add_mset s held)"
      "\<forall>i < length ss. take (length (bss' ! i)) (bytesOf (fold (\<lambda>(s, bs). copy s bs) (zip ss bss') (copy s bs h)) (ss ! i)) = bss' ! i"
      "\<forall>x \<in># add_mset s held. bytesOf (fold (\<lambda>(s, bs). copy s bs) (zip ss bss') (copy s bs h)) x = bytesOf (copy s bs h) x"
    by auto
  show ?case
  proof (intro conjI allI impI ballI)
    fix i
    assume "i < length (s # ss)"
    then show "take (length (bss ! i)) (bytesOf (fold (\<lambda>(s, bs). copy s bs) (zip (s # ss) bss) h) ((s # ss) ! i)) = bss ! i"
      using ih(2,3) c(3) b by (cases i) auto
  qed (use ih(1,3) c(2) b in auto)
qed

end

section \<open>The pools meet the contract\<close>

definition owned :: "bufferStore \<Rightarrow> slice multiset \<Rightarrow> nat multiset" where
  "owned h held = image_mset sliceArray held + mset (packetBuffer512Pool h) + mset (packetBuffer2048Pool h)"

text \<open>
  No array is held twice or both held and pooled, and each pool holds arrays of its own size: the
  capacity test of \<open>releasePacketBuffer\<close> and the reslicing of \<open>acquirePacketBuffer\<close> rest on it.
\<close>

definition privateSlices :: "bufferStore \<Rightarrow> slice multiset \<Rightarrow> bool" where
  "privateSlices h held \<longleftrightarrow> (\<forall>a. count (owned h held) a \<le> 1) \<and> (\<forall>a \<in># owned h held. a < length (arrays h))
     \<and> (\<forall>a \<in> set (packetBuffer512Pool h). length (arrays h ! a) = 512)
     \<and> (\<forall>a \<in> set (packetBuffer2048Pool h). length (arrays h ! a) = 2048)
     \<and> (\<forall>x \<in># held. sliceLen x \<le> sliceCap h x)"

lemma privateSlicesD:
  assumes "privateSlices h held"
  shows "count (owned h held) a \<le> 1" "a \<in># owned h held \<Longrightarrow> a < length (arrays h)"
    "a \<in> set (packetBuffer512Pool h) \<Longrightarrow> length (arrays h ! a) = 512"
    "a \<in> set (packetBuffer2048Pool h) \<Longrightarrow> length (arrays h ! a) = 2048"
    "x \<in># held \<Longrightarrow> sliceLen x \<le> sliceCap h x"
  using assms by (auto simp: privateSlices_def)

lemma held_owned: "x \<in># held \<Longrightarrow> sliceArray x \<in># owned h held"
  by (auto simp: owned_def)

lemma poolGet_mset: "poolGet choice pool = Some (a, rest) \<Longrightarrow> mset pool = add_mset a (mset rest)"
  by (auto simp: poolGet_def id_take_nth_drop [symmetric] split: option.splits if_splits
      simp flip: mset.simps mset_append)
     (metis add_mset_add_single id_take_nth_drop mset.simps(2) mset_append union_mset_add_mset_right)

text \<open>A held slice never aliases another one.\<close>

lemma held_distinct:
  assumes "privateSlices h (add_mset s held)" "x \<in># held"
  shows "sliceArray x \<noteq> sliceArray s"
proof
  assume "sliceArray x = sliceArray s"
  with assms(2) have "2 \<le> count (owned h (add_mset s held)) (sliceArray s)"
    by (auto simp: owned_def dest!: multi_member_split)
  with privateSlicesD(1) [OF assms(1), of "sliceArray s"] show False by simp
qed

lemma pooled_not_held:
  assumes "privateSlices h (add_mset s held)"
  shows "sliceArray s \<notin> set (packetBuffer512Pool h)" "sliceArray s \<notin> set (packetBuffer2048Pool h)"
proof -
  have "count (owned h (add_mset s held)) (sliceArray s) \<le> 1" by (rule privateSlicesD(1) [OF assms])
  then have "count (mset (packetBuffer512Pool h)) (sliceArray s) = 0" "count (mset (packetBuffer2048Pool h)) (sliceArray s) = 0"
    by (auto simp: owned_def)
  then show "sliceArray s \<notin> set (packetBuffer512Pool h)" "sliceArray s \<notin> set (packetBuffer2048Pool h)"
    by (auto simp: count_eq_zero_iff)
qed

text \<open>A new array is nobody's.\<close>

lemma makeSlice_holds:
  assumes "privateSlices h held" "makeSlice n h = (sl, h')" "m \<le> n"
  shows "privateSlices h' (add_mset (sl\<lparr>sliceLen := m\<rparr>) held) \<and> length (contents h' (sl\<lparr>sliceLen := m\<rparr>)) = m
    \<and> (\<forall>x \<in># held. contents h' x = contents h x) \<and> sliceCap h' sl = n"
proof -
  have eq: "sl = \<lparr>sliceArray = length (arrays h), sliceLen = n\<rparr>" "h' = h\<lparr>arrays := arrays h @ [replicate n 0]\<rparr>"
    using assms(2) by (simp_all add: makeSlice_def)
  have old: "arrays h' ! a = arrays h ! a" if "a \<in># owned h held" for a
    using privateSlicesD(2) [OF assms(1) that] by (simp add: eq nth_append)
  have new: "length (arrays h) \<notin># owned h held" using privateSlicesD(2) [OF assms(1)] by blast
  have owned: "owned h' (add_mset (sl\<lparr>sliceLen := m\<rparr>) held) = add_mset (length (arrays h)) (owned h held)"
    by (simp add: owned_def eq)
  have cap: "sliceCap h' x = sliceCap h x" "contents h' x = contents h x" if "x \<in># held" for x
    using old [OF held_owned [OF that]] by (simp_all add: sliceCap_def contents_def)
  have pools: "packetBuffer512Pool h' = packetBuffer512Pool h" "packetBuffer2048Pool h' = packetBuffer2048Pool h" by (simp_all add: eq)
  have "privateSlices h' (add_mset (sl\<lparr>sliceLen := m\<rparr>) held)"
    unfolding privateSlices_def owned pools
  proof (intro conjI allI ballI)
    show "count (add_mset (length (arrays h)) (owned h held)) a \<le> 1" for a
      using privateSlicesD(1) [OF assms(1), of a] new by (auto simp: not_in_iff)
    show "a < length (arrays h')" if "a \<in># add_mset (length (arrays h)) (owned h held)" for a
      using that privateSlicesD(2) [OF assms(1)] by (auto simp: eq less_SucI)
    show "length (arrays h' ! a) = 512" if "a \<in> set (packetBuffer512Pool h)" for a
      using that old [of a] privateSlicesD(3) [OF assms(1)] by (simp add: owned_def)
    show "length (arrays h' ! a) = 2048" if "a \<in> set (packetBuffer2048Pool h)" for a
      using that old [of a] privateSlicesD(4) [OF assms(1)] by (simp add: owned_def)
    show "sliceLen x \<le> sliceCap h' x" if "x \<in># add_mset (sl\<lparr>sliceLen := m\<rparr>) held" for x
      using that privateSlicesD(5) [OF assms(1)] assms(3) cap(1) by (auto simp: sliceCap_def eq)
  qed
  with cap(2) assms(3) show ?thesis by (simp add: contents_def sliceCap_def eq)
qed

text \<open>Moving an array between a pool and the program changes no array.\<close>

lemma move_holds:
  assumes "privateSlices h held" "arrays h' = arrays h" "owned h' held' = owned h held"
    and "\<forall>a \<in> set (packetBuffer512Pool h'). length (arrays h ! a) = 512"
    and "\<forall>a \<in> set (packetBuffer2048Pool h'). length (arrays h ! a) = 2048"
    and "\<forall>x \<in># held'. sliceLen x \<le> sliceCap h x"
  shows "privateSlices h' held'" "contents h' x = contents h x"
proof -
  have "sliceCap h' x = sliceCap h x" for x by (simp add: sliceCap_def assms(2))
  with assms show "privateSlices h' held'" by (simp add: privateSlices_def)
  show "contents h' x = contents h x" by (simp add: contents_def assms(2))
qed

lemma pooled_resize:
  assumes "privateSlices h held" and h': "h' = h\<lparr>packetBuffer512Pool := p\<rparr> \<or> h' = h\<lparr>packetBuffer2048Pool := p\<rparr>"
    and pools: "owned h held = add_mset a (owned h' held)" "length (arrays h ! a) = k" "n \<le> k"
    and sub: "set (packetBuffer512Pool h') \<subseteq> set (packetBuffer512Pool h)" "set (packetBuffer2048Pool h') \<subseteq> set (packetBuffer2048Pool h)"
  shows "privateSlices h' (add_mset \<lparr>sliceArray = a, sliceLen = n\<rparr> held) \<and> length (contents h' \<lparr>sliceArray = a, sliceLen = n\<rparr>) = n
    \<and> (\<forall>x \<in># held. contents h' x = contents h x)"
proof -
  have arr: "arrays h' = arrays h" using h' by auto
  have owned: "owned h' (add_mset \<lparr>sliceArray = a, sliceLen = n\<rparr> held) = owned h held"
    using pools(1) by (simp add: owned_def)
  have len: "\<forall>x \<in># add_mset \<lparr>sliceArray = a, sliceLen = n\<rparr> held. sliceLen x \<le> sliceCap h x"
    using privateSlicesD(5) [OF assms(1)] pools(2,3) by (auto simp: sliceCap_def)
  have 512: "\<forall>a \<in> set (packetBuffer512Pool h'). length (arrays h ! a) = 512"
    and 2048: "\<forall>a \<in> set (packetBuffer2048Pool h'). length (arrays h ! a) = 2048"
    using privateSlicesD(3,4) [OF assms(1)] sub by blast+
  note move = move_holds [OF assms(1) arr owned 512 2048 len]
  from move pools(2,3) arr show ?thesis by (simp add: contents_def)
qed

lemma acquire_private:
  assumes "privateSlices h held"
  shows "\<exists>s h'. acquirePacketBuffer choice n h = Some (s, h') \<and> privateSlices h' (add_mset s held)
    \<and> length (contents h' s) = n \<and> (\<forall>x \<in># held. contents h' x = contents h x)"
proof -
  have new: ?thesis if "acquirePacketBuffer choice n h = Some (sl\<lparr>sliceLen := n\<rparr>, h')" "makeSlice k h = (sl, h')" "n \<le> k" for k sl h'
    using makeSlice_holds [OF assms that(2,3)] that(1) by blast
  consider (small) "n \<le> 512" | (medium) "512 < n" "n \<le> 2048" | (large) "2048 < n" by linarith
  then show ?thesis
  proof cases
    case small
    show ?thesis
    proof (cases "poolGet choice (packetBuffer512Pool h)")
      case None
      obtain sl h' where m: "makeSlice 512 h = (sl, h')" by fastforce
      with makeSlice_holds [OF assms m small] small None show ?thesis
        by (intro new [of sl h' 512]) (simp_all add: acquirePacketBuffer_def resize_def)
    next
      case (Some r)
      obtain a p where r: "r = (a, p)" by fastforce
      note ms = poolGet_mset [OF Some [unfolded r]]
      have mem: "a \<in> set (packetBuffer512Pool h)" "set p \<subseteq> set (packetBuffer512Pool h)"
        using arg_cong [OF ms, of set_mset] by auto
      have "acquirePacketBuffer choice n h = Some (\<lparr>sliceArray = a, sliceLen = n\<rparr>, h\<lparr>packetBuffer512Pool := p\<rparr>)"
        using small Some privateSlicesD(3) [OF assms mem(1)] by (simp add: acquirePacketBuffer_def r resize_def sliceCap_def)
      with pooled_resize [OF assms disjI1 [OF refl] _ privateSlicesD(3) [OF assms mem(1)] small, of p] ms mem(2)
      show ?thesis by (auto simp: owned_def)
    qed
  next
    case medium
    show ?thesis
    proof (cases "poolGet choice (packetBuffer2048Pool h)")
      case None
      obtain sl h' where m: "makeSlice 2048 h = (sl, h')" by fastforce
      with makeSlice_holds [OF assms m medium(2)] medium None show ?thesis
        by (intro new [of sl h' 2048]) (simp_all add: acquirePacketBuffer_def resize_def)
    next
      case (Some r)
      obtain a p where r: "r = (a, p)" by fastforce
      note ms = poolGet_mset [OF Some [unfolded r]]
      have mem: "a \<in> set (packetBuffer2048Pool h)" "set p \<subseteq> set (packetBuffer2048Pool h)"
        using arg_cong [OF ms, of set_mset] by auto
      have "acquirePacketBuffer choice n h = Some (\<lparr>sliceArray = a, sliceLen = n\<rparr>, h\<lparr>packetBuffer2048Pool := p\<rparr>)"
        using medium Some privateSlicesD(4) [OF assms mem(1)] by (simp add: acquirePacketBuffer_def r resize_def sliceCap_def)
      with pooled_resize [OF assms disjI2 [OF refl] _ privateSlicesD(4) [OF assms mem(1)] medium(2), of p] ms mem(2)
      show ?thesis by (auto simp: owned_def)
    qed
  next
    case large
    obtain sl h' where m: "makeSlice n h = (sl, h')" by fastforce
    with large show ?thesis by (intro new [of sl h' n]) (auto simp: acquirePacketBuffer_def makeSlice_def)
  qed
qed

lemma copy_private:
  assumes "privateSlices h (add_mset s held)"
  shows "privateSlices (copyInto s bs h) (add_mset s held)
    \<and> (length bs \<le> length (contents h s) \<longrightarrow> contents (copyInto s bs h) s = bs @ drop (length bs) (contents h s))
    \<and> (\<forall>x \<in># held. contents (copyInto s bs h) x = contents h x)"
proof -
  let ?a = "sliceArray s" and ?h = "copyInto s bs h" and ?n = "min (sliceLen s) (length bs)"
  let ?new = "take ?n bs @ drop ?n (arrays h ! ?a)"
  have a: "?a < length (arrays h)" using privateSlicesD(2) [OF assms held_owned [of s]] by simp
  have cap: "sliceLen s \<le> length (arrays h ! ?a)" using privateSlicesD(5) [OF assms, of s] by (simp add: sliceCap_def)
  have eq: "arrays ?h = (arrays h)[?a := ?new]" "owned ?h x = owned h x" "packetBuffer512Pool ?h = packetBuffer512Pool h"
    "packetBuffer2048Pool ?h = packetBuffer2048Pool h" for x by (simp_all add: copyInto_def owned_def Let_def)
  have len: "length (arrays ?h ! i) = length (arrays h ! i)" "length (arrays ?h) = length (arrays h)" for i
    using cap by (cases "i = ?a"; simp add: eq(1) a)+
  have "privateSlices ?h (add_mset s held)"
    using assms unfolding privateSlices_def eq(2-4) sliceCap_def len .
  moreover have "contents ?h x = contents h x" if "x \<in># held" for x
    using held_distinct [OF assms that] by (simp add: contents_def eq(1))
  moreover have "contents ?h s = bs @ drop (length bs) (contents h s)" if "length bs \<le> length (contents h s)"
    using that cap a by (simp add: contents_def eq(1) drop_take)
  ultimately show ?thesis by blast
qed

lemma release_private:
  assumes "privateSlices h (add_mset s held)"
  shows "privateSlices (releasePacketBuffer s h) held \<and> (\<forall>x. contents (releasePacketBuffer s h) x = contents h x)"
proof -
  note p = privateSlicesD [OF assms]
  have sub: "privateSlices h held"
    unfolding privateSlices_def
  proof (intro conjI allI ballI)
    show "count (owned h held) a \<le> 1" for a by (rule order_trans [OF _ p(1) [of a]]) (simp add: owned_def)
  qed (use p in \<open>auto simp: owned_def\<close>)
  show ?thesis
  proof (cases "sliceCap h s \<in> {512, 2048}")
    case False
    with sub show ?thesis by (simp add: releasePacketBuffer_def)
  next
    case True
    let ?h = "releasePacketBuffer s h"
    have "arrays ?h = arrays h" "owned ?h held = owned h (add_mset s held)"
      using True by (auto simp: releasePacketBuffer_def owned_def)
    moreover have "\<forall>a \<in> set (packetBuffer512Pool ?h). length (arrays h ! a) = 512" "\<forall>a \<in> set (packetBuffer2048Pool ?h). length (arrays h ! a) = 2048"
      using True p(3,4) by (auto simp: releasePacketBuffer_def sliceCap_def)
    ultimately show ?thesis using move_holds [OF assms, of ?h held] p(5) by auto
  qed
qed

interpretation buffers: private_buffers acquirePacketBuffer releasePacketBuffer copyInto contents privateSlices
  by unfold_locales (rule acquire_private copy_private release_private, assumption)+

end
