(* ===== verification/SocketDrops.thy ===== *)
theory SocketDrops
  imports Prelude
begin

text \<open>
  The kernel-drop counter of a socket (\<open>udpSocketDropTracker\<close> and
  \<open>ObserveSocketDrops\<close> in \<open>udp_receiver_linux.go\<close>).  Receivers cloned from one socket
  share the tracker and run the compare-and-swap loop concurrently, so beside the sequential
  reading there is a step relation with one thread per receiver, whose steps are the single
  atomic operations of the code.  \<open>ParseSocketControlMessage\<close> and the socket are the
  environment: the observed values are arbitrary.
\<close>

section \<open>One iteration of the loop\<close>

datatype drop_decision =
    ReturnNow u64              \<comment> \<open>return without writing\<close>
  | TrySwap u64 u64 u64        \<comment> \<open>compare-and-swap old new; on success return the third\<close>

definition packState :: "u32 \<Rightarrow> u64" where
  "packState v = push_bit 32 1 OR ucast v"

definition dropIteration :: "u64 \<Rightarrow> u32 \<Rightarrow> drop_decision" where
  "dropIteration state v =
     (let nextState = packState v
      in if state = 0 then TrySwap 0 nextState (ucast v)
         else let previous = ucast state :: u32
              in if previous = v then ReturnNow 0
                 else let delta = v - previous
                      in if delta > push_bit 31 1 then ReturnNow 0
                         else TrySwap state nextState (ucast delta))"

text \<open>Without interference the first compare-and-swap succeeds: new state and result.\<close>

definition ObserveSocketDrops :: "u64 \<Rightarrow> u32 \<Rightarrow> u64 \<times> u64" where
  "ObserveSocketDrops state v =
     (case dropIteration state v of ReturnNow r \<Rightarrow> (state, r) | TrySwap _ new r \<Rightarrow> (new, r))"

lemma low_packState [simp]: "ucast (packState v) = v"
proof (rule bit_word_eqI)
  fix n
  assume "n < LENGTH(32)"
  moreover from this have "\<not> bit (push_bit 32 1 :: u64) n" by (simp only: bit_push_bit_iff) simp
  ultimately show "bit (ucast (packState v) :: u32) n = bit v n"
    by (simp add: packState_def bit_or_iff bit_ucast_iff del: push_bit_of_1)
qed

lemma packState_nonzero [simp]: "packState v \<noteq> 0"
proof
  assume "packState v = 0"
  then have "bit (packState v) 32 = bit (0 :: u64) 32" by simp
  moreover have "bit (push_bit 32 1 :: u64) 32" by (simp only: bit_push_bit_iff) simp
  ultimately show False by (simp add: packState_def bit_or_iff del: push_bit_of_1)
qed

lemma packState_inj [simp]: "packState u = packState v \<longleftrightarrow> u = v"
  using low_packState by metis

lemma unat_mod_u32 [simp]: "unat (v :: u32) mod 4294967296 = unat v"
  using unsigned_less [of v, where ?'a = nat] by simp

section \<open>Sequential reading\<close>

fun observeAll :: "u64 \<Rightarrow> u32 list \<Rightarrow> u64 \<times> nat" where
  "observeAll s [] = (s, 0)"
| "observeAll s (v # vs) =
     (let (s', r) = ObserveSocketDrops s v; (s'', total) = observeAll s' vs in (s'', unat r + total))"

text \<open>The drops so far, as the kernel counts them, each step at most \<open>2^31\<close> after the last.\<close>

fun slowlyGrowing :: "nat \<Rightarrow> nat list \<Rightarrow> bool" where
  "slowlyGrowing c [] = True"
| "slowlyGrowing c (d # ds) = (c \<le> d \<and> d - c \<le> 2 ^ 31 \<and> slowlyGrowing d ds)"

lemma word_distance:
  assumes "c \<le> d" "d - c \<le> 2 ^ 31"
  shows "unat ((word_of_nat d :: u32) - word_of_nat c) = d - c"
proof -
  have "(word_of_nat d :: u32) - word_of_nat c = word_of_nat (d - c)" using assms(1) by simp
  moreover have "d - c < 2 ^ 32" using assms(2) by simp
  then have "unat (word_of_nat (d - c) :: u32) = d - c" by (simp add: unat_of_nat take_bit_nat_eq_self)
  ultimately show ?thesis by simp
qed

lemma unat_ucast_up: "unat (ucast (v :: u32) :: u64) = unat v"
  by (simp add: unsigned_ucast_eq take_bit_nat_eq_self order_less_trans [OF unsigned_less])

lemma ObserveSocketDrops_close:
  assumes "unat (v - u) \<le> 2 ^ 31"
  shows "ObserveSocketDrops (packState u) v = (packState v, ucast (v - u))"
proof -
  have "\<not> v - u > push_bit 31 1" using assms by (simp add: word_less_nat_alt)
  then show ?thesis by (auto simp: ObserveSocketDrops_def dropIteration_def Let_def)
qed

lemma observe_step:
  assumes "c \<le> d" "d - c \<le> 2 ^ 31"
  shows "fst (ObserveSocketDrops (packState (word_of_nat c)) (word_of_nat d)) = packState (word_of_nat d)"
    and "unat (snd (ObserveSocketDrops (packState (word_of_nat c)) (word_of_nat d))) = d - c"
proof -
  define u v :: u32 where "u = word_of_nat c" and "v = word_of_nat d"
  have dist: "unat (v - u) = d - c" unfolding u_def v_def by (rule word_distance [OF assms])
  with assms have "ObserveSocketDrops (packState u) v = (packState v, ucast (v - u))"
    by (intro ObserveSocketDrops_close) simp
  with dist show "fst (ObserveSocketDrops (packState (word_of_nat c)) (word_of_nat d)) = packState (word_of_nat d)"
    and "unat (snd (ObserveSocketDrops (packState (word_of_nat c)) (word_of_nat d))) = d - c"
    unfolding u_def [symmetric] v_def [symmetric] by (simp_all add: unat_ucast_up)
qed

lemma observeAll_growing:
  assumes "slowlyGrowing c cs"
  shows "snd (observeAll (packState (word_of_nat c)) (map word_of_nat cs)) = last (c # cs) - c"
    and "c \<le> last (c # cs)"
  using assms
proof (induction cs arbitrary: c)
  case Nil
  { case 1 then show ?case by simp next case 2 then show ?case by simp }
next
  case (Cons d cs)
  {
    case 1
    then have step: "c \<le> d" "d - c \<le> 2 ^ 31" "slowlyGrowing d cs" by auto
    from observe_step [OF step(1,2)] Cons.IH [OF step(3)] step(1) show ?case
      by (auto simp: split_beta Let_def)
  next
    case 2
    with Cons.IH show ?case by fastforce
  }
qed

text \<open>
  The drop accounting survives the wrap-around of the kernel's 32-bit
  counter: if the counts reported in order start below \<open>2^32\<close> and grow by at most
  \<open>2^31\<close> between two readings, then the increments the tracker returns add up to exactly
  the true number of drops, although every reading arrives modulo \<open>2^32\<close>.
\<close>

theorem observed_drops_exact:
  assumes "c < 2 ^ 32" "slowlyGrowing c cs"
  shows "snd (observeAll 0 (map word_of_nat (c # cs))) = last (c # cs)"
proof -
  have "unat (word_of_nat c :: u32) = c" using assms(1) by (simp add: unat_of_nat take_bit_eq_mod)
  then have "ObserveSocketDrops 0 (word_of_nat c) = (packState (word_of_nat c), ucast (word_of_nat c :: u32))"
    "unat (ucast (word_of_nat c :: u32) :: u64) = c"
    by (simp_all add: ObserveSocketDrops_def dropIteration_def Let_def unat_ucast_up)
  with observeAll_growing [OF assms(2)] show ?thesis
    by (auto simp: split_beta Let_def)
qed

theorem observed_drops_exact_witness:
  "snd (observeAll 0 (map word_of_nat [4294967293, 4294967298, 5000000000])) = 5000000000"
  using observed_drops_exact [of 4294967293 "[4294967298, 5000000000]"] by simp

section \<open>Receivers that share a tracker\<close>

text \<open>
  A receiver is outside the function, about to load the state, or holds a loaded state.  The
  result of a finished call is added to \<open>counted\<close>, as \<open>udpReadLoop\<close> adds it to
  \<open>totalUDPKernelDrops\<close>.
\<close>

datatype drop_phase = Outside | Calling u32 | Loaded u32 u64

record drop_sys =
  shared :: u64
  phase :: "nat \<Rightarrow> drop_phase"
  counted :: nat


inductive drop_step :: "drop_sys \<Rightarrow> drop_sys \<Rightarrow> bool" where
  call: "phase s i = Outside \<Longrightarrow> drop_step s (s\<lparr>phase := (phase s)(i := Calling v)\<rparr>)"
| load: "phase s i = Calling v \<Longrightarrow> drop_step s (s\<lparr>phase := (phase s)(i := Loaded v (shared s))\<rparr>)"
| return: "phase s i = Loaded v st \<Longrightarrow> dropIteration st v = ReturnNow r \<Longrightarrow>
     drop_step s (s\<lparr>phase := (phase s)(i := Outside), counted := counted s + unat r\<rparr>)"
| swap: "phase s i = Loaded v st \<Longrightarrow> dropIteration st v = TrySwap old new r \<Longrightarrow> shared s = old \<Longrightarrow>
     drop_step s (s\<lparr>shared := new, phase := (phase s)(i := Outside), counted := counted s + unat r\<rparr>)"
| retry: "phase s i = Loaded v st \<Longrightarrow> dropIteration st v = TrySwap old new r \<Longrightarrow> shared s \<noteq> old \<Longrightarrow>
     drop_step s (s\<lparr>phase := (phase s)(i := Calling v)\<rparr>)"

inductive_cases drop_stepE: "drop_step s t"















end
