(* ===== verification/UdpReceiver.thy ===== *)
theory UdpReceiver
  imports BufferPool SocketDrops Tuning
begin

text \<open>
  The UDP receivers (\<open>udp_receiver_linux.go\<close>, \<open>udp_receiver_fallback.go\<close>) and how \<open>main\<close>
  opens them: the buffers a receiver owns, \<open>recvmmsg\<close> and \<open>ReadBatch\<close>, the modes of receiving,
  and the clean-up when opening fails.  The kernel is the environment: what its calls answer is
  an input, and what it writes lands in the receiver's own buffers.
\<close>

section \<open>Datagrams and results\<close>

text \<open>
  A datagram as the kernel delivers it: the source of the raw socket address, and the control
  messages as \<open>ParseSocketControlMessage\<close> splits them (level, type, data; \<open>None\<close> when malformed).
\<close>

record datagram =
  payload :: bytes
  sourceAddr :: "u8 \<times> u8 \<times> u8 \<times> u8"
  sourcePort :: "u8 \<times> u8"
  controlMessages :: "(int \<times> int \<times> bytes) list option"

record UDPReadResult =
  resData :: slice
  resRouterIP :: string
  resRouterIPNum :: u32
  resRouterPort :: u16
  resSocketDrops :: u32
  HasSocketDrops :: bool

definition SOL_SOCKET :: int where "SOL_SOCKET = 1"
definition soRXQOverflow :: int where "soRXQOverflow = 40"

definition leUint32 :: "bytes \<Rightarrow> u32 option" where
  "leUint32 bs = (case bs of a # b # c # d # _ \<Rightarrow> Some (be32 d c b a) | _ \<Rightarrow> None)"

text \<open>The first overflow counter among the control messages.\<close>

fun overflowCounter :: "(int \<times> int \<times> bytes) list \<Rightarrow> u32 option" where
  "overflowCounter [] = None"
| "overflowCounter ((level, ty, bs) # rest) =
     (if level = SOL_SOCKET \<and> ty = soRXQOverflow \<and> length bs \<ge> 4 then leUint32 (take 4 bs) else overflowCounter rest)"

definition datagramDrops :: "datagram \<Rightarrow> u32 option" where
  "datagramDrops d = Option.bind (controlMessages d) overflowCounter"

definition dottedIP :: "u8 \<times> u8 \<times> u8 \<times> u8 \<Rightarrow> string" where
  "dottedIP = (\<lambda>(a, b, c, d). joinWith ''.'' (map (\<lambda>x. itoa (uint x)) [a, b, c, d]))"

definition addrNumber :: "u8 \<times> u8 \<times> u8 \<times> u8 \<Rightarrow> u32" where
  "addrNumber = (\<lambda>(a, b, c, d). be32 a b c d)"

definition readResult :: "slice \<Rightarrow> datagram \<Rightarrow> UDPReadResult" where
  "readResult sl d =
     \<lparr>resData = sl, resRouterIP = dottedIP (sourceAddr d), resRouterIPNum = addrNumber (sourceAddr d),
      resRouterPort = be16 (fst (sourcePort d)) (snd (sourcePort d)),
      resSocketDrops = (case datagramDrops d of None \<Rightarrow> 0 | Some v \<Rightarrow> v), HasSocketDrops = (datagramDrops d \<noteq> None)\<rparr>"

section \<open>Receivers\<close>

text \<open>\<open>recConn\<close> names the socket, \<open>dropTracker\<close> the tracker that clones share with their original.\<close>

record udpReceiver =
  recConn :: nat
  ownsConn :: bool
  recBuffers :: "slice list"
  dropTracker :: nat

definition udpBufferSize :: nat where "udpBufferSize = nat maxUDPPacketSize"

fun makeBuffers :: "nat \<Rightarrow> bufferStore \<Rightarrow> slice list \<times> bufferStore" where
  "makeBuffers 0 h = ([], h)"
| "makeBuffers (Suc n) h =
     (let (sl, h) = makeSlice udpBufferSize h; (rest, h) = makeBuffers n h in (sl # rest, h))"

text \<open>
  What the receivers share with the rest: which sockets are open, the drop trackers, the buffers,
  and what the next system calls of opening a socket answer (\<open>False\<close>: an error).
\<close>

record sockets =
  openConns :: "bool list"
  dropStates :: "u64 list"
  store :: bufferStore
  sysAnswers :: "bool list"

definition newUDPReceiver :: "nat \<Rightarrow> int \<Rightarrow> bool \<Rightarrow> nat option \<Rightarrow> sockets \<Rightarrow> udpReceiver \<times> sockets" where
  "newUDPReceiver conn batchSize owns sharedDrops s =
     (let batchSize = (if batchSize < 1 then 1 else batchSize);
          (buffers, h) = makeBuffers (nat batchSize) (store s);
          (drops, s) = (case sharedDrops of
                          Some t \<Rightarrow> (t, s)
                        | None \<Rightarrow> (length (dropStates s), s\<lparr>dropStates := dropStates s @ [0]\<rparr>))
      in (\<lparr>recConn = conn, ownsConn = owns, recBuffers = buffers, dropTracker = drops\<rparr>, s\<lparr>store := h\<rparr>))"

definition sysCallOk :: "sockets \<Rightarrow> bool \<times> sockets" where
  "sysCallOk s = (case sysAnswers s of [] \<Rightarrow> (True, s) | a # rest \<Rightarrow> (a, s\<lparr>sysAnswers := rest\<rparr>))"

datatype open_error = ReuseAddrFailed | ReusePortFailed | RxqOverflowFailed | ListenFailed | SyscallConnFailed

text \<open>
  The socket options are set before the bind; an option that fails makes \<open>ListenPacket\<close> fail.
  A read buffer that cannot be set is only logged.
\<close>

definition openUDPReceiver :: "bool \<Rightarrow> int \<Rightarrow> sockets \<Rightarrow> (open_error + udpReceiver) \<times> sockets" where
  "openUDPReceiver reusePort batchSize s =
     (let (ok, s) = sysCallOk s
      in if \<not> ok then (Inl ReuseAddrFailed, s)
      else let (ok, s) = (if reusePort then sysCallOk s else (True, s))
      in if \<not> ok then (Inl ReusePortFailed, s)
      else let (ok, s) = sysCallOk s
      in if \<not> ok then (Inl RxqOverflowFailed, s)
      else let (ok, s) = sysCallOk s
      in if \<not> ok then (Inl ListenFailed, s)
      else let conn = length (openConns s);
               s = s\<lparr>openConns := openConns s @ [True]\<rparr>;
               (_, s) = sysCallOk s;
               (ok, s) = sysCallOk s
      in if \<not> ok then (Inl SyscallConnFailed, s\<lparr>openConns := (openConns s)[conn := False]\<rparr>)
      else let (r, s) = newUDPReceiver conn batchSize True None s in (Inr r, s))"

definition cloneUDPReceiver :: "udpReceiver \<Rightarrow> int \<Rightarrow> sockets \<Rightarrow> udpReceiver \<times> sockets" where
  "cloneUDPReceiver r batchSize s = newUDPReceiver (recConn r) batchSize False (Some (dropTracker r)) s"

definition closeUDPReceiver :: "udpReceiver \<Rightarrow> sockets \<Rightarrow> sockets" where
  "closeUDPReceiver r s = (if \<not> ownsConn r then s else s\<lparr>openConns := (openConns s)[recConn r := False]\<rparr>)"

definition closeUDPReceivers :: "udpReceiver list \<Rightarrow> sockets \<Rightarrow> sockets" where
  "closeUDPReceivers rs s = fold closeUDPReceiver rs s"

datatype attach_error = BadProgram cbpf_error | ControlFailed | AttachFailed

definition attachReusePortPayloadSelector :: "udpReceiver \<Rightarrow> int \<Rightarrow> int list \<Rightarrow> sockets \<Rightarrow> attach_error option \<times> sockets" where
  "attachReusePortPayloadSelector r socketCount hashOffsets s =
     (case buildReusePortCBPF socketCount hashOffsets of
        Inl e \<Rightarrow> (Some (BadProgram e), s)
      | Inr filters \<Rightarrow>
          (let (ok, s) = sysCallOk s
           in if \<not> ok then (Some ControlFailed, s)
           else let (ok, s) = sysCallOk s in (if ok then None else Some AttachFailed, s)))"

section \<open>Opening all receivers (\<open>main\<close>)\<close>

fun openMany :: "nat \<Rightarrow> bool \<Rightarrow> int \<Rightarrow> udpReceiver list \<Rightarrow> sockets \<Rightarrow> (open_error + udpReceiver list) \<times> sockets" where
  "openMany 0 reusePort batchSize rs s = (Inr rs, s)"
| "openMany (Suc n) reusePort batchSize rs s =
     (case openUDPReceiver reusePort batchSize s of
        (Inl e, s) \<Rightarrow> (Inl e, closeUDPReceivers rs s)
      | (Inr r, s) \<Rightarrow> openMany n reusePort batchSize (rs @ [r]) s)"

fun cloneMany :: "nat \<Rightarrow> udpReceiver \<Rightarrow> int \<Rightarrow> udpReceiver list \<Rightarrow> sockets \<Rightarrow> udpReceiver list \<times> sockets" where
  "cloneMany 0 r batchSize rs s = (rs, s)"
| "cloneMany (Suc n) r batchSize rs s =
     (let (c, s) = cloneUDPReceiver r batchSize s in cloneMany n r batchSize (rs @ [c]) s)"

datatype start_error = ListenUDP open_error | ReusePortBPF attach_error

text \<open>Every \<open>log.Fatalf\<close> is an error; \<open>hashOffsets\<close> are those \<open>validateConfig\<close> stored.\<close>

definition openReceivers :: "collectorConfig \<Rightarrow> int list \<Rightarrow> sockets \<Rightarrow> (start_error + udpReceiver list) \<times> sockets" where
  "openReceivers cfg hashOffsets s =
     (if udpReceiveMode cfg = udpModeShared then
        (case openUDPReceiver False (udpBatchSize cfg) s of
           (Inl e, s) \<Rightarrow> (Inl (ListenUDP e), s)
         | (Inr r, s) \<Rightarrow>
             (let (rs, s) = cloneMany (nat (udpReceivers cfg - 1)) r (udpBatchSize cfg) [r] s in (Inr rs, s)))
      else if udpReceiveMode cfg = udpModeReusePort \<or> udpReceiveMode cfg = udpModeReusePortBPF then
        (case openMany (nat (udpReceivers cfg)) (udpReusePort cfg) (udpBatchSize cfg) [] s of
           (Inl e, s) \<Rightarrow> (Inl (ListenUDP e), s)
         | (Inr rs, s) \<Rightarrow>
             (if udpReceiveMode cfg = udpModeReusePortBPF then
                (case attachReusePortPayloadSelector (rs ! 0) (int (length rs)) hashOffsets s of
                   (Some e, s) \<Rightarrow> (Inl (ReusePortBPF e), closeUDPReceivers rs s)
                 | (None, s) \<Rightarrow> (Inr rs, s))
              else (Inr rs, s)))
      else (Inr [], s))"

section \<open>Reading a batch\<close>

datatype errno = EAGAIN | EWOULDBLOCK | EINTR | OtherErrno string

datatype kernel_answer = Errno errno | Messages "datagram list"

datatype read_error = BatchResultsEmpty | ConnClosed | SyscallFailed errno

text \<open>
  \<open>RawConn.Read\<close>: the call is repeated when the socket is readable again until it neither blocks
  nor is interrupted; no further answer means that the connection is closed.
\<close>

fun rawRead :: "kernel_answer list \<Rightarrow> read_error + datagram list" where
  "rawRead [] = Inl ConnClosed"
| "rawRead (Messages ds # rest) = Inr ds"
| "rawRead (Errno e # rest) = (if e \<in> {EAGAIN, EWOULDBLOCK, EINTR} then rawRead rest else Inl (SyscallFailed e))"

text \<open>
  The kernel writes each payload into the buffer of its message, as much as fits, and says how
  many bytes that are.
\<close>

definition recvmmsg :: "datagram list \<Rightarrow> slice list \<Rightarrow> bufferStore \<Rightarrow> UDPReadResult list \<times> bufferStore" where
  "recvmmsg ds buffers h =
     (map (\<lambda>(sl, d). readResult (sl\<lparr>sliceLen := min (sliceLen sl) (length (payload d))\<rparr>) d) (zip buffers ds),
      fold (\<lambda>(sl, bs). copyInto sl bs) (zip buffers (map payload ds)) h)"

text \<open>\<open>resultsLen\<close> is the length of the caller's slice; the results are the entries the call fills.\<close>

definition ReadBatch :: "udpReceiver \<Rightarrow> nat \<Rightarrow> kernel_answer list \<Rightarrow> bufferStore \<Rightarrow> (read_error + UDPReadResult list) \<times> bufferStore" where
  "ReadBatch r resultsLen answers h =
     (let maxBatch = min (length (recBuffers r)) resultsLen
      in if maxBatch = 0 then (Inl BatchResultsEmpty, h)
      else case rawRead answers of
             Inl e \<Rightarrow> (Inl e, h)
           | Inr ds \<Rightarrow> (let (results, h) = recvmmsg ds (take maxBatch (recBuffers r)) h in (Inr results, h)))"

section \<open>The receiver of other platforms\<close>

text \<open>\<open>net.ParseIP(value).To4()\<close> on dotted decimals: four numbers below 256 without leading zeros.\<close>

definition parseOctet :: "string \<Rightarrow> u8 option" where
  "parseOctet s =
     (if s \<noteq> [] \<and> length s \<le> 3 \<and> list_all isDigitChar s \<and> (length s > 1 \<longrightarrow> hd s \<noteq> CHR ''0'') \<and> decVal s \<le> 255
      then Some (word_of_nat (decVal s)) else None)"

definition parseIPv4 :: "string \<Rightarrow> (u8 \<times> u8 \<times> u8 \<times> u8) option" where
  "parseIPv4 s =
     (case map parseOctet (splitOn (CHR ''.'') s) of
        [Some a, Some b, Some c, Some d] \<Rightarrow> Some (a, b, c, d)
      | _ \<Rightarrow> None)"

definition ipv4StringToUInt32 :: "string \<Rightarrow> u32" where
  "ipv4StringToUInt32 value = (case parseIPv4 value of None \<Rightarrow> 0 | Some ip \<Rightarrow> addrNumber ip)"

text \<open>One datagram a call, without the counter of the kernel; \<open>port\<close> is the number \<open>net\<close> reports.\<close>

definition fallbackReadBatch :: "slice \<Rightarrow> nat \<Rightarrow> (string + bytes \<times> string \<times> int) \<Rightarrow> bufferStore
    \<Rightarrow> ((string option) + UDPReadResult list) \<times> bufferStore" where
  "fallbackReadBatch buffer resultsLen answer h =
     (if resultsLen = 0 then (Inl None, h)
      else case answer of
             Inl e \<Rightarrow> (Inl (Some e), h)
           | Inr (bs, ip, port) \<Rightarrow>
               (Inr [\<lparr>resData = buffer\<lparr>sliceLen := min (sliceLen buffer) (length bs)\<rparr>, resRouterIP = ip,
                      resRouterIPNum = ipv4StringToUInt32 ip, resRouterPort = word_of_int port,
                      resSocketDrops = 0, HasSocketDrops = False\<rparr>],
                copyInto buffer bs h))"

section \<open>Opening and closing\<close>

text \<open>
  The receivers opened so far: their buffers are private, whoever shares a socket finds its owner
  among them, and no other socket is open.
\<close>

definition accounted :: "int \<Rightarrow> udpReceiver list \<Rightarrow> sockets \<Rightarrow> bool" where
  "accounted batchSize rs s \<longleftrightarrow> privateSlices (store s) (mset (concat (map recBuffers rs)))
     \<and> (\<forall>c < length (openConns s). openConns s ! c \<longrightarrow> (\<exists>r \<in> set rs. ownsConn r \<and> recConn r = c))
     \<and> (\<forall>r \<in> set rs. recConn r < length (openConns s) \<and> dropTracker r < length (dropStates s)
          \<and> (\<exists>q \<in> set rs. ownsConn q \<and> recConn q = recConn r)
          \<and> length (recBuffers r) = nat (max 1 batchSize) \<and> (\<forall>b \<in> set (recBuffers r). sliceLen b = udpBufferSize))"

lemma makeBuffers_private:
  "makeBuffers n h = (bs, h') \<Longrightarrow> privateSlices h held
    \<Longrightarrow> privateSlices h' (mset bs + held) \<and> length bs = n \<and> (\<forall>b \<in> set bs. sliceLen b = udpBufferSize)"
proof (induction n arbitrary: h held bs h')
  case 0
  then show ?case by simp
next
  case (Suc n)
  obtain sl h1 where 1: "makeSlice udpBufferSize h = (sl, h1)" by fastforce
  obtain rest h2 where 2: "makeBuffers n h1 = (rest, h2)" by fastforce
  from Suc.prems(1) 1 2 have eq: "bs = sl # rest" "h' = h2" by simp_all
  have sl: "sl\<lparr>sliceLen := udpBufferSize\<rparr> = sl" "sliceLen sl = udpBufferSize" using 1 by (auto simp: makeSlice_def)
  from makeSlice_holds [OF Suc.prems(2) 1 order_refl] have "privateSlices h1 (add_mset sl held)" by (simp add: sl)
  from Suc.IH [OF 2 this] show ?case by (simp add: eq sl)
qed

lemma sysCallOk_frame [simp]:
  "openConns (snd (sysCallOk s)) = openConns s" "dropStates (snd (sysCallOk s)) = dropStates s" "store (snd (sysCallOk s)) = store s"
  by (simp_all add: sysCallOk_def split: list.split)

lemma sysCallOkD:
  assumes "sysCallOk s = (ok, s')"
  shows "openConns s' = openConns s" "dropStates s' = dropStates s" "store s' = store s"
  using sysCallOk_frame [of s] unfolding assms by simp_all

lemma sysCallOk_conns: "sysCallOk s = (ok, s') \<Longrightarrow> openConns s' = openConns s \<and> dropStates s' = dropStates s \<and> store s' = store s"
  by (blast dest: sysCallOkD)

lemma newUDPReceiver_effect:
  assumes "newUDPReceiver conn batchSize owns sharedDrops s = (r, s')" "privateSlices (store s) held"
  shows "privateSlices (store s') (mset (recBuffers r) + held)"
    and "recConn r = conn" "ownsConn r = owns" "openConns s' = openConns s" "length (dropStates s) \<le> length (dropStates s')"
    and "dropTracker r < length (dropStates s') \<or> sharedDrops = Some (dropTracker r)"
    and "length (recBuffers r) = nat (max 1 batchSize)" "\<forall>b \<in> set (recBuffers r). sliceLen b = udpBufferSize"
proof -
  let ?n = "if batchSize < 1 then 1 else batchSize"
  obtain bs h where b: "makeBuffers (nat ?n) (store s) = (bs, h)" by fastforce
  note p = makeBuffers_private [OF b assms(2)]
  have n: "nat ?n = nat (max 1 batchSize)" by simp
  from p assms(1) show "privateSlices (store s') (mset (recBuffers r) + held)" "recConn r = conn" "ownsConn r = owns"
    "openConns s' = openConns s" "length (dropStates s) \<le> length (dropStates s')"
    "dropTracker r < length (dropStates s') \<or> sharedDrops = Some (dropTracker r)"
    "\<forall>b \<in> set (recBuffers r). sliceLen b = udpBufferSize"
    by (cases sharedDrops; auto simp: newUDPReceiver_def b Let_def simp del: nat_le_iff)+
  from p n assms(1) show "length (recBuffers r) = nat (max 1 batchSize)"
    by (cases sharedDrops) (auto simp: newUDPReceiver_def b [unfolded n] Let_def)
qed

lemma accountedD:
  assumes "accounted batchSize rs s"
  shows "privateSlices (store s) (mset (concat (map recBuffers rs)))"
    "c < length (openConns s) \<Longrightarrow> openConns s ! c \<Longrightarrow> \<exists>r \<in> set rs. ownsConn r \<and> recConn r = c"
    "r \<in> set rs \<Longrightarrow> recConn r < length (openConns s)" "r \<in> set rs \<Longrightarrow> dropTracker r < length (dropStates s)"
    "r \<in> set rs \<Longrightarrow> \<exists>q \<in> set rs. ownsConn q \<and> recConn q = recConn r"
    "r \<in> set rs \<Longrightarrow> length (recBuffers r) = nat (max 1 batchSize)"
    "r \<in> set rs \<Longrightarrow> b \<in> set (recBuffers r) \<Longrightarrow> sliceLen b = udpBufferSize"
  using assms unfolding accounted_def by blast+

text \<open>A receiver added whose socket is open, or is nobody else's.\<close>

lemma add_receiver:
  assumes "accounted batchSize rs s" and new: "newUDPReceiver conn batchSize owns sharedDrops s1 = (r, s')"
    and s1: "openConns s1 = openConns s @ extra" "dropStates s1 = dropStates s" "store s1 = store s"
    and conn: "owns \<and> extra = [True] \<and> conn = length (openConns s) \<or> \<not> owns \<and> extra = [] \<and> (\<exists>q \<in> set rs. ownsConn q \<and> recConn q = conn)"
    and drops: "\<And>t. sharedDrops = Some t \<Longrightarrow> t < length (dropStates s)"
  shows "accounted batchSize (rs @ [r]) s'"
proof -
  note a = accountedD [OF assms(1)]
  have "privateSlices (store s1) (mset (concat (map recBuffers rs)))" using a(1) by (simp add: s1)
  note n = newUDPReceiver_effect [OF new this]
  have conns: "openConns s' = openConns s @ extra" using n(4) s1(1) by simp
  have inside: "conn < length (openConns s')" using conn a(3) by (auto simp: conns)
  show ?thesis
    unfolding accounted_def
  proof (intro conjI allI impI ballI)
    show "privateSlices (store s') (mset (concat (map recBuffers (rs @ [r]))))" using n(1) by (simp add: add.commute)
  next
    fix c
    assume "c < length (openConns s')" "openConns s' ! c"
    then show "\<exists>q \<in> set (rs @ [r]). ownsConn q \<and> recConn q = c"
      using a(2) [of c] conn n(2,3) by (auto simp: conns nth_append split: if_splits)
  next
    fix q
    assume "q \<in> set (rs @ [r])"
    then consider "q \<in> set rs" | "q = r" by auto
    note q = this
    show "recConn q < length (openConns s')" using q a(3) inside n(2) by cases (auto simp: conns trans_less_add1)
    show "dropTracker q < length (dropStates s')"
      using q a(4) n(5,6) drops s1(2) by cases fastforce+
    show "\<exists>p \<in> set (rs @ [r]). ownsConn p \<and> recConn p = recConn q"
      using q a(5) conn n(2,3) by cases auto
    show "length (recBuffers q) = nat (max 1 batchSize)" using q a(6) n(7) by cases auto
    show "sliceLen b = udpBufferSize" if "b \<in> set (recBuffers q)" for b using q a(7) n(8) that by cases auto
  qed
qed

lemma accounted_frame:
  "accounted batchSize rs s \<Longrightarrow> openConns s' = openConns s \<Longrightarrow> dropStates s' = dropStates s \<Longrightarrow> store s' = store s
    \<Longrightarrow> accounted batchSize rs s'"
  by (simp add: accounted_def)

lemma openUDPReceiver_accounted:
  assumes "openUDPReceiver reusePort batchSize s = (res, s')" "accounted batchSize rs s"
  shows "case res of Inl e \<Rightarrow> accounted batchSize rs s' | Inr r \<Rightarrow> accounted batchSize (rs @ [r]) s' \<and> ownsConn r"
proof -
  obtain b1 s1 where 1: "sysCallOk s = (b1, s1)" by fastforce
  obtain b2 s2 where 2: "(if reusePort then sysCallOk s1 else (True, s1)) = (b2, s2)" by fastforce
  obtain b3 s3 where 3: "sysCallOk s2 = (b3, s3)" by fastforce
  obtain b4 s4 where 4: "sysCallOk s3 = (b4, s4)" by fastforce
  let ?s4 = "s4\<lparr>openConns := openConns s4 @ [True]\<rparr>"
  obtain b5 s5 where 5: "sysCallOk ?s4 = (b5, s5)" by fastforce
  obtain b6 s6 where 6: "sysCallOk s5 = (b6, s6)" by fastforce
  have f2: "openConns s2 = openConns s" "dropStates s2 = dropStates s" "store s2 = store s"
    using 2 sysCallOkD [OF 1] by (auto split: if_splits dest: sysCallOkD)
  note f = sysCallOkD [OF 1] f2 sysCallOkD [OF 3, unfolded f2] sysCallOkD [OF 4]
  have f6: "openConns s6 = openConns s @ [True]" "dropStates s6 = dropStates s" "store s6 = store s"
    using sysCallOkD [OF 6] sysCallOkD [OF 5] f by simp_all
  have early: ?thesis if "res = Inl e" "s' \<in> {s1, s2, s3, s4}" for e
    using that f accounted_frame [OF assms(2)] by auto
  show ?thesis
  proof (cases "b1 \<and> b2 \<and> b3 \<and> b4")
    case False
    with assms(1) early 1 2 3 4 show ?thesis by (auto simp: openUDPReceiver_def Let_def split: if_splits)
  next
    case True
    show ?thesis
    proof (cases b6)
      case False
      with True assms(1) 1 2 3 4 5 6 f
      have eq: "res = Inl SyscallConnFailed" "s' = s6\<lparr>openConns := (openConns s6)[length (openConns s) := False]\<rparr>"
        by (simp_all add: openUDPReceiver_def Let_def)
      note a = accountedD [OF assms(2)]
      have "accounted batchSize rs s'"
        unfolding accounted_def
      proof (intro conjI allI impI ballI)
        show "privateSlices (store s') (mset (concat (map recBuffers rs)))" using a(1) by (simp add: eq f6)
      next
        fix c
        assume "c < length (openConns s')" "openConns s' ! c"
        then show "\<exists>r \<in> set rs. ownsConn r \<and> recConn r = c" using a(2) [of c] by (auto simp: eq f6 nth_append split: if_splits)
      qed (use a in \<open>auto simp: eq f6 less_SucI\<close>)
      with eq show ?thesis by simp
    next
      case b6: True
      obtain r s7 where 7: "newUDPReceiver (length (openConns s)) batchSize True None s6 = (r, s7)" by fastforce
      with True b6 assms(1) 1 2 3 4 5 6 f have eq: "res = Inr r" "s' = s7" by (simp_all add: openUDPReceiver_def Let_def)
      from add_receiver [OF assms(2) 7 f6] newUDPReceiver_effect(3) [OF 7, of "mset (concat (map recBuffers rs))"] accountedD(1) [OF assms(2)] eq f6
      show ?thesis by simp
    qed
  qed
qed

lemma closeUDPReceivers_frame [simp]:
  "length (openConns (closeUDPReceivers rs s)) = length (openConns s)" "store (closeUDPReceivers rs s) = store s"
  "dropStates (closeUDPReceivers rs s) = dropStates s"
  by (induction rs arbitrary: s) (simp_all add: closeUDPReceivers_def closeUDPReceiver_def)

lemma closeUDPReceivers_closes:
  "c < length (openConns s) \<Longrightarrow> openConns (closeUDPReceivers rs s) ! c
    \<longleftrightarrow> openConns s ! c \<and> \<not> (\<exists>r \<in> set rs. ownsConn r \<and> recConn r = c)"
proof (induction rs arbitrary: s)
  case Nil
  then show ?case by (simp add: closeUDPReceivers_def)
next
  case (Cons r rs)
  have "openConns (closeUDPReceivers (r # rs) s) ! c = openConns (closeUDPReceivers rs (closeUDPReceiver r s)) ! c"
    by (simp add: closeUDPReceivers_def)
  also have "\<dots> \<longleftrightarrow> openConns (closeUDPReceiver r s) ! c \<and> \<not> (\<exists>r \<in> set rs. ownsConn r \<and> recConn r = c)"
    using Cons.prems by (intro Cons.IH) (simp add: closeUDPReceiver_def)
  also have "openConns (closeUDPReceiver r s) ! c \<longleftrightarrow> openConns s ! c \<and> \<not> (ownsConn r \<and> recConn r = c)"
    using Cons.prems by (cases "c = recConn r") (auto simp: closeUDPReceiver_def)
  finally show ?case by auto
qed

lemma all_closed: "accounted batchSize rs s \<Longrightarrow> True \<notin> set (openConns (closeUDPReceivers rs s))"
  by (auto simp: in_set_conv_nth closeUDPReceivers_closes dest: accountedD(2))

lemma openMany_accounted:
  "openMany n reusePort batchSize rs s = (res, s') \<Longrightarrow> accounted batchSize rs s
    \<Longrightarrow> case res of Inl e \<Rightarrow> True \<notin> set (openConns s') | Inr qs \<Rightarrow> accounted batchSize qs s' \<and> length qs = length rs + n"
proof (induction n arbitrary: rs s)
  case 0
  then show ?case by auto
next
  case (Suc n)
  obtain r1 s1 where 1: "openUDPReceiver reusePort batchSize s = (r1, s1)" by fastforce
  note o = openUDPReceiver_accounted [OF 1 Suc.prems(2)]
  show ?case
  proof (cases r1)
    case (Inl e)
    with Suc.prems(1) 1 o all_closed show ?thesis by auto
  next
    case (Inr r)
    with Suc.prems(1) 1 have "openMany n reusePort batchSize (rs @ [r]) s1 = (res, s')" by simp
    from Suc.IH [OF this] o Inr show ?thesis by (auto split: sum.splits)
  qed
qed

lemma cloneMany_accounted:
  "cloneMany n r batchSize rs s = (qs, s') \<Longrightarrow> accounted batchSize rs s \<Longrightarrow> r \<in> set rs \<Longrightarrow> ownsConn r
    \<Longrightarrow> accounted batchSize qs s' \<and> length qs = length rs + n"
proof (induction n arbitrary: rs s)
  case 0
  then show ?case by simp
next
  case (Suc n)
  obtain c s1 where 1: "newUDPReceiver (recConn r) batchSize False (Some (dropTracker r)) s = (c, s1)" by fastforce
  with Suc.prems(1) have rest: "cloneMany n r batchSize (rs @ [c]) s1 = (qs, s')" by (simp add: cloneUDPReceiver_def)
  have "accounted batchSize (rs @ [c]) s1"
    by (rule add_receiver [OF Suc.prems(2) 1, where extra = "[]"])
      (use Suc.prems(2-4) accountedD(4) in auto)
  with Suc.IH [OF rest] Suc.prems(3,4) show ?case by simp
qed

text \<open>
  Opening the receivers either succeeds as configured or leaves no socket
  behind.  In every receive mode and whatever system call fails: on an error every socket opened on
  the way is closed again before the process ends; otherwise there are as many receivers as
  configured, no two of them share a buffer, clones share the drop tracker and socket of their
  original, and closing them, as the shutdown does, closes every socket, so that no read blocks for
  ever.
\<close>

theorem receivers_open_or_clean:
  assumes "validateConfig cfg = Inr offsets" "accounted (udpBatchSize cfg) [] s" "openReceivers cfg offsets s = (res, s')"
  shows "case res of
      Inl e \<Rightarrow> True \<notin> set (openConns s')
    | Inr rs \<Rightarrow> int (length rs) = udpReceivers cfg \<and> accounted (udpBatchSize cfg) rs s'
        \<and> True \<notin> set (openConns (closeUDPReceivers rs s'))"
proof -
  have pos: "0 < udpReceivers cfg" using validated_positive [OF assms(1)] by simp
  have mode: "udpReceiveMode cfg \<in> {udpModeReusePort, udpModeReusePortBPF, udpModeShared}"
    using assms(1) unfolding validateConfig_def by (auto split: if_splits option.splits)
  show ?thesis
  proof (cases "udpReceiveMode cfg = udpModeShared")
    case True
    obtain r1 s1 where 1: "openUDPReceiver False (udpBatchSize cfg) s = (r1, s1)" by fastforce
    note o = openUDPReceiver_accounted [OF 1 assms(2)]
    show ?thesis
    proof (cases r1)
      case (Inl e)
      with o all_closed [of "udpBatchSize cfg" "[]" s1] assms(3) 1 True show ?thesis
        by (auto simp: openReceivers_def closeUDPReceivers_def)
    next
      case (Inr r)
      obtain qs s2 where 2: "cloneMany (nat (udpReceivers cfg - 1)) r (udpBatchSize cfg) [r] s1 = (qs, s2)" by fastforce
      from cloneMany_accounted [OF 2] o Inr have "accounted (udpBatchSize cfg) qs s2" "length qs = 1 + nat (udpReceivers cfg - 1)"
        by simp_all
      moreover have "res = Inr qs" "s' = s2" using assms(3) 1 2 Inr True by (simp_all add: openReceivers_def)
      ultimately show ?thesis using pos all_closed by auto
    qed
  next
    case False
    obtain r1 s1 where 1: "openMany (nat (udpReceivers cfg)) (udpReusePort cfg) (udpBatchSize cfg) [] s = (r1, s1)" by fastforce
    note o = openMany_accounted [OF 1 assms(2)]
    show ?thesis
    proof (cases r1)
      case (Inl e)
      with o assms(3) 1 False mode show ?thesis by (auto simp: openReceivers_def split: if_splits)
    next
      case (Inr qs)
      obtain a s2 where 2: "attachReusePortPayloadSelector (qs ! 0) (int (length qs)) offsets s1 = (a, s2)" by fastforce
      have frame: "openConns s2 = openConns s1 \<and> dropStates s2 = dropStates s1 \<and> store s2 = store s1"
        using 2 by (auto simp: attachReusePortPayloadSelector_def Let_def split: sum.splits prod.splits if_splits dest!: sysCallOk_conns)
      from o Inr have qs: "accounted (udpBatchSize cfg) qs s1" "int (length qs) = udpReceivers cfg" using pos by simp_all
      with frame have "accounted (udpBatchSize cfg) qs s2" using accounted_frame by blast
      with qs assms(3) 1 2 Inr False mode all_closed show ?thesis
        by (cases a) (auto simp: openReceivers_def split: if_splits)
    qed
  qed
qed

definition noSockets :: sockets where
  "noSockets = \<lparr>openConns = [], dropStates = [],
     store = \<lparr>arrays = [], packetBuffer512Pool = [], packetBuffer2048Pool = []\<rparr>, sysAnswers = []\<rparr>"

lemma noSockets_accounted: "accounted batchSize [] noSockets"
  by (simp add: accounted_def noSockets_def privateSlices_def owned_def)

text \<open>The second of four sockets cannot be bound.\<close>

theorem receivers_open_or_clean_witness:
  "\<exists>s'. openReceivers (loadConfig 8 emptyEnv) [20, 36] (noSockets\<lparr>sysAnswers := replicate 9 True @ [False]\<rparr>)
      = (Inl (ListenUDP ListenFailed), s') \<and> True \<notin> set (openConns s')"
proof -
  let ?cfg = "loadConfig 8 emptyEnv" and ?s = "noSockets\<lparr>sysAnswers := replicate 9 True @ [False]\<rparr>"
  have c: "udpReceiveMode ?cfg = udpModeReusePortBPF" "udpReceivers ?cfg = 4" "udpReusePort ?cfg"
    by (simp_all add: loadConfig_def Let_def default_workers default_lower udpModeReusePortBPF_def udpModeShared_def)
  obtain hd tl where "makeBuffers (nat (if udpBatchSize ?cfg < 1 then 1 else udpBatchSize ?cfg)) (store noSockets) = (hd, tl)"
    by fastforce
  then have run: "fst (openReceivers ?cfg [20, 36] ?s) = Inl (ListenUDP ListenFailed)"
    by (simp add: openReceivers_def c udpModeReusePortBPF_def udpModeShared_def udpModeReusePort_def openUDPReceiver_def
        newUDPReceiver_def sysCallOk_def numeral_eq_Suc Let_def noSockets_def)
  obtain res s' where s': "openReceivers ?cfg [20, 36] ?s = (res, s')" by fastforce
  have acc: "accounted (udpBatchSize ?cfg) [] ?s"
    by (rule accounted_frame [OF noSockets_accounted]) simp_all
  have valid: "validateConfig ?cfg = Inr [20, 36]" using default_validates by blast
  from receivers_open_or_clean [OF valid acc s'] run s' show ?thesis by simp
qed

section \<open>The fallback receiver\<close>

lemma natDigits_leading: "10 \<le> n \<Longrightarrow> hd (natDigits n) \<noteq> CHR ''0''"
proof (induction n rule: natDigits.induct)
  case (1 n)
  show ?case
  proof (cases "n div 10 < 10")
    case True
    have "digitChar k \<noteq> CHR ''0''" if "k < 10" "0 < k" for k
    proof
      assume "digitChar k = CHR ''0''"
      with that(1) have "k = digitVal (CHR ''0'')" by (metis digitVal_digitChar)
      with that(2) show False by (simp add: digitVal_def)
    qed
    with True 1(2) show ?thesis by (subst natDigits.simps, subst natDigits.simps) auto
  next
    case False
    with 1 have "hd (natDigits (n div 10)) \<noteq> CHR ''0''" by simp
    with 1(2) show ?thesis by (subst natDigits.simps) simp
  qed
qed

lemma natDigits_short: "n < 10 \<Longrightarrow> length (natDigits n) = 1"
  by (subst natDigits.simps) simp

lemma parseOctet_itoa: "parseOctet (itoa (uint x)) = Some x"
proof -
  have x: "unat x < 256" using unsigned_less [of x, where ?'a = nat] by simp
  have i: "itoa (uint x) = natDigits (unat x)" by (simp add: itoa_def)
  have "length (natDigits (unat x)) \<le> 3" using x by (intro length_natDigits_le) simp_all
  moreover have "list_all isDigitChar (natDigits (unat x))" by (auto simp: list_all_iff natDigits_digits)
  moreover have "1 < length (natDigits (unat x)) \<longrightarrow> hd (natDigits (unat x)) \<noteq> CHR ''0''"
    using natDigits_leading [of "unat x"] natDigits_short [of "unat x"] by linarith
  ultimately show ?thesis using x by (simp add: parseOctet_def i decVal_natDigits)
qed

lemma parseIPv4_dotted: "parseIPv4 (dottedIP ip) = Some ip"
proof -
  obtain a b c d where ip: "ip = (a, b, c, d)" by (metis prod_cases4)
  have "splitOn (CHR ''.'') (dottedIP ip) = map (\<lambda>x. itoa (uint x)) [a, b, c, d]"
    unfolding ip dottedIP_def prod.case
    by (rule split_join) (auto dest!: itoa_nonneg_digits [rotated] simp: isDigitChar_def)
  then show ?thesis by (simp add: parseIPv4_def parseOctet_itoa ip)
qed

text \<open>
  Both builds read the same packet from a datagram.  For a datagram from an IPv4
  source the portable receiver, which formats the address and parses it back
  (\<open>ipv4StringToUInt32\<close>), returns the same bytes, the same router address as text and as
  number, and the same port as \<open>recvmmsg\<close> on Linux; only the kernel's drop counter is missing.
\<close>

theorem receivers_agree:
  fixes d :: datagram
  defines "answer \<equiv> (payload d, dottedIP (sourceAddr d), uint (be16 (fst (sourcePort d)) (snd (sourcePort d))))"
  shows "fallbackReadBatch buffer (Suc n) (Inr answer) h
    = (let (results, h') = recvmmsg [d] [buffer] h
       in (Inr (map (\<lambda>r. r\<lparr>resSocketDrops := 0, HasSocketDrops := False\<rparr>) results), h'))"
  by (simp add: fallbackReadBatch_def recvmmsg_def readResult_def answer_def ipv4StringToUInt32_def parseIPv4_dotted)

end
