(* ===== verification/ReceiveLoop.thy ===== *)
theory ReceiveLoop
  imports UdpReceiver Ledger
begin

text \<open>
  The receive path of the collector as a whole (\<open>main.go\<close>: \<open>udpReadLoop\<close>, the packet channel, the
  packet workers' handling of buffers, \<open>requestStop\<close>): any number of receivers and workers that
  share the buffer store, one atomic step of one of them at a time.  The steps of a loop are the
  executable functions \<open>readTurn\<close>, \<open>handleTurn\<close>, \<open>sendTurn\<close>, \<open>stopTurn\<close>, \<open>workTurn\<close>;
  \<open>ingest_step\<close> says when each may happen, and labels it with what it does to packets.
\<close>

section \<open>State\<close>

text \<open>\<open>UDPPacket\<close> as it travels: its bytes stay in a buffer of the store.\<close>

record bufferedPacket =
  packetBuffer :: slice
  packetLength :: nat
  fromIP :: string
  fromIPNum :: u32
  fromPort :: u16
  receivedAt :: int

definition packetValue :: "bufferStore \<Rightarrow> bufferedPacket \<Rightarrow> UDPPacket" where
  "packetValue h p =
     \<lparr>Buffer = contents h (packetBuffer p), Length = packetLength p, PacketRouterIP = fromIP p,
      PacketRouterIPNum = fromIPNum p, PacketRouterPort = fromPort p, ReceivedUnixNano = receivedAt p\<rparr>"

record UDPReceiverStats =
  statBatches :: u64
  statPackets :: u64
  statFullBatches :: u64
  statErrors :: u64
  statKernelDrops :: u64

text \<open>
  Where a receiver's loop stands: at \<open>ReadBatch\<close>, at the next result of a batch read at a time,
  at the \<open>select\<close> with a packet to send, or returned.
\<close>

datatype loop_state =
    Reading
  | Handling int "UDPReadResult list"
  | Sending int bufferedPacket "UDPReadResult list"
  | Returned

record ingest =
  socks :: sockets
  receivers :: "udpReceiver list"
  loops :: "loop_state list"
  receiverStats :: "UDPReceiverStats list"
  packetChannel :: "bufferedPacket list"
  working :: "(int \<times> bufferedPacket) list"
  workerCount :: nat
  stopRequested :: bool
  line :: pipeline

definition setStore :: "bufferStore \<Rightarrow> ingest \<Rightarrow> ingest" where
  "setStore h s = s\<lparr>socks := (socks s)\<lparr>store := h\<rparr>\<rparr>"

definition setLoop :: "nat \<Rightarrow> loop_state \<Rightarrow> ingest \<Rightarrow> ingest" where
  "setLoop k l s = s\<lparr>loops := (loops s)[k := l]\<rparr>"

definition countStats :: "nat \<Rightarrow> (UDPReceiverStats \<Rightarrow> UDPReceiverStats) \<Rightarrow> ingest \<Rightarrow> ingest" where
  "countStats k f s = s\<lparr>receiverStats := (receiverStats s)[k := f (receiverStats s ! k)]\<rparr>"

section \<open>The loop of a receiver\<close>

text \<open>
  One \<open>ReadBatch\<close>; a closed connection answers nothing but an error.  \<open>now\<close> is the clock read
  after a batch.
\<close>

definition socketAnswers :: "ingest \<Rightarrow> nat \<Rightarrow> kernel_answer list \<Rightarrow> kernel_answer list" where
  "socketAnswers s k answers = (if openConns (socks s) ! recConn (receivers s ! k) then answers else [])"

definition readTurn :: "collectorConfig \<Rightarrow> nat \<Rightarrow> kernel_answer list \<Rightarrow> int \<Rightarrow> ingest \<Rightarrow> ingest" where
  "readTurn cfg k answers now s =
     (let resultsLen = nat (udpBatchSize cfg)
      in case ReadBatch (receivers s ! k) resultsLen (socketAnswers s k answers) (store (socks s)) of
           (Inl err, h) \<Rightarrow>
             setLoop k (if stopRequested s then Returned else Reading)
               (countStats k (\<lambda>st. st\<lparr>statErrors := statErrors st + 1\<rparr>) (setStore h s))
         | (Inr results, h) \<Rightarrow>
             setLoop k (Handling now results)
               (countStats k (\<lambda>st. st\<lparr>statBatches := statBatches st + 1,
                    statPackets := statPackets st + of_nat (length results),
                    statFullBatches := statFullBatches st + (if length results = resultsLen then 1 else 0)\<rparr>)
                 (setStore h s)))"

text \<open>The drops reported with a datagram, against the tracker of its socket.\<close>

definition observeDrops :: "nat \<Rightarrow> UDPReadResult \<Rightarrow> ingest \<Rightarrow> u64 \<times> ingest" where
  "observeDrops k r s =
     (if \<not> HasSocketDrops r then (0, s)
      else let t = dropTracker (receivers s ! k);
               (state, dropped) = ObserveSocketDrops (dropStates (socks s) ! t) (resSocketDrops r)
           in (dropped, s\<lparr>socks := (socks s)\<lparr>dropStates := (dropStates (socks s))[t := state]\<rparr>\<rparr>))"

text \<open>
  One result: an empty datagram is skipped; otherwise it is counted, copied into a buffer of its
  own, and ready to be sent.  \<open>None\<close> is a panic of \<open>acquirePacketBuffer\<close>.
\<close>

definition handleTurn :: "nat \<Rightarrow> nat option \<Rightarrow> ingest \<Rightarrow> ingest option" where
  "handleTurn k choice s =
     (case loops s ! k of
        Handling now [] \<Rightarrow> Some (setLoop k Reading s)
      | Handling now (r # rest) \<Rightarrow>
          (let bytesRead = sliceLen (resData r)
           in if bytesRead = 0 then Some (setLoop k (Handling now rest) s)
           else let (dropped, s) = observeDrops k r s;
                    s = countStats k (\<lambda>st. st\<lparr>statKernelDrops := statKernelDrops st + dropped\<rparr>) s;
                    s = s\<lparr>line := (line s)\<lparr>shared := countReceived (int k + 1) (goQuot now 1000000000) dropped (shared (line s))\<rparr>\<rparr>
                in case acquirePacketBuffer choice bytesRead (store (socks s)) of
                     None \<Rightarrow> None
                   | Some (buf, h) \<Rightarrow>
                       (let h = copyInto buf (contents h (resData r)) h;
                            packet = \<lparr>packetBuffer = buf, packetLength = bytesRead, fromIP = resRouterIP r,
                              fromIPNum = resRouterIPNum r, fromPort = resRouterPort r, receivedAt = now\<rparr>
                        in Some (setLoop k (Sending now packet rest) (setStore h s))))
      | _ \<Rightarrow> None)"

text \<open>The two cases of the \<open>select\<close>.\<close>

definition sendTurn :: "nat \<Rightarrow> ingest \<Rightarrow> ingest" where
  "sendTurn k s =
     (case loops s ! k of
        Sending now packet rest \<Rightarrow> setLoop k (Handling now rest) (s\<lparr>packetChannel := packetChannel s @ [packet]\<rparr>)
      | _ \<Rightarrow> s)"

definition stopTurn :: "nat \<Rightarrow> ingest \<Rightarrow> ingest" where
  "stopTurn k s =
     (case loops s ! k of
        Sending now packet rest \<Rightarrow>
          setLoop k Returned (setStore (releasePacketBuffer (packetBuffer packet) (store (socks s))) s)
      | _ \<Rightarrow> s)"

section \<open>A packet worker's packet\<close>

text \<open>
  The worker reads the bytes out of the buffer, and releases it when it is done with the packet;
  \<open>None\<close> is a panic.
\<close>

definition workTurn :: "collectorConfig \<Rightarrow> int \<Rightarrow> bufferedPacket \<Rightarrow> (nat \<Rightarrow> u32) \<Rightarrow> ingest \<Rightarrow> ingest option" where
  "workTurn cfg j p now s =
     (case takeTurn cfg (PacketTurn j (packetValue (store (socks s)) p) now) (line s) of
        None \<Rightarrow> None
      | Some l \<Rightarrow> Some (setStore (releasePacketBuffer (packetBuffer p) (store (socks s)))
                        (s\<lparr>line := l, working := remove1 (j, p) (working s)\<rparr>)))"

section \<open>Steps\<close>

text \<open>What a step does to packets, by value.\<close>

datatype event =
    ReadEvent nat int "datagram list"
  | CountEvent nat "turn option"
  | SendEvent nat
  | AbandonEvent nat "UDPPacket list"
  | TakeEvent int
  | WorkEvent int UDPPacket "nat \<Rightarrow> u32"
  | TurnEvent turn
  | SpawnEvent
  | StopEvent
  | CloseEvent

definition resultPacket :: "bufferStore \<Rightarrow> int \<Rightarrow> UDPReadResult \<Rightarrow> UDPPacket" where
  "resultPacket h now r =
     \<lparr>Buffer = contents h (resData r), Length = sliceLen (resData r), PacketRouterIP = resRouterIP r,
      PacketRouterIPNum = resRouterIPNum r, PacketRouterPort = resRouterPort r, ReceivedUnixNano = now\<rparr>"

definition resultDrops :: "UDPReadResult \<Rightarrow> u32 option" where
  "resultDrops r = (if HasSocketDrops r then Some (resSocketDrops r) else None)"

definition nonempty :: "UDPPacket list \<Rightarrow> UDPPacket list" where
  "nonempty ps = filter (\<lambda>p. Length p \<noteq> 0) ps"

text \<open>The datagrams a read delivers, none when it fails.\<close>

definition delivered :: "collectorConfig \<Rightarrow> nat \<Rightarrow> kernel_answer list \<Rightarrow> ingest \<Rightarrow> datagram list" where
  "delivered cfg k answers s =
     (case rawRead (socketAnswers s k answers) of
        Inl e \<Rightarrow> []
      | Inr ds \<Rightarrow> take (min (length (recBuffers (receivers s ! k))) (nat (udpBatchSize cfg))) ds)"

text \<open>The accounting of a result, as a turn of the pipeline.\<close>

definition countedTurn :: "nat \<Rightarrow> ingest \<Rightarrow> turn option" where
  "countedTurn k s =
     (case loops s ! k of
        Handling now (r # rest) \<Rightarrow>
          if sliceLen (resData r) = 0 then None
          else Some (ReceiveTurn (int k + 1) (goQuot now 1000000000) (fst (observeDrops k r s)))
      | _ \<Rightarrow> None)"

text \<open>Turns of workers between packets: flushes of idle workers, and the insert workers.\<close>

fun betweenPackets :: "(int \<times> 'p) list \<Rightarrow> turn \<Rightarrow> bool" where
  "betweenPackets busy (FlushTurn j order) = (j \<notin> fst ` set busy)"
| "betweenPackets busy InsertTurn = True"
| "betweenPackets busy _ = False"

inductive ingest_step :: "collectorConfig \<Rightarrow> ingest \<Rightarrow> event \<Rightarrow> ingest \<Rightarrow> bool" for cfg where
  read: "k < length (loops s) \<Longrightarrow> loops s ! k = Reading
     \<Longrightarrow> ingest_step cfg s (ReadEvent k now (delivered cfg k answers s)) (readTurn cfg k answers now s)"
| handle: "k < length (loops s) \<Longrightarrow> handleTurn k choice s = Some s'
     \<Longrightarrow> ingest_step cfg s (CountEvent k (countedTurn k s)) s'"
| send: "k < length (loops s) \<Longrightarrow> loops s ! k = Sending now p rest \<Longrightarrow> length (packetChannel s) < nat (packetChannelSize cfg)
     \<Longrightarrow> ingest_step cfg s (SendEvent k) (sendTurn k s)"
| abandon: "k < length (loops s) \<Longrightarrow> loops s ! k = Sending now p rest \<Longrightarrow> stopRequested s
     \<Longrightarrow> ingest_step cfg s
           (AbandonEvent k (packetValue (store (socks s)) p # nonempty (map (resultPacket (store (socks s)) now) rest)))
           (stopTurn k s)"
| take_packet: "packetChannel s = p # rest \<Longrightarrow> j \<in> {1..int (workerCount s)} \<Longrightarrow> j \<notin> fst ` set (working s)
     \<Longrightarrow> ingest_step cfg s (TakeEvent j) (s\<lparr>packetChannel := rest, working := (j, p) # working s\<rparr>)"
| work: "(j, p) \<in> set (working s) \<Longrightarrow> workTurn cfg j p now s = Some s'
     \<Longrightarrow> ingest_step cfg s (WorkEvent j (packetValue (store (socks s)) p) now) s'"
| between: "betweenPackets (working s) t \<Longrightarrow> turnWorkers t \<subseteq> {1..int (workerCount s)} \<Longrightarrow> takeTurn cfg t (line s) = Some l
     \<Longrightarrow> ingest_step cfg s (TurnEvent t) (s\<lparr>line := l\<rparr>)"
| spawn: "int (workerCount s) < autoTuneMaxPacketWorkers cfg
     \<Longrightarrow> ingest_step cfg s SpawnEvent (s\<lparr>workerCount := workerCount s + 1\<rparr>)"
| request_stop: "ingest_step cfg s StopEvent (s\<lparr>stopRequested := True\<rparr>)"
| close_sockets: "stopRequested s
     \<Longrightarrow> ingest_step cfg s CloseEvent (s\<lparr>socks := closeUDPReceivers (receivers s) (socks s)\<rparr>)"

inductive ingest_run :: "collectorConfig \<Rightarrow> ingest \<Rightarrow> event list \<Rightarrow> ingest \<Rightarrow> bool" for cfg where
  finished: "ingest_run cfg s [] s"
| onward: "ingest_step cfg s e s' \<Longrightarrow> ingest_run cfg s' es s'' \<Longrightarrow> ingest_run cfg s (e # es) s''"

end
