(* ===== verification/Ingest.thy ===== *)
theory Ingest
  imports ReceiveLoop
begin

text \<open>
  What the receive path promises: buffers are private to their packet, and the recycling of buffers
  is invisible.  \<open>value_step\<close> is the specification, a system that passes packets by value and
  has no buffers at all; \<open>ingest_step\<close> is shown to simulate it, event by event.
\<close>

section \<open>The specification: packets by value\<close>

definition datagramPacket :: "int \<Rightarrow> datagram \<Rightarrow> UDPPacket" where
  "datagramPacket now d =
     \<lparr>Buffer = take udpBufferSize (payload d), Length = min udpBufferSize (length (payload d)),
      PacketRouterIP = dottedIP (sourceAddr d), PacketRouterIPNum = addrNumber (sourceAddr d),
      PacketRouterPort = be16 (fst (sourcePort d)) (snd (sourcePort d)), ReceivedUnixNano = now\<rparr>"

type_synonym value_result = "u32 option \<times> UDPPacket"

datatype value_loop =
    VReading | VHandling int "value_result list" | VSending int UDPPacket "value_result list" | VReturned

record value_ingest =
  vTrackers :: "nat list"
  vDrops :: "u64 list"
  vLoops :: "value_loop list"
  vChannel :: "UDPPacket list"
  vWorking :: "(int \<times> UDPPacket) list"
  vWorkers :: nat
  vStop :: bool
  vLine :: pipeline

definition vSetLoop :: "nat \<Rightarrow> value_loop \<Rightarrow> value_ingest \<Rightarrow> value_ingest" where
  "vSetLoop k l v = v\<lparr>vLoops := (vLoops v)[k := l]\<rparr>"

text \<open>The drops a result reports, and the state of the trackers after it.\<close>

definition vObserve :: "nat \<Rightarrow> u32 option \<Rightarrow> value_ingest \<Rightarrow> u64 \<times> u64 list" where
  "vObserve k d v =
     (case d of
        None \<Rightarrow> (0, vDrops v)
      | Some n \<Rightarrow> (let t = vTrackers v ! k; (state, dropped) = ObserveSocketDrops (vDrops v ! t) n
                  in (dropped, (vDrops v)[t := state])))"

definition vCount :: "nat \<Rightarrow> int \<Rightarrow> u64 \<Rightarrow> turn" where
  "vCount k now dropped = ReceiveTurn (int k + 1) (goQuot now 1000000000) dropped"

inductive value_step :: "collectorConfig \<Rightarrow> value_ingest \<Rightarrow> event \<Rightarrow> value_ingest \<Rightarrow> bool" for cfg where
  v_read: "k < length (vLoops v) \<Longrightarrow> vLoops v ! k = VReading
     \<Longrightarrow> value_step cfg v (ReadEvent k now ds) (vSetLoop k (VHandling now (map (\<lambda>d. (datagramDrops d, datagramPacket now d)) ds)) v)"
| v_fail: "k < length (vLoops v) \<Longrightarrow> vLoops v ! k = VReading
     \<Longrightarrow> value_step cfg v (ReadEvent k now []) (vSetLoop k (if vStop v then VReturned else VReading) v)"
| v_end: "k < length (vLoops v) \<Longrightarrow> vLoops v ! k = VHandling now []
     \<Longrightarrow> value_step cfg v (CountEvent k None) (vSetLoop k VReading v)"
| v_skip: "k < length (vLoops v) \<Longrightarrow> vLoops v ! k = VHandling now ((d, p) # rest) \<Longrightarrow> Length p = 0
     \<Longrightarrow> value_step cfg v (CountEvent k None) (vSetLoop k (VHandling now rest) v)"
| v_count: "k < length (vLoops v) \<Longrightarrow> vLoops v ! k = VHandling now ((d, p) # rest) \<Longrightarrow> Length p \<noteq> 0
     \<Longrightarrow> vObserve k d v = (dropped, drops') \<Longrightarrow> takeTurn cfg (vCount k now dropped) (vLine v) = Some l
     \<Longrightarrow> value_step cfg v (CountEvent k (Some (vCount k now dropped)))
           (vSetLoop k (VSending now p rest) (v\<lparr>vDrops := drops', vLine := l\<rparr>))"
| v_send: "k < length (vLoops v) \<Longrightarrow> vLoops v ! k = VSending now p rest \<Longrightarrow> length (vChannel v) < nat (packetChannelSize cfg)
     \<Longrightarrow> value_step cfg v (SendEvent k) (vSetLoop k (VHandling now rest) (v\<lparr>vChannel := vChannel v @ [p]\<rparr>))"
| v_abandon: "k < length (vLoops v) \<Longrightarrow> vLoops v ! k = VSending now p rest \<Longrightarrow> vStop v
     \<Longrightarrow> value_step cfg v (AbandonEvent k (p # nonempty (map snd rest))) (vSetLoop k VReturned v)"
| v_take: "vChannel v = p # rest \<Longrightarrow> j \<in> {1..int (vWorkers v)} \<Longrightarrow> j \<notin> fst ` set (vWorking v)
     \<Longrightarrow> value_step cfg v (TakeEvent j) (v\<lparr>vChannel := rest, vWorking := (j, p) # vWorking v\<rparr>)"
| v_work: "(j, p) \<in> set (vWorking v) \<Longrightarrow> takeTurn cfg (PacketTurn j p now) (vLine v) = Some l
     \<Longrightarrow> value_step cfg v (WorkEvent j p now) (v\<lparr>vLine := l, vWorking := remove1 (j, p) (vWorking v)\<rparr>)"
| v_between: "betweenPackets (vWorking v) t \<Longrightarrow> turnWorkers t \<subseteq> {1..int (vWorkers v)} \<Longrightarrow> takeTurn cfg t (vLine v) = Some l
     \<Longrightarrow> value_step cfg v (TurnEvent t) (v\<lparr>vLine := l\<rparr>)"
| v_spawn: "int (vWorkers v) < autoTuneMaxPacketWorkers cfg \<Longrightarrow> value_step cfg v SpawnEvent (v\<lparr>vWorkers := vWorkers v + 1\<rparr>)"
| v_stop: "value_step cfg v StopEvent (v\<lparr>vStop := True\<rparr>)"
| v_close: "value_step cfg v CloseEvent v"

inductive value_run :: "collectorConfig \<Rightarrow> value_ingest \<Rightarrow> event list \<Rightarrow> value_ingest \<Rightarrow> bool" for cfg where
  v_finished: "value_run cfg v [] v"
| v_onward: "value_step cfg v e v' \<Longrightarrow> value_run cfg v' es v'' \<Longrightarrow> value_run cfg v (e # es) v''"

section \<open>The abstraction\<close>

definition absResult :: "bufferStore \<Rightarrow> int \<Rightarrow> UDPReadResult \<Rightarrow> value_result" where
  "absResult h now r = (resultDrops r, resultPacket h now r)"

fun absLoop :: "bufferStore \<Rightarrow> loop_state \<Rightarrow> value_loop" where
  "absLoop h Reading = VReading"
| "absLoop h (Handling now rs) = VHandling now (map (absResult h now) rs)"
| "absLoop h (Sending now p rs) = VSending now (packetValue h p) (map (absResult h now) rs)"
| "absLoop h Returned = VReturned"

definition absIngest :: "ingest \<Rightarrow> value_ingest" where
  "absIngest s =
     (let h = store (socks s)
      in \<lparr>vTrackers = map dropTracker (receivers s), vDrops = dropStates (socks s), vLoops = map (absLoop h) (loops s),
          vChannel = map (packetValue h) (packetChannel s), vWorking = map (\<lambda>(j, p). (j, packetValue h p)) (working s),
          vWorkers = workerCount s, vStop = stopRequested s, vLine = line s\<rparr>)"

section \<open>The invariant\<close>

fun heldBy :: "loop_state \<Rightarrow> slice list" where
  "heldBy (Sending now p rs) = [packetBuffer p]"
| "heldBy _ = []"

fun resultsOf :: "loop_state \<Rightarrow> UDPReadResult list" where
  "resultsOf (Handling now rs) = rs"
| "resultsOf (Sending now p rs) = rs"
| "resultsOf _ = []"

text \<open>Every slice the program holds: the receivers' own, and one for each packet on its way.\<close>

definition packetSlices :: "ingest \<Rightarrow> slice multiset" where
  "packetSlices s = mset (concat (map heldBy (loops s))) + image_mset packetBuffer (mset (packetChannel s))
     + image_mset (packetBuffer \<circ> snd) (mset (working s))"

definition heldSlices :: "ingest \<Rightarrow> slice multiset" where
  "heldSlices s = mset (concat (map recBuffers (receivers s))) + packetSlices s"

definition inBuffers :: "udpReceiver \<Rightarrow> UDPReadResult \<Rightarrow> bool" where
  "inBuffers rec r \<longleftrightarrow> (\<exists>b \<in> set (recBuffers rec). sliceArray b = sliceArray (resData r) \<and> sliceLen (resData r) \<le> sliceLen b)"

definition ingest_ok :: "ingest \<Rightarrow> bool" where
  "ingest_ok s \<longleftrightarrow> privateSlices (store (socks s)) (heldSlices s)
     \<and> length (loops s) = length (receivers s) \<and> distinct (map fst (working s))
     \<and> (\<forall>k < length (loops s). list_all (inBuffers (receivers s ! k)) (resultsOf (loops s ! k)))
     \<and> (\<forall>rec \<in> set (receivers s). \<forall>b \<in> set (recBuffers rec). sliceLen b = udpBufferSize)"

lemma ingest_okD:
  assumes "ingest_ok s"
  shows "privateSlices (store (socks s)) (heldSlices s)" "length (loops s) = length (receivers s)"
    "k < length (loops s) \<Longrightarrow> r \<in> set (resultsOf (loops s ! k)) \<Longrightarrow> inBuffers (receivers s ! k) r"
    "rec \<in> set (receivers s) \<Longrightarrow> b \<in> set (recBuffers rec) \<Longrightarrow> sliceLen b = udpBufferSize"
  using assms unfolding ingest_ok_def list_all_iff by blast+

lemma mset_concat_update:
  "k < length xs \<Longrightarrow> mset (concat (map f (xs[k := x]))) + mset (f (xs ! k)) = mset (concat (map f xs)) + mset (f x)"
proof (induction xs arbitrary: k)
  case (Cons y ys)
  then show ?case by (cases k) (simp_all add: ac_simps)
qed simp

lemma mset_concat_split:
  "k < length xs \<Longrightarrow> \<exists>rest. mset (concat (map f xs)) = mset (f (xs ! k)) + rest
     \<and> (\<forall>j < length xs. j \<noteq> k \<longrightarrow> mset (f (xs ! j)) \<subseteq># rest)"
proof (induction xs arbitrary: k)
  case (Cons y ys)
  show ?case
  proof (cases k)
    case 0
    have "mset (f (ys ! j)) \<subseteq># mset (concat (map f ys))" if "j < length ys" for j
      using that by (metis Cons.IH mset_subset_eq_add_left)
    with 0 show ?thesis by (intro exI [of _ "mset (concat (map f ys))"]) (auto simp: nth_Cons')
  next
    case (Suc i)
    with Cons obtain rest where rest: "mset (concat (map f ys)) = mset (f (ys ! i)) + rest"
      "\<forall>j < length ys. j \<noteq> i \<longrightarrow> mset (f (ys ! j)) \<subseteq># rest" by (metis Suc_less_eq length_Cons)
    then have "mset (f (ys ! j)) \<subseteq># mset (f y) + rest" if "j < length ys" "j \<noteq> i" for j
      using that by (metis add.commute mset_subset_eq_add_left subset_mset.trans)
    with rest(1) Suc show ?thesis
      by (intro exI [of _ "mset (f y) + rest"]) (auto simp: nth_Cons' ac_simps)
  qed
qed simp

lemma contents_prefix:
  "sliceArray b = sliceArray x \<Longrightarrow> sliceLen x \<le> sliceLen b \<Longrightarrow> contents h b = contents h' b \<Longrightarrow> contents h x = contents h' x"
proof -
  assume x: "sliceArray b = sliceArray x" "sliceLen x \<le> sliceLen b" and same: "contents h b = contents h' b"
  have "contents g x = take (sliceLen x) (contents g b)" for g using x by (simp add: contents_def min_def)
  with same show ?thesis by simp
qed

lemma absResult_cong:
  assumes "inBuffers rec r" "\<forall>b \<in> set (recBuffers rec). contents h' b = contents h b"
  shows "absResult h' now r = absResult h now r"
  using assms contents_prefix [of _ "resData r" h' h] by (auto simp: inBuffers_def absResult_def resultPacket_def)

lemma packetValue_cong: "contents h' (packetBuffer p) = contents h (packetBuffer p) \<Longrightarrow> packetValue h' p = packetValue h p"
  by (simp add: packetValue_def)

lemma absLoop_cong:
  assumes "list_all (inBuffers rec) (resultsOf l)" "\<forall>x \<in> set (heldBy l) \<union> set (recBuffers rec). contents h' x = contents h x"
  shows "absLoop h' l = absLoop h l"
proof (cases l)
  case (Handling now rs)
  with assms show ?thesis by (auto simp: list_all_iff intro!: absResult_cong [of rec])
next
  case (Sending now p rs)
  with assms show ?thesis by (auto simp: list_all_iff intro!: absResult_cong [of rec] packetValue_cong)
qed simp_all

text \<open>A change of the store that keeps the held slices keeps the abstraction.\<close>

lemma abs_same_store:
  assumes "ingest_ok s" "\<forall>x \<in># heldSlices s. contents h x = contents (store (socks s)) x"
  shows "map (absLoop h) (loops s) = map (absLoop (store (socks s))) (loops s)"
    "map (packetValue h) (packetChannel s) = map (packetValue (store (socks s))) (packetChannel s)"
    "map (\<lambda>(j, p). (j, packetValue h p)) (working s) = map (\<lambda>(j, p). (j, packetValue (store (socks s)) p)) (working s)"
proof -
  have "absLoop h l = absLoop (store (socks s)) l" if l: "l \<in> set (loops s)" for l
  proof -
    from l obtain k where k: "k < length (loops s)" "loops s ! k = l" by (auto simp: in_set_conv_nth)
    then have rec: "receivers s ! k \<in> set (receivers s)" using ingest_okD(2) [OF assms(1)] by simp
    show ?thesis
    proof (rule absLoop_cong)
      show "list_all (inBuffers (receivers s ! k)) (resultsOf l)" using ingest_okD(3) [OF assms(1) k(1)] k(2) by (simp add: list_all_iff)
      show "\<forall>x \<in> set (heldBy l) \<union> set (recBuffers (receivers s ! k)). contents h x = contents (store (socks s)) x"
        using assms(2) rec l by (force simp: heldSlices_def packetSlices_def)
    qed
  qed
  then show "map (absLoop h) (loops s) = map (absLoop (store (socks s))) (loops s)" by simp
  show "map (packetValue h) (packetChannel s) = map (packetValue (store (socks s))) (packetChannel s)"
    using assms(2) by (auto simp: heldSlices_def packetSlices_def intro!: packetValue_cong)
  show "map (\<lambda>(j, p). (j, packetValue h p)) (working s) = map (\<lambda>(j, p). (j, packetValue (store (socks s)) p)) (working s)"
    using assms(2) by (force simp: heldSlices_def packetSlices_def intro!: packetValue_cong)
qed

section \<open>The kernel's writes\<close>

lemma copyInto_take: "copyInto sl (take (sliceLen sl) bs) h = copyInto sl bs h"
  by (simp add: copyInto_def Let_def min_def)

lemma fold_copyInto_take:
  "(\<And>sl. sl \<in> set bufs \<Longrightarrow> sliceLen sl = n)
    \<Longrightarrow> fold (\<lambda>(sl, bs). copyInto sl bs) (zip bufs (map (take n) bss)) h = fold (\<lambda>(sl, bs). copyInto sl bs) (zip bufs bss) h"
proof (induction bufs arbitrary: bss h)
  case (Cons sl bufs)
  show ?case
  proof (cases bss)
    case bss: (Cons bs rest)
    with Cons.IH [of rest "copyInto sl bs h"] Cons.prems copyInto_take [of sl bs h] show ?thesis by simp
  qed simp
qed simp

lemma zip_take_left: "zip (take (length ys) xs) ys = zip xs ys"
  by (induction xs arbitrary: ys) (simp, case_tac ys, auto)

lemma zip_take_right: "length xs \<le> n \<Longrightarrow> zip xs (take n ys) = zip xs ys"
proof (induction xs arbitrary: n ys)
  case (Cons x xs)
  then show ?case by (cases n; cases ys) auto
qed simp

lemma length_contents: "privateSlices h held \<Longrightarrow> x \<in># held \<Longrightarrow> length (contents h x) = sliceLen x"
  using privateSlicesD(5) by (fastforce simp: contents_def sliceCap_def)

lemma recvmmsg_effect:
  assumes "recvmmsg ds bufs h = (results, h')" "length ds \<le> length bufs"
    and ok: "privateSlices h (mset bufs + held)" "\<forall>b \<in> set bufs. sliceLen b = udpBufferSize"
  shows "privateSlices h' (mset bufs + held)" "\<forall>x \<in># held. contents h' x = contents h x"
    and "map (absResult h' now) results = map (\<lambda>d. (datagramDrops d, datagramPacket now d)) ds"
    and "\<forall>r \<in> set results. \<exists>b \<in> set bufs. sliceArray b = sliceArray (resData r) \<and> sliceLen (resData r) \<le> sliceLen b"
    and "length results = length ds"
proof -
  let ?n = "length ds" and ?bss = "map (take udpBufferSize) (map payload ds)"
  let ?ss = "take ?n bufs"
  have h': "h' = fold (\<lambda>(sl, bs). copyInto sl bs) (zip ?ss ?bss) h"
    using assms(1) fold_copyInto_take [of bufs udpBufferSize "map payload ds" h] ok(2)
      zip_take_left [of ?bss bufs] by (simp add: recvmmsg_def)
  have results: "results = map (\<lambda>(sl, d). readResult (sl\<lparr>sliceLen := min (sliceLen sl) (length (payload d))\<rparr>) d) (zip bufs ds)"
    using assms(1) by (simp add: recvmmsg_def)
  have split: "mset bufs + held = mset ?ss + (mset (drop ?n bufs) + held)"
    by (metis add.assoc append_take_drop_id mset_append)
  have len: "length (?bss ! i) \<le> length (contents h (?ss ! i))" if "i < length ?ss" for i
  proof -
    have "bufs ! i \<in># mset bufs + held" "bufs ! i \<in> set bufs" using that by auto
    with length_contents [OF ok(1), of "bufs ! i"] ok(2) that assms(2) show ?thesis by simp
  qed
  have "privateSlices h (mset ?ss + (mset (drop ?n bufs) + held))" using ok(1) split by simp
  note fill = buffers.fill_all [OF this _ len, folded h' split]
  have f: "privateSlices h' (mset bufs + held)" "\<forall>x \<in># mset (drop ?n bufs) + held. contents h' x = contents h x"
    and wrote: "\<forall>i < length ?ss. take (length (?bss ! i)) (contents h' (?ss ! i)) = ?bss ! i"
    using fill assms(2) by auto
  show "privateSlices h' (mset bufs + held)" "\<forall>x \<in># held. contents h' x = contents h x" using f by auto
  show "length results = length ds" using assms(2) by (simp add: results)
  show "\<forall>r \<in> set results. \<exists>b \<in> set bufs. sliceArray b = sliceArray (resData r) \<and> sliceLen (resData r) \<le> sliceLen b"
    by (auto simp: results readResult_def dest!: set_zip_leftD)
  show "map (absResult h' now) results = map (\<lambda>d. (datagramDrops d, datagramPacket now d)) ds"
  proof (rule nth_equalityI)
    fix i
    assume "i < length (map (absResult h' now) results)"
    then have i: "i < length ds" "i < length bufs" using assms(2) by (simp_all add: results)
    then have len: "sliceLen (bufs ! i) = udpBufferSize" using ok(2) by simp
    have bytes: "contents h' ((bufs ! i)\<lparr>sliceLen := min udpBufferSize (length (payload (ds ! i)))\<rparr>) = take udpBufferSize (payload (ds ! i))"
      using wrote [rule_format, of i] i len by (simp add: contents_def min.commute)
    show "map (absResult h' now) results ! i = map (\<lambda>d. (datagramDrops d, datagramPacket now d)) ds ! i"
      using i len bytes
      by (auto simp: results absResult_def resultDrops_def resultPacket_def readResult_def datagramPacket_def split: option.splits)
  qed (use assms(2) in \<open>simp add: results\<close>)
qed

section \<open>Every step keeps the buffers private and is a step of the specification\<close>

lemma ingest_frame [simp]:
  "socks (setLoop k l s) = socks s" "receivers (setLoop k l s) = receivers s" "loops (setLoop k l s) = (loops s)[k := l]"
  "packetChannel (setLoop k l s) = packetChannel s" "working (setLoop k l s) = working s" "line (setLoop k l s) = line s"
  "workerCount (setLoop k l s) = workerCount s" "stopRequested (setLoop k l s) = stopRequested s"
  "socks (countStats k f s) = socks s" "receivers (countStats k f s) = receivers s" "loops (countStats k f s) = loops s"
  "packetChannel (countStats k f s) = packetChannel s" "working (countStats k f s) = working s" "line (countStats k f s) = line s"
  "workerCount (countStats k f s) = workerCount s" "stopRequested (countStats k f s) = stopRequested s"
  "store (socks (setStore h s)) = h" "receivers (setStore h s) = receivers s" "loops (setStore h s) = loops s"
  "packetChannel (setStore h s) = packetChannel s" "working (setStore h s) = working s" "line (setStore h s) = line s"
  "workerCount (setStore h s) = workerCount s" "stopRequested (setStore h s) = stopRequested s"
  "dropStates (socks (setStore h s)) = dropStates (socks s)" "openConns (socks (setStore h s)) = openConns (socks s)"
  by (simp_all add: setLoop_def countStats_def setStore_def)

lemma absIngest_quiet [simp]:
  "absIngest (countStats k f s) = absIngest s"
  "absIngest (setLoop k l s) = vSetLoop k (absLoop (store (socks s)) l) (absIngest s)"
  by (simp_all add: absIngest_def vSetLoop_def map_update Let_def)

lemma vsel [simp]:
  "vTrackers (absIngest s) = map dropTracker (receivers s)" "vDrops (absIngest s) = dropStates (socks s)"
  "vLoops (absIngest s) = map (absLoop (store (socks s))) (loops s)"
  "vChannel (absIngest s) = map (packetValue (store (socks s))) (packetChannel s)"
  "vWorking (absIngest s) = map (\<lambda>(j, p). (j, packetValue (store (socks s)) p)) (working s)"
  "vWorkers (absIngest s) = workerCount s" "vStop (absIngest s) = stopRequested s" "vLine (absIngest s) = line s"
  by (simp_all add: absIngest_def Let_def)

lemma abs_setStore:
  assumes "ingest_ok s" "\<forall>x \<in># heldSlices s. contents h x = contents (store (socks s)) x"
  shows "absIngest (setStore h s) = absIngest s"
  using abs_same_store [OF assms] by (simp add: absIngest_def Let_def)

lemma packetSlices_setLoop:
  "k < length (loops s) \<Longrightarrow> packetSlices (setLoop k l s) + mset (heldBy (loops s ! k)) = packetSlices s + mset (heldBy l)"
  using mset_concat_update [of k "loops s" heldBy l] by (simp add: packetSlices_def ac_simps)

lemma slices_quiet [simp]:
  "packetSlices (countStats k f s) = packetSlices s" "packetSlices (setStore h s) = packetSlices s"
  "heldSlices (countStats k f s) = heldSlices s" "heldSlices (setStore h s) = heldSlices s"
  by (simp_all add: packetSlices_def heldSlices_def)

text \<open>Moving a loop on: the new state holds what the store is said to hold.\<close>

lemma ok_setLoop:
  assumes ok: "ingest_ok s" and k: "k < length (loops s)"
    and s': "receivers s' = receivers s" "loops s' = (loops s)[k := l]" "working s' = working s"
    and "privateSlices (store (socks s')) (heldSlices s')"
    and "list_all (inBuffers (receivers s ! k)) (resultsOf l)"
  shows "ingest_ok s'"
  unfolding ingest_ok_def
proof (intro conjI allI impI)
  fix j
  assume "j < length (loops s')"
  with ok assms(7) k s' show "list_all (inBuffers (receivers s' ! j)) (resultsOf (loops s' ! j))"
    by (cases "j = k") (auto simp: ingest_ok_def)
qed (use ok s' assms(6) in \<open>auto simp: ingest_ok_def\<close>)

lemma read_simulated:
  assumes ok: "ingest_ok s" and k: "k < length (loops s)" "loops s ! k = Reading"
  shows "ingest_ok (readTurn cfg k answers now s)
    \<and> value_step cfg (absIngest s) (ReadEvent k now (delivered cfg k answers s)) (absIngest (readTurn cfg k answers now s))"
proof -
  let ?h = "store (socks s)" and ?rec = "receivers s ! k"
  let ?max = "min (length (recBuffers ?rec)) (nat (udpBatchSize cfg))"
  have vk: "k < length (vLoops (absIngest s))" "vLoops (absIngest s) ! k = VReading" using k by simp_all
  have same: "setStore ?h s = s" by (simp add: setStore_def)
  note priv = ingest_okD(1) [OF ok]
  show ?thesis
  proof (cases "?max = 0 \<or> (\<exists>e. rawRead (socketAnswers s k answers) = Inl e)")
    case True
    let ?l = "if stopRequested s then Returned else Reading"
    from True obtain f where eq: "readTurn cfg k answers now s = setLoop k ?l (countStats k f s)" and none: "delivered cfg k answers s = []"
      by (fastforce simp: readTurn_def ReadBatch_def delivered_def same Let_def split: sum.splits if_splits)
    have "heldSlices (readTurn cfg k answers now s) = heldSlices s"
      using packetSlices_setLoop [of k "countStats k f s" ?l] k by (auto simp: eq heldSlices_def split: if_splits)
    with priv have "ingest_ok (readTurn cfg k answers now s)"
      by (intro ok_setLoop [OF ok k(1), of _ ?l]) (simp_all add: eq)
    moreover have "absIngest (readTurn cfg k answers now s) = vSetLoop k (if vStop (absIngest s) then VReturned else VReading) (absIngest s)"
      by (simp add: eq)
    ultimately show ?thesis using v_fail [OF vk, of cfg now] none by simp
  next
    case False
    then obtain ds where max: "?max \<noteq> 0" and ds: "rawRead (socketAnswers s k answers) = Inr ds"
      by (cases "rawRead (socketAnswers s k answers)") auto
    let ?bufs = "take ?max (recBuffers ?rec)" and ?ds = "take ?max ds"
    obtain results h' where r: "recvmmsg ?ds ?bufs ?h = (results, h')" by fastforce
    have "recvmmsg ds ?bufs ?h = recvmmsg ?ds ?bufs ?h"
      using zip_take_right [of ?bufs ?max ds] zip_take_right [of ?bufs ?max "map payload ds"] by (simp add: recvmmsg_def take_map)
    with r max ds obtain f where eq: "readTurn cfg k answers now s = setLoop k (Handling now results) (countStats k f (setStore h' s))"
      by (fastforce simp: readTurn_def ReadBatch_def Let_def)
    have some: "delivered cfg k answers s = ?ds" by (simp add: delivered_def ds)
    have recs: "k < length (receivers s)" "?rec \<in> set (receivers s)" using k ingest_okD(2) [OF ok] by simp_all
    obtain others where others: "mset (concat (map recBuffers (receivers s))) = mset (recBuffers ?rec) + others"
      "\<forall>j < length (receivers s). j \<noteq> k \<longrightarrow> mset (recBuffers (receivers s ! j)) \<subseteq># others"
      using mset_concat_split [OF recs(1), of recBuffers] by blast
    have "mset (recBuffers ?rec) = mset ?bufs + mset (drop ?max (recBuffers ?rec))"
      by (metis append_take_drop_id mset_append)
    then have held: "heldSlices s = mset ?bufs + (mset (drop ?max (recBuffers ?rec)) + others + packetSlices s)"
      using others(1) by (simp add: heldSlices_def ac_simps)
    have sizes: "\<forall>b \<in> set ?bufs. sliceLen b = udpBufferSize" using ingest_okD(4) [OF ok recs(2)] by (auto dest: in_set_takeD)
    have len: "length ?ds \<le> length ?bufs" by (auto simp: min_le_iff_disj)
    note e = recvmmsg_effect [OF r len priv [unfolded held] sizes]
    have kept: "contents h' x = contents ?h x" if "x \<in># others + packetSlices s" for x using e(2) that by auto
    have packets: "heldSlices (readTurn cfg k answers now s) = heldSlices s"
      using packetSlices_setLoop [of k "countStats k f (setStore h' s)" "Handling now results"] k by (simp add: eq heldSlices_def)
    have ok': "ingest_ok (readTurn cfg k answers now s)"
    proof (rule ok_setLoop [OF ok k(1), of _ "Handling now results"])
      show "privateSlices (store (socks (readTurn cfg k answers now s))) (heldSlices (readTurn cfg k answers now s))"
        unfolding packets using e(1) held by (simp add: eq)
      show "list_all (inBuffers ?rec) (resultsOf (Handling now results))"
        using e(4) by (auto simp: list_all_iff inBuffers_def dest!: in_set_takeD)
    qed (simp_all add: eq)
    have loop: "absLoop h' (loops s ! j) = absLoop ?h (loops s ! j)" if j: "j < length (loops s)" "j \<noteq> k" for j
    proof (rule absLoop_cong)
      show "list_all (inBuffers (receivers s ! j)) (resultsOf (loops s ! j))" using ingest_okD(3) [OF ok j(1)] by (simp add: list_all_iff)
      have "set (recBuffers (receivers s ! j)) \<subseteq> set_mset others"
        using others(2) j ingest_okD(2) [OF ok] set_mset_mono by (metis set_mset_mset)
      moreover have "set (heldBy (loops s ! j)) \<subseteq> set_mset (packetSlices s)" using j by (force simp: packetSlices_def)
      ultimately show "\<forall>x \<in> set (heldBy (loops s ! j)) \<union> set (recBuffers (receivers s ! j)). contents h' x = contents ?h x"
        using kept by auto
    qed
    have loops': "(map (absLoop h') (loops s))[k := l] = (map (absLoop ?h) (loops s))[k := l]" for l
    proof (intro nth_equalityI)
      fix i
      assume "i < length ((map (absLoop h') (loops s))[k := l])"
      then show "(map (absLoop h') (loops s))[k := l] ! i = (map (absLoop ?h) (loops s))[k := l] ! i"
        using loop [of i] by (cases "i = k") simp_all
    qed simp
    have rest: "map (packetValue h') (packetChannel s) = map (packetValue ?h) (packetChannel s)"
      "map (\<lambda>(j, p). (j, packetValue h' p)) (working s) = map (\<lambda>(j, p). (j, packetValue ?h p)) (working s)"
      using kept by (auto simp: packetSlices_def intro!: packetValue_cong) force
    have "absIngest (readTurn cfg k answers now s)
        = vSetLoop k (VHandling now (map (\<lambda>d. (datagramDrops d, datagramPacket now d)) ?ds)) (absIngest s)"
      using rest loops' e(3) by (simp add: eq vSetLoop_def absIngest_def map_update Let_def)
    with v_read [OF vk, of cfg now ?ds] ok' some show ?thesis by simp
  qed
qed

lemma result_length:
  assumes "ingest_ok s" "k < length (loops s)" "r \<in> set (resultsOf (loops s ! k))"
  shows "length (contents (store (socks s)) (resData r)) = sliceLen (resData r)"
    and "\<forall>x \<in># heldSlices s. contents h x = contents (store (socks s)) x
      \<Longrightarrow> contents h (resData r) = contents (store (socks s)) (resData r)"
proof -
  have rec: "receivers s ! k \<in> set (receivers s)" using assms(2) ingest_okD(2) [OF assms(1)] by simp
  obtain b where b: "b \<in> set (recBuffers (receivers s ! k))" "sliceArray b = sliceArray (resData r)" "sliceLen (resData r) \<le> sliceLen b"
    using ingest_okD(3) [OF assms] by (auto simp: inBuffers_def)
  then have held: "b \<in># heldSlices s" using rec by (auto simp: heldSlices_def)
  from privateSlicesD(5) [OF ingest_okD(1) [OF assms(1)] this] b
  show "length (contents (store (socks s)) (resData r)) = sliceLen (resData r)"
    by (simp add: contents_def sliceCap_def)
  show "contents h (resData r) = contents (store (socks s)) (resData r)" if "\<forall>x \<in># heldSlices s. contents h x = contents (store (socks s)) x"
    using contents_prefix [OF b(2,3)] that held by blast
qed

text \<open>Steps that change neither the store nor the slices held.\<close>

lemma ok_quiet:
  "ingest_ok s \<Longrightarrow> store (socks s') = store (socks s) \<Longrightarrow> heldSlices s' = heldSlices s \<Longrightarrow> receivers s' = receivers s
    \<Longrightarrow> loops s' = loops s \<Longrightarrow> distinct (map fst (working s')) \<Longrightarrow> ingest_ok s'"
  by (simp add: ingest_ok_def)

lemma observeDrops_abs:
  assumes "observeDrops k r s = (dropped, s1)" "k < length (receivers s)"
  shows "s1 = s\<lparr>socks := (socks s)\<lparr>dropStates := snd (vObserve k (resultDrops r) (absIngest s))\<rparr>\<rparr>"
    "dropped = fst (vObserve k (resultDrops r) (absIngest s))"
  using assms by (auto simp: observeDrops_def vObserve_def resultDrops_def Let_def split: if_splits prod.splits)

lemma handle_simulated:
  assumes ok: "ingest_ok s" and k: "k < length (loops s)" and run: "handleTurn k choice s = Some s'"
  shows "ingest_ok s' \<and> value_step cfg (absIngest s) (CountEvent k (countedTurn k s)) (absIngest s')"
proof -
  let ?h = "store (socks s)" and ?v = "absIngest s"
  from run obtain now rs where l: "loops s ! k = Handling now rs"
    by (auto simp: handleTurn_def split: loop_state.splits)
  have vk: "k < length (vLoops ?v)" "vLoops ?v ! k = VHandling now (map (absResult ?h now) rs)" using k l by simp_all
  have recs: "k < length (receivers s)" using k ingest_okD(2) [OF ok] by simp
  note priv = ingest_okD(1) [OF ok]
  have quiet: "ingest_ok (setLoop k l' s)" if "heldBy l' = []" "set (resultsOf l') \<subseteq> set rs" for l'
  proof (rule ok_setLoop [OF ok k, of _ l'])
    have "heldSlices (setLoop k l' s) = heldSlices s"
      using packetSlices_setLoop [OF k, of l'] that(1) l by (simp add: heldSlices_def)
    with priv show "privateSlices (store (socks (setLoop k l' s))) (heldSlices (setLoop k l' s))" by simp
    show "list_all (inBuffers (receivers s ! k)) (resultsOf l')"
      using that(2) ingest_okD(3) [OF ok k] l by (auto simp: list_all_iff)
  qed simp_all
  show ?thesis
  proof (cases rs)
    case Nil
    with run l have "s' = setLoop k Reading s" by (simp add: handleTurn_def)
    with v_end [OF vk(1), of now cfg] vk(2) Nil quiet [of Reading] l show ?thesis by (simp add: countedTurn_def)
  next
    case (Cons r rest)
    show ?thesis
    proof (cases "sliceLen (resData r) = 0")
      case True
      with run l Cons have "s' = setLoop k (Handling now rest) s" by (simp add: handleTurn_def)
      with v_skip [OF vk(1), of now _ _ "map (absResult ?h now) rest" cfg] vk(2) Cons True quiet [of "Handling now rest"] l
      show ?thesis by (auto simp: countedTurn_def absResult_def resultPacket_def)
    next
      case False
      obtain dropped s1 where o: "observeDrops k r s = (dropped, s1)" by fastforce
      note s1 = observeDrops_abs [OF o recs]
      let ?bs = "contents ?h (resData r)"
      have r: "r \<in> set (resultsOf (loops s ! k))" using l Cons by simp
      note len = result_length(1) [OF ok k r]
      obtain buf h1 where acq: "acquirePacketBuffer choice (sliceLen (resData r)) ?h = Some (buf, h1)"
        "privateSlices h1 (add_mset buf (heldSlices s))" "length (contents h1 buf) = sliceLen (resData r)"
        "\<forall>x \<in># heldSlices s. contents h1 x = contents ?h x"
        using buffers.acquire_holds [OF priv] by blast
      have bs: "contents h1 (resData r) = ?bs" by (rule result_length(2) [OF ok k r acq(4)])
      define h2 where "h2 = copyInto buf ?bs h1"
      note copy = buffers.copy_holds [OF acq(2), of ?bs, folded h2_def]
      have h2: "privateSlices h2 (add_mset buf (heldSlices s))" "contents h2 buf = ?bs" "\<forall>x \<in># heldSlices s. contents h2 x = contents ?h x"
        using copy acq(3,4) len by auto
      define packet where "packet = \<lparr>packetBuffer = buf, packetLength = sliceLen (resData r), fromIP = resRouterIP r,
          fromIPNum = resRouterIPNum r, fromPort = resRouterPort r, receivedAt = now\<rparr>"
      define s3 where "s3 = (countStats k (\<lambda>st. st\<lparr>statKernelDrops := statKernelDrops st + dropped\<rparr>) s1)
          \<lparr>line := (line s)\<lparr>shared := countReceived (int k + 1) (goQuot now 1000000000) dropped (shared (line s))\<rparr>\<rparr>"
      have s': "s' = setLoop k (Sending now packet rest) (setStore h2 s3)"
        using run l Cons False o acq(1) bs
        by (simp add: handleTurn_def s3_def s1(1) packet_def h2_def setStore_def countStats_def Let_def)
      have held: "heldSlices (setLoop k (Sending now packet rest) (setStore h2 s3)) = add_mset buf (heldSlices s)"
        using packetSlices_setLoop [of k "setStore h2 s3" "Sending now packet rest"] k l
        by (simp add: heldSlices_def s3_def s1(1) packet_def packetSlices_def)
      have "ingest_ok s'"
      proof (rule ok_setLoop [OF ok k, of _ "Sending now packet rest"])
        show "privateSlices (store (socks s')) (heldSlices s')" using h2(1) held by (simp add: s')
        show "list_all (inBuffers (receivers s ! k)) (resultsOf (Sending now packet rest))"
          using ingest_okD(3) [OF ok k] l Cons by (auto simp: list_all_iff)
      qed (simp_all add: s' s3_def s1(1))
      moreover have "absIngest s' = vSetLoop k (VSending now (resultPacket ?h now r) (map (absResult ?h now) rest))
          (?v\<lparr>vDrops := snd (vObserve k (resultDrops r) ?v),
              vLine := (line s)\<lparr>shared := countReceived (int k + 1) (goQuot now 1000000000) dropped (shared (line s))\<rparr>\<rparr>)"
      proof -
        have same: "absResult h2 now q = absResult ?h now q" if "q \<in> set rest" for q
          using result_length(2) [OF ok k _ h2(3), of q] that l Cons by (simp add: absResult_def resultPacket_def)
        have "packetValue h2 packet = resultPacket ?h now r" by (simp add: packetValue_def packet_def resultPacket_def h2(2))
        moreover have "map (absResult h2 now) rest = map (absResult ?h now) rest" using same by simp
        ultimately show ?thesis
          using abs_same_store [OF ok h2(3)]
          by (simp add: s' s3_def s1(1) absIngest_def vSetLoop_def map_update Let_def del: map_eq_conv)
      qed
      moreover have "countedTurn k s = Some (vCount k now dropped)"
        using l Cons False o by (simp add: countedTurn_def vCount_def)
      moreover have "takeTurn cfg (vCount k now dropped) (vLine ?v)
          = Some ((line s)\<lparr>shared := countReceived (int k + 1) (goQuot now 1000000000) dropped (shared (line s))\<rparr>)"
        by (simp add: vCount_def)
      moreover have "Length (resultPacket ?h now r) \<noteq> 0" using False by (simp add: resultPacket_def)
      ultimately show ?thesis
        using v_count [OF vk(1), of now "resultDrops r" "resultPacket ?h now r" "map (absResult ?h now) rest" dropped] vk(2) Cons s1(2)
        by (simp add: absResult_def)
    qed
  qed
qed

text \<open>Releasing the buffer of a packet that is no longer referenced.\<close>

lemma release_simulated:
  assumes ok: "ingest_ok s" and held: "heldSlices s = add_mset buf (heldSlices s1)"
    and s1: "socks s1 = socks s" "receivers s1 = receivers s" "length (loops s1) = length (loops s)" "distinct (map fst (working s1))"
    and loops: "\<forall>k < length (loops s). loops s1 ! k = loops s ! k \<or> resultsOf (loops s1 ! k) = []"
  defines "s' \<equiv> setStore (releasePacketBuffer buf (store (socks s))) s1"
  shows "ingest_ok s'" "absIngest s' = absIngest s1"
proof -
  let ?h = "releasePacketBuffer buf (store (socks s))"
  have priv: "privateSlices (store (socks s)) (add_mset buf (heldSlices s1))" using ingest_okD(1) [OF ok] held by simp
  note rel = buffers.release_holds [OF this]
  have s1_ok: "ingest_ok s1" if "privateSlices (store (socks s1)) (heldSlices s1)"
    using that ok loops s1 by (fastforce simp: ingest_ok_def list_all_iff)
  have keep: "absLoop ?h l = absLoop (store (socks s)) l" for l
    using rel by (cases l) (simp_all add: absResult_def resultPacket_def packetValue_def)
  have "packetValue ?h p = packetValue (store (socks s)) p" for p using rel by (simp add: packetValue_def)
  with keep show "absIngest s' = absIngest s1" by (simp add: s'_def absIngest_def s1(1) Let_def)
  show "ingest_ok s'"
    unfolding ingest_ok_def
  proof (intro conjI allI impI)
    show "privateSlices (store (socks s')) (heldSlices s')" using rel by (simp add: s'_def)
  next
    fix k
    assume "k < length (loops s')"
    with ok loops s1 show "list_all (inBuffers (receivers s' ! k)) (resultsOf (loops s' ! k))"
      by (fastforce simp: ingest_ok_def s'_def)
  qed (use ok s1 in \<open>auto simp: ingest_ok_def s'_def\<close>)
qed

lemma send_simulated:
  assumes ok: "ingest_ok s" and k: "k < length (loops s)" "loops s ! k = Sending now p rest"
    and room: "length (packetChannel s) < nat (packetChannelSize cfg)"
  shows "ingest_ok (sendTurn k s) \<and> value_step cfg (absIngest s) (SendEvent k) (absIngest (sendTurn k s))"
proof -
  let ?s = "s\<lparr>packetChannel := packetChannel s @ [p]\<rparr>"
  have eq: "sendTurn k s = setLoop k (Handling now rest) ?s" using k by (simp add: sendTurn_def)
  have "heldSlices (setLoop k (Handling now rest) ?s) + {#packetBuffer p#} = heldSlices s + {#packetBuffer p#}"
    using packetSlices_setLoop [of k ?s "Handling now rest"] k by (simp add: heldSlices_def packetSlices_def ac_simps)
  then have held: "heldSlices (sendTurn k s) = heldSlices s" by (simp add: eq)
  have "ingest_ok (sendTurn k s)"
  proof (rule ok_setLoop [OF ok k(1), of _ "Handling now rest"])
    show "privateSlices (store (socks (sendTurn k s))) (heldSlices (sendTurn k s))"
      unfolding held using ingest_okD(1) [OF ok] by (simp add: eq)
    show "list_all (inBuffers (receivers s ! k)) (resultsOf (Handling now rest))"
      using ingest_okD(3) [OF ok k(1)] k(2) by (auto simp: list_all_iff)
  qed (simp_all add: eq)
  moreover have "absIngest (sendTurn k s)
      = vSetLoop k (VHandling now (map (absResult (store (socks s)) now) rest))
          ((absIngest s)\<lparr>vChannel := vChannel (absIngest s) @ [packetValue (store (socks s)) p]\<rparr>)"
    by (simp add: eq vSetLoop_def absIngest_def map_update Let_def)
  ultimately show ?thesis
    using v_send [of k "absIngest s" now "packetValue (store (socks s)) p" "map (absResult (store (socks s)) now) rest" cfg] k room by simp
qed

lemma abandon_simulated:
  assumes ok: "ingest_ok s" and k: "k < length (loops s)" "loops s ! k = Sending now p rest" and stop: "stopRequested s"
  shows "ingest_ok (stopTurn k s) \<and> value_step cfg (absIngest s)
    (AbandonEvent k (packetValue (store (socks s)) p # nonempty (map (resultPacket (store (socks s)) now) rest))) (absIngest (stopTurn k s))"
proof -
  let ?s1 = "setLoop k Returned s"
  have eq: "stopTurn k s = setStore (releasePacketBuffer (packetBuffer p) (store (socks s))) ?s1"
    using k by (simp add: stopTurn_def setLoop_def setStore_def)
  have "heldSlices ?s1 + {#packetBuffer p#} = heldSlices s"
    using packetSlices_setLoop [of k s Returned] k by (simp add: heldSlices_def ac_simps)
  then have held: "heldSlices s = add_mset (packetBuffer p) (heldSlices ?s1)" by simp
  have "loops ?s1 ! j = loops s ! j \<or> resultsOf (loops ?s1 ! j) = []" for j using k by (cases "j = k") simp_all
  then have loops: "\<forall>j < length (loops s). loops ?s1 ! j = loops s ! j \<or> resultsOf (loops ?s1 ! j) = []" by blast
  have "distinct (map fst (working ?s1))" using ok by (simp add: ingest_ok_def)
  note rel = release_simulated [OF ok held _ _ _ this loops, folded eq]
  from rel v_abandon [of k "absIngest s" now "packetValue (store (socks s)) p" "map (absResult (store (socks s)) now) rest" cfg] k stop
  show ?thesis by (simp add: comp_def absResult_def)
qed

lemma remove1_map_keys:
  "distinct (map fst xs) \<Longrightarrow> (j, p) \<in> set xs
    \<Longrightarrow> map (\<lambda>(j, p). (j, f p)) (remove1 (j, p) xs) = remove1 (j, f p) (map (\<lambda>(j, p). (j, f p)) xs)"
  by (induction xs) force+

lemma work_simulated:
  assumes ok: "ingest_ok s" and jp: "(j, p) \<in> set (working s)" and run: "workTurn cfg j p now s = Some s'"
  shows "ingest_ok s' \<and> value_step cfg (absIngest s) (WorkEvent j (packetValue (store (socks s)) p) now) (absIngest s')"
proof -
  let ?pv = "packetValue (store (socks s))"
  from run obtain l where l: "takeTurn cfg (PacketTurn j (?pv p) now) (line s) = Some l"
    and s': "s' = setStore (releasePacketBuffer (packetBuffer p) (store (socks s))) (s\<lparr>line := l, working := remove1 (j, p) (working s)\<rparr>)"
    by (auto simp: workTurn_def simp del: takeTurn.simps split: option.splits)
  let ?s1 = "s\<lparr>line := l, working := remove1 (j, p) (working s)\<rparr>"
  have dist: "distinct (map fst (working s))" using ok by (simp add: ingest_ok_def)
  have "mset (working s) = add_mset (j, p) (mset (remove1 (j, p) (working s)))" using jp by simp
  then have held: "heldSlices s = add_mset (packetBuffer p) (heldSlices ?s1)"
    by (simp add: heldSlices_def packetSlices_def del: mset_remove1)
  have "distinct (map fst (working ?s1))" using dist by (simp add: distinct_map distinct_remove1 inj_on_diff set_remove1_eq)
  note rel = release_simulated [OF ok held _ _ _ this, folded s']
  have "absIngest ?s1 = (absIngest s)\<lparr>vLine := l, vWorking := remove1 (j, ?pv p) (vWorking (absIngest s))\<rparr>"
    using remove1_map_keys [OF dist jp, of ?pv] by (simp add: absIngest_def Let_def)
  moreover have "(j, ?pv p) \<in> set (vWorking (absIngest s))" using jp by force
  ultimately show ?thesis using v_work [of j "?pv p" "absIngest s" cfg now l] l rel by (simp del: takeTurn.simps)
qed

theorem step_simulated:
  assumes "ingest_step cfg s e s'" "ingest_ok s"
  shows "ingest_ok s' \<and> value_step cfg (absIngest s) e (absIngest s')"
  using assms
proof cases
  case (read k now answers)
  with read_simulated [OF assms(2)] show ?thesis by simp
next
  case (handle k choice)
  with handle_simulated [OF assms(2)] show ?thesis by simp
next
  case (send k now p rest)
  with send_simulated [OF assms(2)] show ?thesis by simp
next
  case (abandon k now p rest)
  with abandon_simulated [OF assms(2)] show ?thesis by simp
next
  case (take_packet p rest j)
  have dist: "distinct (map fst (working s))" using assms(2) by (simp add: ingest_ok_def)
  have "ingest_ok s'" unfolding take_packet(2)
    by (rule ok_quiet [OF assms(2)]) (use dist take_packet(5) in \<open>simp_all add: heldSlices_def packetSlices_def take_packet(3) ac_simps\<close>)
  moreover have "absIngest s' = (absIngest s)\<lparr>vChannel := map (packetValue (store (socks s))) rest,
      vWorking := (j, packetValue (store (socks s)) p) # vWorking (absIngest s)\<rparr>"
    by (simp add: take_packet(2) absIngest_def Let_def)
  moreover have "value_step cfg (absIngest s) e (absIngest s')"
    unfolding take_packet(1) calculation(2)
    by (rule v_take) (use take_packet(3-5) in \<open>simp_all add: image_image case_prod_unfold\<close>)
  ultimately show ?thesis by blast
next
  case (work j p now)
  with work_simulated [OF assms(2)] show ?thesis by simp
next
  case (between t l)
  have "ingest_ok s'" unfolding between(2) by (rule ok_quiet [OF assms(2)]) (use assms(2) in \<open>simp_all add: heldSlices_def packetSlices_def ingest_ok_def\<close>)
  moreover have "betweenPackets (vWorking (absIngest s)) t"
    using between(3) by (cases t) (auto simp: image_image case_prod_unfold)
  moreover have "absIngest s' = (absIngest s)\<lparr>vLine := l\<rparr>" by (simp add: between(2) absIngest_def Let_def)
  moreover have "value_step cfg (absIngest s) e (absIngest s')"
    unfolding between(1) calculation(3) by (rule v_between) (use calculation between(3-5) in simp_all)
  ultimately show ?thesis by blast
next
  case spawn
  have "ingest_ok s'" unfolding spawn(2) by (rule ok_quiet [OF assms(2)]) (use assms(2) in \<open>simp_all add: heldSlices_def packetSlices_def ingest_ok_def\<close>)
  with spawn v_spawn [of "absIngest s" cfg] show ?thesis by (simp add: absIngest_def Let_def)
next
  case request_stop
  have "ingest_ok s'" unfolding request_stop(2) by (rule ok_quiet [OF assms(2)]) (use assms(2) in \<open>simp_all add: heldSlices_def packetSlices_def ingest_ok_def\<close>)
  with request_stop v_stop [of cfg "absIngest s"] show ?thesis by (simp add: absIngest_def Let_def)
next
  case close_sockets
  have "ingest_ok s'" unfolding close_sockets(2) by (rule ok_quiet [OF assms(2)]) (use assms(2) in \<open>simp_all add: heldSlices_def packetSlices_def ingest_ok_def\<close>)
  with close_sockets v_close [of cfg "absIngest s"] show ?thesis by (simp add: absIngest_def Let_def)
qed

lemma run_simulated:
  "ingest_run cfg s tr s' \<Longrightarrow> ingest_ok s \<Longrightarrow> ingest_ok s' \<and> value_run cfg (absIngest s) tr (absIngest s')"
proof (induction rule: ingest_run.induct)
  case (finished s)
  then show ?case by (simp add: v_finished)
next
  case (onward s e s' es s'')
  from step_simulated [OF onward(1) onward(4)] onward(3) show ?case by (blast intro: v_onward)
qed

end
