(* ===== verification/IngestGuarantees.thy ===== *)
theory IngestGuarantees
  imports Ingest Conservation
begin

text \<open>
  The guarantees of the receive path: buffers are never shared, recycling them is invisible, no
  datagram is lost between the socket and the rows of a table, and the shutdown ends with nothing
  left.  They rest on the simulation of the previous theory and on the conservation laws of the
  pipeline.
\<close>

section \<open>What a run delivers, processes and abandons\<close>

fun arrivalsOf :: "event \<Rightarrow> UDPPacket list" where
  "arrivalsOf (ReadEvent k now ds) = nonempty (map (datagramPacket now) ds)"
| "arrivalsOf _ = []"

fun processedOf :: "event \<Rightarrow> UDPPacket list" where
  "processedOf (WorkEvent j p now) = [p]"
| "processedOf _ = []"

fun abandonedOf :: "event \<Rightarrow> UDPPacket list" where
  "abandonedOf (AbandonEvent k ps) = ps"
| "abandonedOf _ = []"

fun turnsOf :: "event \<Rightarrow> turn list" where
  "turnsOf (CountEvent k (Some t)) = [t]"
| "turnsOf (WorkEvent j p now) = [PacketTurn j p now]"
| "turnsOf (TurnEvent t) = [t]"
| "turnsOf _ = []"

definition along :: "(event \<Rightarrow> 'a list) \<Rightarrow> event list \<Rightarrow> 'a list" where
  "along f tr = concat (map f tr)"

lemma along_simps [simp]: "along f [] = []" "along f (e # tr) = f e @ along f tr" "along f (tr @ tr') = along f tr @ along f tr'"
  by (simp_all add: along_def)

fun loopPackets :: "value_loop \<Rightarrow> UDPPacket list" where
  "loopPackets (VHandling now rs) = nonempty (map snd rs)"
| "loopPackets (VSending now p rs) = p # nonempty (map snd rs)"
| "loopPackets _ = []"

definition inFlight :: "value_ingest \<Rightarrow> UDPPacket multiset" where
  "inFlight v = mset (concat (map loopPackets (vLoops v))) + mset (vChannel v) + image_mset snd (mset (vWorking v))"

lemma nonempty_simps [simp]:
  "nonempty [] = []" "nonempty (p # ps) = (if Length p = 0 then nonempty ps else p # nonempty ps)"
  by (simp_all add: nonempty_def)

lemma inFlight_setLoop:
  "k < length (vLoops v) \<Longrightarrow> inFlight (vSetLoop k l v) + mset (loopPackets (vLoops v ! k)) = inFlight v + mset (loopPackets l)"
  using mset_concat_update [of k "vLoops v" loopPackets l] by (simp add: inFlight_def vSetLoop_def ac_simps)

lemma inFlight_quiet [simp]:
  "inFlight (v\<lparr>vDrops := d\<rparr>) = inFlight v" "inFlight (v\<lparr>vLine := l\<rparr>) = inFlight v"
  "inFlight (v\<lparr>vChannel := ps\<rparr>) + mset (vChannel v) = inFlight v + mset ps"
  "inFlight (v\<lparr>vWorkers := n\<rparr>) = inFlight v" "inFlight (v\<lparr>vStop := b\<rparr>) = inFlight v"
  by (simp_all add: inFlight_def ac_simps)

lemma value_step_conserves:
  assumes "value_step cfg v e v'"
  shows "inFlight v + mset (arrivalsOf e) = inFlight v' + mset (processedOf e) + mset (abandonedOf e)"
  using assms
proof cases
  case (v_read k now ds)
  with inFlight_setLoop [of k v "VHandling now (map (\<lambda>d. (datagramDrops d, datagramPacket now d)) ds)"]
  show ?thesis by (simp add: comp_def)
next
  case (v_fail k now)
  with inFlight_setLoop [of k v "if vStop v then VReturned else VReading"] show ?thesis by (auto split: if_splits)
next
  case (v_end k now)
  with inFlight_setLoop [of k v VReading] show ?thesis by simp
next
  case (v_skip k now d p rest)
  with inFlight_setLoop [of k v "VHandling now rest"] show ?thesis by simp
next
  case (v_count k now d p rest dropped drops' l)
  with inFlight_setLoop [of k "v\<lparr>vDrops := drops', vLine := l\<rparr>" "VSending now p rest"] show ?thesis by simp
next
  case (v_send k now p rest)
  with inFlight_setLoop [of k "v\<lparr>vChannel := vChannel v @ [p]\<rparr>" "VHandling now rest"] inFlight_quiet(3) [where v = v and ps = "vChannel v @ [p]"]
  show ?thesis by (simp add: ac_simps)
next
  case (v_abandon k now p rest)
  with inFlight_setLoop [of k v VReturned] show ?thesis by (simp add: ac_simps)
next
  case (v_work j p now l)
  then have "mset (vWorking v) = add_mset (j, p) (mset (remove1 (j, p) (vWorking v)))" by simp
  with v_work show ?thesis by (simp add: inFlight_def del: mset_remove1)
qed (simp_all add: inFlight_def)

lemma value_run_conserves:
  "value_run cfg v tr v' \<Longrightarrow> inFlight v + mset (along arrivalsOf tr)
    = inFlight v' + mset (along processedOf tr) + mset (along abandonedOf tr)"
proof (induction rule: value_run.induct)
  case (v_onward v e v' es v'')
  have "inFlight v + mset (along arrivalsOf (e # es)) = (inFlight v + mset (arrivalsOf e)) + mset (along arrivalsOf es)"
    by (simp add: ac_simps)
  also have "\<dots> = (inFlight v' + mset (along arrivalsOf es)) + mset (processedOf e) + mset (abandonedOf e)"
    by (simp add: value_step_conserves [OF v_onward(1)] ac_simps)
  finally show ?case by (simp add: v_onward(3) ac_simps)
qed simp

text \<open>The workers' turns, in order, are what happened to the pipeline.\<close>

lemma value_run_turns: "value_run cfg v tr v' \<Longrightarrow> takeTurns cfg (along turnsOf tr) (vLine v) = Some (vLine v')"
proof (induction rule: value_run.induct)
  case (v_onward v e v' es v'')
  have "takeTurns cfg (turnsOf e) (vLine v) = Some (vLine v')"
    using v_onward(1) by cases (simp_all add: vSetLoop_def del: takeTurn.simps)
  with v_onward(3) show ?case by (simp add: takeTurns_append)
qed simp

text \<open>Only spawned workers take turns.\<close>

definition staffed :: "collectorConfig \<Rightarrow> value_ingest \<Rightarrow> bool" where
  "staffed cfg v \<longleftrightarrow> fst ` set (vWorking v) \<subseteq> {1..int (vWorkers v)} \<and> int (vWorkers v) \<le> autoTuneMaxPacketWorkers cfg"

lemma value_step_staffed:
  assumes "value_step cfg v e v'" "staffed cfg v"
  shows "staffed cfg v' \<and> vWorkers v \<le> vWorkers v' \<and> (\<forall>t \<in> set (turnsOf e). turnWorkers t \<subseteq> {1..int (vWorkers v')})"
  using assms(1)
proof cases
  case (v_work j p now l)
  have "set (remove1 (j, p) (vWorking v)) \<subseteq> set (vWorking v)" by (rule set_remove1_subset)
  with v_work assms(2) show ?thesis by (fastforce simp: staffed_def)
qed (use assms(2) in \<open>auto simp: staffed_def vSetLoop_def vCount_def\<close>)

lemma value_run_staffed:
  "value_run cfg v tr v' \<Longrightarrow> staffed cfg v
    \<Longrightarrow> staffed cfg v' \<and> vWorkers v \<le> vWorkers v' \<and> (\<forall>t \<in> set (along turnsOf tr). turnWorkers t \<subseteq> {1..int (vWorkers v')})"
proof (induction rule: value_run.induct)
  case (v_onward v e v' es v'')
  note step = value_step_staffed [OF v_onward(1,4)]
  with v_onward(3) have "int (vWorkers v') \<le> int (vWorkers v'')" by simp
  with step v_onward(3) show ?case by fastforce
qed simp

text \<open>Every packet lies inside its buffer.\<close>

definition fits :: "UDPPacket \<Rightarrow> bool" where "fits p \<longleftrightarrow> Length p \<le> length (Buffer p)"

definition all_fit :: "value_ingest \<Rightarrow> bool" where
  "all_fit v \<longleftrightarrow> (\<forall>p \<in># inFlight v. fits p)"

lemma arrivals_fit: "p \<in> set (arrivalsOf e) \<Longrightarrow> fits p"
  by (cases e) (auto simp: nonempty_def fits_def datagramPacket_def)

lemma processed_fit:
  assumes "value_run cfg v tr v'" "all_fit v"
  shows "all_fit v' \<and> (\<forall>p \<in> set (along processedOf tr). fits p)"
proof -
  have "\<forall>p \<in> set (along arrivalsOf tr). fits p" by (auto simp: along_def dest: arrivals_fit)
  then have "\<forall>p \<in># inFlight v + mset (along arrivalsOf tr). fits p" using assms(2) by (auto simp: all_fit_def)
  then show ?thesis unfolding value_run_conserves [OF assms(1)] by (auto simp: all_fit_def)
qed

lemma turns_fit:
  assumes "value_run cfg v tr v'" "all_fit v"
  shows "packets_fit (along turnsOf tr)"
proof -
  have between: "t \<in> set (turnsOf e) \<Longrightarrow> t = PacketTurn j p now \<Longrightarrow> p \<in> set (processedOf e)" if "value_step cfg w e w'" for w e w' t j p now
    using that by cases (auto simp: vCount_def split: if_splits elim: betweenPackets.elims)
  have "t \<in> set (along turnsOf tr) \<Longrightarrow> t = PacketTurn j p now \<Longrightarrow> p \<in> set (along processedOf tr)" for t j p now
    using assms(1)
  proof (induction rule: value_run.induct)
    case (v_onward v e v' es v'')
    with between [OF v_onward(1)] show ?case by auto
  qed simp
  with processed_fit [OF assms] show ?thesis by (auto simp: packets_fit_def fits_def split: turn.splits)
qed

section \<open>The start (\<open>main\<close>)\<close>

definition zeroStats :: UDPReceiverStats where
  "zeroStats = \<lparr>statBatches = 0, statPackets = 0, statFullBatches = 0, statErrors = 0, statKernelDrops = 0\<rparr>"

definition startIngest :: "collectorConfig \<Rightarrow> udpReceiver list \<Rightarrow> sockets \<Rightarrow> pipeline \<Rightarrow> ingest" where
  "startIngest cfg rs sk l =
     \<lparr>socks = sk, receivers = rs, loops = replicate (length rs) Reading, receiverStats = replicate (length rs) zeroStats,
      packetChannel = [], working = [], workerCount = nat (packetWorkers cfg), stopRequested = False, line = l\<rparr>"

lemma start_ok:
  assumes "accounted batchSize rs sk"
  shows "ingest_ok (startIngest cfg rs sk l)"
  using accountedD(1,7) [OF assms] by (auto simp: ingest_ok_def startIngest_def heldSlices_def packetSlices_def)

lemma start_value:
  assumes "validateConfig cfg = Inr offsets"
  shows "inFlight (absIngest (startIngest cfg rs sk l)) = {#}" "all_fit (absIngest (startIngest cfg rs sk l))"
    "staffed cfg (absIngest (startIngest cfg rs sk l))" "vLine (absIngest (startIngest cfg rs sk l)) = l"
  using validateConfig_InrD(6) [OF assms] validated_positive(1) [OF assms]
  by (simp_all add: all_fit_def inFlight_def startIngest_def staffed_def)

lemma run_from_start:
  assumes "validateConfig cfg = Inr offsets" "accounted batchSize rs sk" "ingest_run cfg (startIngest cfg rs sk l) tr s"
  shows "ingest_ok s" "value_run cfg (absIngest (startIngest cfg rs sk l)) tr (absIngest s)"
    "mset (along arrivalsOf tr) = inFlight (absIngest s) + mset (along processedOf tr) + mset (along abandonedOf tr)"
    "takeTurns cfg (along turnsOf tr) l = Some (line s)" "packets_fit (along turnsOf tr)"
    "staffed cfg (absIngest s)" "\<forall>t \<in> set (along turnsOf tr). turnWorkers t \<subseteq> {1..int (workerCount s)}" "0 < workerCount s"
proof -
  note start = start_value [OF assms(1), of rs sk l]
  note sim = run_simulated [OF assms(3) start_ok [OF assms(2)]]
  then show "ingest_ok s" and run: "value_run cfg (absIngest (startIngest cfg rs sk l)) tr (absIngest s)" by simp_all
  from value_run_conserves [OF run] start(1)
  show "mset (along arrivalsOf tr) = inFlight (absIngest s) + mset (along processedOf tr) + mset (along abandonedOf tr)" by simp
  from value_run_turns [OF run] start(4) show "takeTurns cfg (along turnsOf tr) l = Some (line s)" by simp
  show "packets_fit (along turnsOf tr)" by (rule turns_fit [OF run start(2)])
  from value_run_staffed [OF run start(3)]
  show "staffed cfg (absIngest s)" "\<forall>t \<in> set (along turnsOf tr). turnWorkers t \<subseteq> {1..int (workerCount s)}" "0 < workerCount s"
    using validated_positive(1) [OF assms(1)] by (auto simp: startIngest_def)
qed

section \<open>The guarantees while it runs\<close>

text \<open>
  C17. Packet buffers are never shared.  However receivers and workers interleave and
  whichever arrays the pools hand out, no array is at the same time in two places among the
  receivers' own buffers, the packets being sent, queued or processed, and the two pools; every
  pooled array has the size of its pool; and therefore no datagram at hand makes
  \<open>acquirePacketBuffer\<close> panic.
\<close>

theorem buffers_private:
  assumes "accounted batchSize rs sk" "ingest_run cfg (startIngest cfg rs sk l) tr s"
  defines "h \<equiv> store (socks s)"
  shows "(\<forall>a. count (image_mset sliceArray (heldSlices s) + mset (packetBuffer512Pool h) + mset (packetBuffer2048Pool h)) a \<le> 1)
    \<and> (\<forall>a \<in> set (packetBuffer512Pool h). length (arrays h ! a) = 512) \<and> (\<forall>a \<in> set (packetBuffer2048Pool h). length (arrays h ! a) = 2048)
    \<and> (\<forall>k now results choice. k < length (loops s) \<longrightarrow> loops s ! k = Handling now results \<longrightarrow> handleTurn k choice s \<noteq> None)"
proof -
  have ok: "ingest_ok s" using run_simulated [OF assms(2) start_ok [OF assms(1)]] by simp
  note p = ingest_okD(1) [OF ok, folded h_def]
  have "handleTurn k choice s \<noteq> None" if "loops s ! k = Handling now results" for k now results choice
  proof (cases results)
    case (Cons r rest)
    obtain dropped s1 where o: "observeDrops k r s = (dropped, s1)" by fastforce
    then have "store (socks s1) = h" by (auto simp: observeDrops_def h_def Let_def split: if_splits prod.splits)
    moreover obtain buf h1 where "acquirePacketBuffer choice (sliceLen (resData r)) h = Some (buf, h1)"
      using buffers.acquire_holds [OF p] by blast
    ultimately show ?thesis using that Cons o by (simp add: handleTurn_def Let_def)
  qed (use that in \<open>simp add: handleTurn_def\<close>)
  with privateSlicesD(1,3,4) [OF p] show ?thesis by (auto simp: owned_def)
qed

text \<open>
  C5. Recycling buffers is invisible.  Every run of the receive path, with its
  receive buffers overwritten by each batch and its packet buffers going through the pools, is, event
  by event, a run of the specification in which each packet carries its bytes by value: what a
  worker parses is exactly the datagram as it arrived.
\<close>

theorem recycling_invisible:
  assumes "accounted batchSize rs sk" "ingest_run cfg (startIngest cfg rs sk l) tr s"
  shows "value_run cfg (absIngest (startIngest cfg rs sk l)) tr (absIngest s)"
  using run_simulated [OF assms(2) start_ok [OF assms(1)]] by simp

text \<open>
  C2. From the socket to the table nothing is lost or made up.  At any moment the
  non-empty datagrams the kernel delivered are, each as often as it arrived and with its own bytes,
  those still at a receiver, queued, or at a worker, those processed, and those a receiver gave up
  when the collector was stopped; no worker panicked; and the rows pending, queued and settled are
  exactly the rows of the packets processed.
\<close>

theorem datagrams_accounted:
  assumes "validateConfig cfg = Inr offsets" "\<not> parseOnly cfg" "accounted batchSize rs sk" "fresh_pipeline l"
    and "ingest_run cfg (startIngest cfg rs sk l) tr s"
  shows "mset (along arrivalsOf tr) = inFlight (absIngest s) + mset (along processedOf tr) + mset (along abandonedOf tr)
    \<and> takeTurns cfg (along turnsOf tr) l = Some (line s)
    \<and> pipelineTotal rowsIn [1..int (workerCount s)] (line s) = arrivedRows cfg (along turnsOf tr)"
proof -
  note r = run_from_start [OF assms(1,3,5)]
  have "\<forall>t \<in> set (along turnsOf tr). turnWorkers t \<subseteq> set [1..int (workerCount s)]" using r(7) by simp
  from run_rows(2) [OF r(4) assms(4) _ this assms(1,2)] r(3,4) show ?thesis by simp
qed

section \<open>The shutdown\<close>

text \<open>After \<open>requestStop\<close>: the stop channel and every socket are closed.\<close>

definition stopped :: "ingest \<Rightarrow> bool" where
  "stopped s \<longleftrightarrow> stopRequested s \<and> (\<forall>r \<in> set (receivers s). \<not> openConns (socks s) ! recConn r)"

text \<open>How much is left to do: a bound on the steps of receivers and of workers on their packets.\<close>

fun loopBacklog :: "loop_state \<Rightarrow> nat" where
  "loopBacklog Reading = 1"
| "loopBacklog (Handling now rs) = 2 + 4 * length rs"
| "loopBacklog (Sending now p rs) = 5 + 4 * length rs"
| "loopBacklog Returned = 0"

definition backlog :: "ingest \<Rightarrow> nat" where
  "backlog s = sum_list (map loopBacklog (loops s)) + 2 * length (packetChannel s) + length (working s)"

fun idleEvent :: "event \<Rightarrow> bool" where
  "idleEvent (TurnEvent t) = True"
| "idleEvent SpawnEvent = True"
| "idleEvent StopEvent = True"
| "idleEvent CloseEvent = True"
| "idleEvent _ = False"

lemma sum_list_update_nat:
  "k < length xs \<Longrightarrow> sum_list (map f (xs[k := x])) + f (xs ! k) = sum_list (map f xs) + (f x :: nat)"
proof (induction xs arbitrary: k)
  case (Cons y ys)
  then show ?case by (cases k) auto
qed simp

lemma backlog_setLoop: "k < length (loops s) \<Longrightarrow> backlog (setLoop k l s) + loopBacklog (loops s ! k) = backlog s + loopBacklog l"
  using sum_list_update_nat [of k "loops s" loopBacklog l] by (simp add: backlog_def)

lemma backlog_quiet [simp]: "backlog (countStats k f s) = backlog s" "backlog (setStore h s) = backlog s"
  by (simp_all add: backlog_def)

lemma observeDrops_frame:
  assumes "observeDrops k r s = (d, s1)"
  shows "loops s1 = loops s" "receivers s1 = receivers s" "packetChannel s1 = packetChannel s" "working s1 = working s"
    "openConns (socks s1) = openConns (socks s)" "stopRequested s1 = stopRequested s" "store (socks s1) = store (socks s)"
    "workerCount s1 = workerCount s"
  using assms by (auto simp: observeDrops_def Let_def split: if_splits prod.splits)

lemma handleTurn_effect:
  assumes "handleTurn k choice s = Some s'" "k < length (loops s)"
  shows "backlog s' < backlog s" "receivers s' = receivers s" "openConns (socks s') = openConns (socks s)" "stopRequested s' = stopRequested s"
proof -
  from assms(1) obtain now rs where l: "loops s ! k = Handling now rs" by (auto simp: handleTurn_def split: loop_state.splits)
  have "backlog s' < backlog s \<and> receivers s' = receivers s \<and> openConns (socks s') = openConns (socks s) \<and> stopRequested s' = stopRequested s"
  proof (cases rs)
    case Nil
    with assms l backlog_setLoop [of k s Reading] show ?thesis by (auto simp: handleTurn_def)
  next
    case (Cons r rest)
    show ?thesis
    proof (cases "sliceLen (resData r) = 0")
      case True
      with assms l Cons backlog_setLoop [of k s "Handling now rest"] show ?thesis by (auto simp: handleTurn_def)
    next
      case False
      obtain d s1 where o: "observeDrops k r s = (d, s1)" by fastforce
      note f = observeDrops_frame [OF o]
      from assms(1) l Cons False o obtain p h s2 where s': "s' = setLoop k (Sending now p rest) (setStore h s2)"
        and s2: "loops s2 = loops s1" "receivers s2 = receivers s1" "packetChannel s2 = packetChannel s1" "working s2 = working s1"
          "openConns (socks s2) = openConns (socks s1)" "stopRequested s2 = stopRequested s1"
        by (auto simp: handleTurn_def Let_def split: option.splits)
      have "backlog s2 = backlog s" by (simp add: backlog_def s2 f)
      with backlog_setLoop [of k "setStore h s2" "Sending now p rest"] assms(2) l Cons s' s2 f show ?thesis by simp
    qed
  qed
  then show "backlog s' < backlog s" "receivers s' = receivers s" "openConns (socks s') = openConns (socks s)" "stopRequested s' = stopRequested s"
    by blast+
qed

lemma readTurn_stopped:
  assumes "stopped s" "ingest_ok s" "k < length (loops s)" "loops s ! k = Reading"
  shows "backlog (readTurn cfg k answers now s) < backlog s" "stopped (readTurn cfg k answers now s)" "delivered cfg k answers s = []"
proof -
  have "receivers s ! k \<in> set (receivers s)" using assms(3) ingest_okD(2) [OF assms(2)] by simp
  with assms(1) have closed: "socketAnswers s k answers = []" by (simp add: socketAnswers_def stopped_def)
  then show "delivered cfg k answers s = []" by (simp add: delivered_def)
  obtain f h where eq: "readTurn cfg k answers now s = setLoop k Returned (countStats k f (setStore h s))"
    using assms(1) closed by (fastforce simp: readTurn_def ReadBatch_def Let_def stopped_def)
  with backlog_setLoop [of k "countStats k f (setStore h s)" Returned] assms(3,4)
  show "backlog (readTurn cfg k answers now s) < backlog s" by simp
  from assms(1) show "stopped (readTurn cfg k answers now s)" by (simp add: eq stopped_def)
qed

lemma closeUDPReceivers_stay: "\<not> openConns sk ! c \<Longrightarrow> \<not> openConns (closeUDPReceivers qs sk) ! c"
proof (induction qs arbitrary: sk)
  case (Cons q qs)
  have "\<not> openConns (closeUDPReceiver q sk) ! c"
    using Cons.prems
    by (cases "recConn q = c"; cases "c < length (openConns sk)") (simp_all add: closeUDPReceiver_def list_update_beyond)
  with Cons.IH show ?case by (simp add: closeUDPReceivers_def)
qed (simp add: closeUDPReceivers_def)

lemma stopped_step:
  assumes "ingest_step cfg s e s'" "stopped s" "ingest_ok s"
  shows "stopped s' \<and> arrivalsOf e = [] \<and> (if idleEvent e then backlog s' = backlog s else backlog s' < backlog s)"
  using assms(1)
proof cases
  case (read k now answers)
  with readTurn_stopped [OF assms(2,3)] show ?thesis by simp
next
  case (handle k choice)
  from handleTurn_effect [OF handle(3,2)] assms(2) handle(1) show ?thesis by (simp add: stopped_def)
next
  case (send k now p rest)
  with backlog_setLoop [of k "s\<lparr>packetChannel := packetChannel s @ [p]\<rparr>" "Handling now rest"] assms(2)
  show ?thesis by (simp add: sendTurn_def stopped_def) (simp add: backlog_def)
next
  case (abandon k now p rest)
  with backlog_setLoop [of k "setStore (releasePacketBuffer (packetBuffer p) (store (socks s))) s" Returned] assms(2)
  show ?thesis by (simp add: stopTurn_def stopped_def)
next
  case (take_packet p rest j)
  with assms(2) show ?thesis by (simp add: stopped_def backlog_def)
next
  case (work j p now)
  then have "0 < length (working s)" "(j, p) \<in> set (working s)" by (auto intro: length_pos_if_in_set)
  then have "length (remove1 (j, p) (working s)) < length (working s)" by (simp add: length_remove1)
  with work assms(2) show ?thesis
    by (auto simp: workTurn_def stopped_def backlog_def simp del: takeTurn.simps split: option.splits)
next
  case close_sockets
  have "\<not> openConns (closeUDPReceivers (receivers s) (socks s)) ! c" if "\<not> openConns (socks s) ! c" for c
    using that by (rule closeUDPReceivers_stay)
  with close_sockets assms(2) show ?thesis by (simp add: stopped_def backlog_def)
qed (use assms(2) in \<open>simp_all add: stopped_def backlog_def\<close>)

lemma work_possible:
  assumes "(j, p) \<in> set (working s)" "fits (packetValue (store (socks s)) p)"
  shows "\<exists>s'. workTurn cfg j p now s = Some s'"
proof -
  let ?t = "PacketTurn j (packetValue (store (socks s)) p) now"
  have "packets_fit [?t]" using assms(2) by (simp add: packets_fit_def fits_def)
  from turns_never_panic [OF this, of cfg "line s"] obtain l where "takeTurn cfg ?t (line s) = Some l"
    by (auto simp del: takeTurn.simps split: Option.bind_splits)
  then show ?thesis by (simp add: workTurn_def del: takeTurn.simps)
qed

lemma working_fits: "all_fit (absIngest s) \<Longrightarrow> (j, p) \<in> set (working s) \<Longrightarrow> fits (packetValue (store (socks s)) p)"
  by (force simp: all_fit_def inFlight_def)

text \<open>While anything is left, some receiver or worker can go on with it.\<close>

lemma progress:
  assumes "ingest_ok s" "stopped s" "all_fit (absIngest s)" "0 < workerCount s" "0 < backlog s"
  shows "\<exists>e s'. ingest_step cfg s e s' \<and> \<not> idleEvent e"
proof -
  consider (loop) k where "k < length (loops s)" "loops s ! k \<noteq> Returned" | (busy) j p where "(j, p) \<in> set (working s)"
    | (queued) p rest where "packetChannel s = p # rest" "working s = []"
  proof -
    have "(\<exists>l \<in> set (loops s). l \<noteq> Returned) \<or> packetChannel s \<noteq> [] \<or> working s \<noteq> []"
    proof (rule ccontr)
      assume none: "\<not> ?thesis"
      then have "sum_list (map loopBacklog (loops s)) = 0" by (simp add: sum_list_eq_0_iff) (metis loopBacklog.simps(4))
      with none assms(5) show False by (simp add: backlog_def)
    qed
    then show ?thesis using that by (cases "working s"; cases "packetChannel s") (auto simp: in_set_conv_nth)
  qed
  then show ?thesis
  proof cases
    case loop
    show ?thesis
    proof (cases "loops s ! k")
      case Reading
      from ingest_step.read [OF loop(1) this] show ?thesis by fastforce
    next
      case (Handling now rs)
      have "\<exists>s'. handleTurn k None s = Some s'"
      proof (cases rs)
        case (Cons r rest)
        obtain d s1 where o: "observeDrops k r s = (d, s1)" by fastforce
        obtain buf h1 where "acquirePacketBuffer None (sliceLen (resData r)) (store (socks s)) = Some (buf, h1)"
          using buffers.acquire_holds [OF ingest_okD(1) [OF assms(1)]] by blast
        with Handling Cons o observeDrops_frame(7) [OF o] show ?thesis by (simp add: handleTurn_def Let_def)
      qed (use Handling in \<open>simp add: handleTurn_def\<close>)
      then obtain s' where "handleTurn k None s = Some s'" by blast
      from ingest_step.handle [OF loop(1) this] show ?thesis by fastforce
    next
      case (Sending now p rs)
      from ingest_step.abandon [OF loop(1) this] assms(2) show ?thesis by (fastforce simp: stopped_def)
    qed (use loop in simp)
  next
    case busy
    then obtain s' where "workTurn cfg j p (\<lambda>_. 0) s = Some s'"
      using work_possible working_fits [OF assms(3)] by blast
    from ingest_step.work [OF busy this] show ?thesis by fastforce
  next
    case queued
    then have "ingest_step cfg s (TakeEvent 1) (s\<lparr>packetChannel := rest, working := (1, p) # working s\<rparr>)"
      using assms(4) by (intro ingest_step.take_packet) auto
    then show ?thesis by fastforce
  qed
qed

lemma run_append: "ingest_run cfg s tr s' \<Longrightarrow> ingest_run cfg s' tr' s'' \<Longrightarrow> ingest_run cfg s (tr @ tr') s''"
  by (induction rule: ingest_run.induct) (auto intro: ingest_run.intros)

lemma run_workers:
  assumes "ingest_run cfg s tr s'"
  shows "workerCount s \<le> workerCount s'"
  using assms
proof (induction rule: ingest_run.induct)
  case (onward s e s' es s'')
  from onward(1) have "workerCount s \<le> workerCount s'"
  proof cases
    case (handle k choice)
    then show ?thesis
      by (auto simp: handleTurn_def Let_def observeDrops_frame(8) split: loop_state.splits list.splits if_splits prod.splits option.splits)
  qed (auto simp: readTurn_def sendTurn_def stopTurn_def workTurn_def Let_def simp del: takeTurn.simps
      split: sum.splits prod.splits loop_state.splits option.splits)
  with onward(3) show ?case by simp
qed simp

lemma wind_down:
  assumes "ingest_ok s" "stopped s" "all_fit (absIngest s)" "0 < workerCount s"
  shows "\<exists>tr s'. ingest_run cfg s tr s' \<and> backlog s' = 0 \<and> stopped s' \<and> along arrivalsOf tr = []"
  using assms
proof (induction "backlog s" arbitrary: s rule: less_induct)
  case less
  show ?case
  proof (cases "backlog s = 0")
    case True
    with less.prems(2) show ?thesis by (intro exI [of _ "[]"] exI [of _ s]) (simp add: ingest_run.finished)
  next
    case False
    then obtain e s1 where step: "ingest_step cfg s e s1" "\<not> idleEvent e" using progress [OF less.prems] by blast
    note st = stopped_step [OF step(1) less.prems(2,1)] step_simulated [OF step(1) less.prems(1)]
    have one: "ingest_run cfg s [e] s1" by (rule ingest_run.onward [OF step(1) ingest_run.finished])
    have fit: "all_fit (absIngest s1)"
      using processed_fit [OF v_onward [OF conjunct2 [OF st(2)] v_finished] less.prems(3)] by simp
    have "0 < workerCount s1" using run_workers [OF one] less.prems(4) by simp
    with less.hyps [of s1] st step(2) fit obtain tr s' where
      "ingest_run cfg s1 tr s'" "backlog s' = 0" "stopped s'" "along arrivalsOf tr = []" by auto
    with step(1) st(1) show ?thesis by (intro exI [of _ "e # tr"] exI [of _ s']) (auto intro: ingest_run.onward)
  qed
qed

lemma backlog_zero: "backlog s = 0 \<Longrightarrow> set (loops s) \<subseteq> {Returned} \<and> packetChannel s = [] \<and> working s = []"
proof -
  assume none: "backlog s = 0"
  then have "loopBacklog l = 0" if "l \<in> set (loops s)" for l using that by (auto simp: backlog_def)
  then have "l = Returned" if "l \<in> set (loops s)" for l using that by (cases l) force+
  with none show ?thesis by (auto simp: backlog_def)
qed

text \<open>Turns of idle workers and insert workers, as steps.\<close>

lemma lift_turns:
  "takeTurns cfg ts (line s) = Some l \<Longrightarrow> \<forall>t \<in> set ts. betweenPackets (working s) t \<and> turnWorkers t \<subseteq> {1..int (workerCount s)}
    \<Longrightarrow> ingest_run cfg s (map TurnEvent ts) (s\<lparr>line := l\<rparr>)"
proof (induction ts arbitrary: s)
  case Nil
  then have "s\<lparr>line := l\<rparr> = s" by (cases s) simp
  then show ?case by (simp add: ingest_run.finished)
next
  case (Cons t ts)
  from Cons.prems(1) obtain l1 where 1: "takeTurn cfg t (line s) = Some l1" "takeTurns cfg ts l1 = Some l"
    by (auto simp del: takeTurn.simps split: Option.bind_splits)
  from Cons.prems(2) have "ingest_step cfg s (TurnEvent t) (s\<lparr>line := l1\<rparr>)" by (intro ingest_step.between 1) auto
  moreover from Cons.IH [of "s\<lparr>line := l1\<rparr>"] 1(2) Cons.prems(2)
  have "ingest_run cfg (s\<lparr>line := l1\<rparr>) (map TurnEvent ts) (s\<lparr>line := l\<rparr>)" by simp
  ultimately show ?case by (auto intro: ingest_run.onward)
qed

text \<open>
  C18. The stop phase terminates.  Once the collector has been asked to stop and its
  sockets are closed, no datagram arrives any more and every step of a receiver or of a worker on a
  packet reduces the backlog, which bounds how many such steps can still happen; flushes, inserts and
  the supervisor's new workers leave it alone; and while it is not zero some such step is possible,
  so the only end is with every receiver returned, the channel empty and no worker busy.
\<close>

theorem stop_terminates:
  assumes "validateConfig cfg = Inr offsets" "accounted batchSize rs sk" "ingest_run cfg (startIngest cfg rs sk l) tr s" "stopped s"
  shows "(\<forall>e s'. ingest_step cfg s e s' \<longrightarrow> stopped s' \<and> arrivalsOf e = []
        \<and> (if idleEvent e then backlog s' = backlog s else backlog s' < backlog s))
    \<and> (backlog s > 0 \<longrightarrow> (\<exists>e s'. ingest_step cfg s e s' \<and> \<not> idleEvent e))
    \<and> (backlog s = 0 \<longrightarrow> set (loops s) \<subseteq> {Returned} \<and> packetChannel s = [] \<and> working s = [])"
proof (intro conjI allI impI)
  note r = run_from_start [OF assms(1-3)]
  have fit: "all_fit (absIngest s)" using processed_fit [OF r(2) start_value(2) [OF assms(1)]] by simp
  show "\<exists>e s'. ingest_step cfg s e s' \<and> \<not> idleEvent e" if "0 < backlog s"
    by (rule progress [OF r(1) assms(4) fit r(8) that])
  fix e s'
  assume "ingest_step cfg s e s'"
  note st = stopped_step [OF this assms(4) r(1)]
  from st show "stopped s'" "arrivalsOf e = []" "if idleEvent e then backlog s' = backlog s else backlog s' < backlog s" by simp_all
qed (use backlog_zero in blast)+

lemma nothing_in_flight:
  assumes "set (loops s) \<subseteq> {Returned} \<and> packetChannel s = [] \<and> working s = []"
  shows "inFlight (absIngest s) = {#}"
proof -
  have "concat (map loopPackets (map (absLoop (store (socks s))) (loops s))) = []"
    using assms by auto
  then show ?thesis by (simp add: inFlight_def assms)
qed

text \<open>With nobody at work, one flush per worker and one insert per batch empty the line.\<close>

lemma flush_and_drain:
  assumes "0 < insertMaxRetries cfg" "working s = []"
  shows "\<exists>ts l. ingest_run cfg s (map TurnEvent ts) (s\<lparr>line := l\<rparr>) \<and> batches (shared l) = []
    \<and> (\<forall>k \<in> {1..int (workerCount s)}. idleWorker l k)"
proof -
  define orders where "orders = map (\<lambda>k. (k, [] :: string list)) [1..int (workerCount s)]"
  obtain l2 where 2: "takeTurns cfg (flushTurns orders) (line s) = Some l2"
    using turns_never_panic [of "flushTurns orders" cfg "line s"] by (auto simp: flushTurns_def orders_def packets_fit_def)
  let ?inserts = "replicate (length (batches (shared l2))) InsertTurn"
  obtain l3 where 3: "takeTurns cfg ?inserts l2 = Some l3"
    and empty: "batches (shared l3) = []" "workerPending l3 = workerPending l2" using drain [OF assms(1)] by blast
  have "takeTurns cfg (flushTurns orders @ ?inserts) (line s) = Some l3" by (simp add: takeTurns_append 2 3)
  then have "ingest_run cfg s (map TurnEvent (flushTurns orders @ ?inserts)) (s\<lparr>line := l3\<rparr>)"
    by (rule lift_turns) (auto simp: flushTurns_def orders_def assms(2))
  moreover have "idleWorker l3 k" if "k \<in> {1..int (workerCount s)}" for k
  proof -
    have "k \<in> fst ` set orders" using that by (force simp: orders_def)
    with flushTurns_idle [OF 2] have "idleWorker l2 k" by blast
    then show ?thesis by (simp add: idleWorker_def empty(2))
  qed
  ultimately show ?thesis using empty(1) by blast
qed

text \<open>
  C6. The orderly shutdown of \<open>main\<close> leaves nothing behind.  From any moment after the
  stop request and the closing of the sockets the collector can run to its end: the receivers return,
  the workers empty the packet channel and flush, the insert workers empty theirs.  Then nothing is
  in flight or pending, every datagram ever delivered was processed or was given up by a receiver
  that was waiting to send it, and the batches that left (inserted, spooled, or reported lost) hold
  exactly the rows of the packets processed.
\<close>

theorem clean_stop:
  assumes "validateConfig cfg = Inr offsets" "\<not> parseOnly cfg" "accounted batchSize rs sk" "fresh_pipeline l"
    and "ingest_run cfg (startIngest cfg rs sk l) tr s" "stopped s"
  shows "\<exists>tr' s'. ingest_run cfg s tr' s' \<and> set (loops s') \<subseteq> {Returned} \<and> packetChannel s' = [] \<and> working s' = []
    \<and> batches (shared (line s')) = [] \<and> (\<forall>k \<in> {1..int (workerCount s')}. idleWorker (line s') k)
    \<and> mset (along arrivalsOf tr) = mset (along processedOf (tr @ tr')) + mset (along abandonedOf (tr @ tr'))
    \<and> batchesTotal rowsIn (map snd (outcomes (shared (line s')))) = arrivedRows cfg (along turnsOf (tr @ tr'))"
proof -
  note r = run_from_start [OF assms(1,3,5)]
  have fit: "all_fit (absIngest s)" using processed_fit [OF r(2) start_value(2) [OF assms(1)]] by simp
  obtain tr1 s1 where 1: "ingest_run cfg s tr1 s1" "backlog s1 = 0" "along arrivalsOf tr1 = []"
    using wind_down [OF r(1) assms(6) fit r(8)] by blast
  note done1 = backlog_zero [OF 1(2)]
  have retries: "0 < insertMaxRetries cfg" using validated_positive [OF assms(1)] by simp
  obtain last l3 where final: "ingest_run cfg s1 (map TurnEvent last) (s1\<lparr>line := l3\<rparr>)"
    and empty: "batches (shared l3) = []" and idle: "\<forall>k \<in> {1..int (workerCount s1)}. idleWorker l3 k"
    using flush_and_drain [OF retries done1 [THEN conjunct2, THEN conjunct2]] by blast
  define ids where "ids = [1..int (workerCount s1)]"
  let ?tr' = "tr1 @ map TurnEvent last" and ?s' = "s1\<lparr>line := l3\<rparr>"
  have run: "ingest_run cfg s ?tr' ?s'" by (rule run_append [OF 1(1) final])
  note r' = run_from_start [OF assms(1,3) run_append [OF assms(5) run]]
  have quiet: "along arrivalsOf (map TurnEvent last) = []" by (simp add: along_def)
  have "inFlight (absIngest ?s') = {#}" using done1 by (intro nothing_in_flight) simp
  with r'(3) quiet 1(3) have accounts: "mset (along arrivalsOf tr)
      = mset (along processedOf (tr @ ?tr')) + mset (along abandonedOf (tr @ ?tr'))" by simp
  have "\<forall>t \<in> set (along turnsOf (tr @ ?tr')). turnWorkers t \<subseteq> set ids" using r'(7) by (simp add: ids_def)
  note rows = run_rows(1,2) [OF r'(4) assms(4) _ this assms(1,2)]
  have "(\<Sum>k\<leftarrow>ids. pendingTotal rowsIn (workerPending l3 k)) = 0"
    using idle rows(1) by (intro zero_sum) (auto simp: ids_def intro!: idle_total)
  with rows(2) have "batchesTotal rowsIn (map snd (outcomes (shared l3))) = arrivedRows cfg (along turnsOf (tr @ ?tr'))"
    by (simp add: pipelineTotal_def sharedTotal_def empty ids_def)
  with run done1 empty idle accounts show ?thesis
    by (intro exI [of _ ?tr'] exI [of _ ?s']) simp
qed

section \<open>A run\<close>

text \<open>One receiver with one buffer, and one legacy packet.\<close>

definition exampleReceiver :: udpReceiver where
  "exampleReceiver = \<lparr>recConn = 0, ownsConn = True, recBuffers = [\<lparr>sliceArray = 0, sliceLen = udpBufferSize\<rparr>], dropTracker = 0\<rparr>"

definition exampleSockets :: sockets where
  "exampleSockets = \<lparr>openConns = [True], dropStates = [0],
     store = \<lparr>arrays = [replicate udpBufferSize 0], packetBuffer512Pool = [], packetBuffer2048Pool = []\<rparr>, sysAnswers = []\<rparr>"

definition exampleDatagram :: datagram where
  "exampleDatagram = \<lparr>payload = replicate 42 1, sourceAddr = (10, 0, 0, 1), sourcePort = (8, 7), controlMessages = Some [(1, 40, [3, 0, 0, 0])]\<rparr>"

lemma example_accounted: "accounted 1 [exampleReceiver] exampleSockets"
  by (simp add: accounted_def exampleReceiver_def exampleSockets_def privateSlices_def owned_def sliceCap_def)

definition exampleStart :: ingest where
  "exampleStart = startIngest (loadConfig 8 emptyEnv) [exampleReceiver] exampleSockets (newPipeline example_collector)"

definition exampleRead :: ingest where
  "exampleRead = readTurn (loadConfig 8 emptyEnv) 0 [Errno EAGAIN, Messages [exampleDatagram]] 1753142399000000000 exampleStart"

lemma example_batch: "udpBatchSize (loadConfig 8 emptyEnv) = 64" by (simp add: loadConfig_def Let_def)

lemma example_delivered:
  "delivered (loadConfig 8 emptyEnv) 0 [Errno EAGAIN, Messages [exampleDatagram]] exampleStart = [exampleDatagram]"
  by (simp add: delivered_def socketAnswers_def exampleStart_def startIngest_def exampleSockets_def exampleReceiver_def example_batch)

lemma example_run:
  "ingest_run (loadConfig 8 emptyEnv) exampleStart [ReadEvent 0 1753142399000000000 [exampleDatagram]] exampleRead"
proof -
  have "0 < length (loops exampleStart)" "loops exampleStart ! 0 = Reading" by (simp_all add: exampleStart_def startIngest_def)
  from ingest_step.read [OF this, of "loadConfig 8 emptyEnv" 1753142399000000000 "[Errno EAGAIN, Messages [exampleDatagram]]"]
  show ?thesis unfolding exampleRead_def example_delivered by (rule ingest_run.onward [OF _ ingest_run.finished])
qed

lemma example_handling: "\<exists>r. loops exampleRead = [Handling 1753142399000000000 [r]] \<and> workerCount exampleRead = 6"
  by (simp add: exampleRead_def readTurn_def ReadBatch_def socketAnswers_def exampleStart_def startIngest_def exampleSockets_def
      exampleReceiver_def recvmmsg_def example_batch setLoop_def countStats_def setStore_def default_workers Let_def)

lemma example_stopped:
  "\<exists>s. ingest_run (loadConfig 8 emptyEnv) exampleStart [ReadEvent 0 1753142399000000000 [exampleDatagram], StopEvent, CloseEvent] s
    \<and> stopped s \<and> 0 < backlog s"
proof -
  let ?stop = "exampleRead\<lparr>stopRequested := True\<rparr>"
  let ?s = "?stop\<lparr>socks := closeUDPReceivers (receivers ?stop) (socks ?stop)\<rparr>"
  have more: "ingest_run (loadConfig 8 emptyEnv) exampleRead [StopEvent, CloseEvent] ?s"
    by (rule ingest_run.onward [OF ingest_step.request_stop ingest_run.onward [OF ingest_step.close_sockets ingest_run.finished]]) simp
  have "receivers exampleRead = [exampleReceiver]" "openConns (socks exampleRead) = [True]"
    by (simp_all add: exampleRead_def readTurn_def exampleStart_def startIngest_def exampleSockets_def Let_def split: prod.split sum.split)
  then have "stopped ?s"
    by (simp add: stopped_def closeUDPReceivers_def closeUDPReceiver_def exampleReceiver_def)
  moreover have "0 < backlog ?s" using example_handling by (auto simp: backlog_def)
  ultimately show ?thesis using run_append [OF example_run more] by auto
qed

lemmas example_facts = default_validates [of 8, THEN conjunct1] example_assumptions(2) example_accounted example_assumptions(3)

theorem buffers_private_witness:
  "\<exists>s r. ingest_run (loadConfig 8 emptyEnv) exampleStart [ReadEvent 0 1753142399000000000 [exampleDatagram]] s
    \<and> loops s = [Handling 1753142399000000000 [r]] \<and> handleTurn 0 (Some 7) s \<noteq> None"
  using buffers_private [OF example_accounted example_run [unfolded exampleStart_def]] example_run example_handling by auto

theorem recycling_invisible_witness:
  "\<exists>v. value_run (loadConfig 8 emptyEnv) (absIngest exampleStart) [ReadEvent 0 1753142399000000000 [exampleDatagram]] v"
  using recycling_invisible [OF example_accounted example_run [unfolded exampleStart_def], folded exampleStart_def] by blast

lemma example_arrival:
  "along arrivalsOf [ReadEvent 0 now [exampleDatagram]] = [datagramPacket now exampleDatagram]"
  by (simp add: datagramPacket_def exampleDatagram_def udpBufferSize_def maxUDPPacketSize_def)

theorem datagrams_accounted_witness:
  "inFlight (absIngest exampleRead) = {#datagramPacket 1753142399000000000 exampleDatagram#}"
  using datagrams_accounted [OF example_facts example_run [unfolded exampleStart_def]] by (simp add: example_arrival [simplified])

theorem stop_terminates_witness:
  "\<exists>tr s. ingest_run (loadConfig 8 emptyEnv) exampleStart tr s \<and> stopped s \<and> 0 < backlog s
    \<and> (\<exists>e s'. ingest_step (loadConfig 8 emptyEnv) s e s' \<and> backlog s' < backlog s)"
proof -
  obtain s where s: "ingest_run (loadConfig 8 emptyEnv) exampleStart [ReadEvent 0 1753142399000000000 [exampleDatagram], StopEvent, CloseEvent] s"
    "stopped s" "0 < backlog s" using example_stopped by blast
  note t = stop_terminates [OF example_facts(1,3) s(1) [unfolded exampleStart_def] s(2)]
  from t s(3) obtain e s' where e: "ingest_step (loadConfig 8 emptyEnv) s e s'" "\<not> idleEvent e" by blast
  with t have "backlog s' < backlog s" by auto
  with e s show ?thesis by blast
qed

theorem clean_stop_witness:
  "\<exists>tr s. ingest_run (loadConfig 8 emptyEnv) exampleStart tr s \<and> packetChannel s = [] \<and> working s = []
    \<and> batches (shared (line s)) = []"
proof -
  obtain s where s: "ingest_run (loadConfig 8 emptyEnv) exampleStart [ReadEvent 0 1753142399000000000 [exampleDatagram], StopEvent, CloseEvent] s"
    "stopped s" using example_stopped by blast
  from clean_stop [OF example_facts s(1) [unfolded exampleStart_def] s(2)] run_append [OF s(1)] show ?thesis by blast
qed

end
