(* ===== verification/CollectorStart.thy ===== *)
theory CollectorStart
  imports IngestGuarantees AlertStart
begin

text \<open>
  The start of the collector (\<open>main\<close> in \<open>main.go\<close>), from the validated configuration to the running
  goroutines: the spool directories, the alert manager, which may fail without stopping the
  collector, the receivers, and the state in which workers and receivers start.
\<close>

section \<open>The start\<close>

definition ensureFailedSpoolDirs :: "string \<Rightarrow> spool_file world \<Rightarrow> string option \<times> spool_file world" where
  "ensureFailedSpoolDirs base w = makeDirectories [joinPath base ''open'', joinPath base ''done''] w"

text \<open>
  The alert manager, the tracker the workers share, and the alert configuration after the attempt.
\<close>

definition startAlerting :: "(string \<Rightarrow> bool) \<Rightarrow> (string \<Rightarrow> (string \<times> string) option) \<Rightarrow> string option \<Rightarrow> collectorConfig
    \<Rightarrow> alert_file world \<Rightarrow> (alertManager option \<times> cohortTracker option \<times> AlertConfig) \<times> alert_file world" where
  "startAlerting parseIP urlParse hostName cfg aw =
     (let alerting = alertConfig cfg in
      if \<not> cfgEnabled alerting then ((None, None, alerting), aw)
      else let alertCohorts = newCohortTracker (udpReceivers cfg + autoTuneMaxPacketWorkers cfg + 1) (alertCohortRetention alerting)
      in case newAlertManager parseIP urlParse hostName alerting aw of
           (Inl e, aw) \<Rightarrow> ((None, None, alerting\<lparr>cfgEnabled := False\<rparr>), aw)
         | (Inr alerts, aw) \<Rightarrow> ((alerts, Some alertCohorts, alerting), aw))"

definition newCollector :: "spool_file world \<Rightarrow> cohortTracker option \<Rightarrow> int list \<Rightarrow> (int \<times> bool) list \<Rightarrow> string option list \<Rightarrow> collector" where
  "newCollector w alertCohorts nanos channel answers =
     \<lparr>spoolDisk = w, clock = nanos, tracker = alertCohorts, totals = (\<lambda>_. 0), batches = [], channelAnswers = channel,
      createdTables = [], httpAnswers = answers, served = [], outcomes = []\<rparr>"

record collectorRun =
  runningIngest :: ingest
  runningAlerts :: "alertManager option"
  runningAlertConfig :: AlertConfig

datatype collector_fatal = ConfigRejected config_error | SpoolDirectoryFailed string | ReceiversFailed UdpReceiver.start_error

text \<open>
  \<open>order\<close> is the order in which the map of alert states is walked at the start; \<open>nanos\<close>, \<open>channel\<close>
  and \<open>answers\<close> are what the clock, the batch channel and ClickHouse will answer.
\<close>

definition startCollector :: "(string \<Rightarrow> bool) \<Rightarrow> (string \<Rightarrow> (string \<times> string) option) \<Rightarrow> string option \<Rightarrow> string list
    \<Rightarrow> int list \<Rightarrow> (int \<times> bool) list \<Rightarrow> string option list \<Rightarrow> collectorConfig
    \<Rightarrow> spool_file world \<times> alert_file world \<times> sockets
    \<Rightarrow> (collector_fatal + collectorRun) \<times> spool_file world \<times> alert_file world \<times> sockets" where
  "startCollector parseIP urlParse hostName order nanos channel answers cfg = (\<lambda>(w, aw, sk).
     case validateConfig cfg of Inl e \<Rightarrow> (Inl (ConfigRejected e), w, aw, sk)
     | Inr offsets \<Rightarrow>
         (let (missing, w) = (if parseOnly cfg then (None, w) else ensureFailedSpoolDirs (failedSpoolBase cfg) w)
          in case missing of Some dir \<Rightarrow> (Inl (SpoolDirectoryFailed dir), w, aw, sk)
          | None \<Rightarrow>
              (let ((alerts, alertCohorts, alerting), aw) = startAlerting parseIP urlParse hostName cfg aw;
                   (opened, sk) = openReceivers cfg offsets sk
               in case opened of Inl e \<Rightarrow> (Inl (ReceiversFailed e), w, aw, sk)
               | Inr rs \<Rightarrow>
                   (let alerts = map_option (startAlerts writeJSONAtomically safeFileToken order) alerts;
                        aw = (case alerts of None \<Rightarrow> aw | Some m \<Rightarrow> disk m)
                    in (Inr \<lparr>runningIngest = startIngest cfg rs sk (newPipeline (newCollector w alertCohorts nanos channel answers)),
                             runningAlerts = alerts, runningAlertConfig = alerting\<rparr>, w, aw, sk)))))"

section \<open>Every start is clean or complete\<close>

lemma startAlerting_agrees:
  assumes "startAlerting parseIP urlParse hostName cfg aw = ((alerts, cohorts, alerting), aw')"
  shows "(alerts = None \<longleftrightarrow> cohorts = None) \<and> (cfgEnabled alerting \<longleftrightarrow> alerts \<noteq> None)"
proof (cases "cfgEnabled (alertConfig cfg)")
  case True
  obtain r aw1 where 1: "newAlertManager parseIP urlParse hostName (alertConfig cfg) aw = (r, aw1)" by fastforce
  have "r \<noteq> Inr None" using 1 True unfolding newAlertManager_def Let_def
    by (auto split: option.splits prod.splits if_splits)
  with assms 1 True show ?thesis by (auto simp: startAlerting_def Let_def split: sum.splits)
next
  case False
  with assms show ?thesis by (simp add: startAlerting_def Let_def)
qed

text \<open>
  C19. Every start of the collector is clean or complete, whatever fails.  It ends with
  an error and no open socket; or it runs with as many receivers as configured, whose buffers are
  private and whose sockets the shutdown can close, with every loop about to read, nothing in flight
  and as many workers as configured, and with the cohort tracker, the alert manager and the enabled
  flag either all present or all absent.
\<close>

theorem collector_starts:
  assumes "startCollector parseIP urlParse hostName order nanos channel answers cfg (w, aw, sk) = (res, w', aw', sk')"
    and "accounted (udpBatchSize cfg) [] sk"
  shows "case res of
      Inl e \<Rightarrow> True \<notin> set (openConns sk')
    | Inr run \<Rightarrow> (let s = runningIngest run in
          int (length (receivers s)) = udpReceivers cfg \<and> accounted (udpBatchSize cfg) (receivers s) (socks s)
          \<and> True \<notin> set (openConns (closeUDPReceivers (receivers s) (socks s)))
          \<and> loops s = replicate (length (receivers s)) Reading \<and> packetChannel s = [] \<and> working s = []
          \<and> int (workerCount s) = packetWorkers cfg \<and> \<not> stopRequested s
          \<and> (tracker (shared (line s)) = None \<longleftrightarrow> runningAlerts run = None)
          \<and> (cfgEnabled (runningAlertConfig run) \<longleftrightarrow> runningAlerts run \<noteq> None))"
proof -
  have closed: "True \<notin> set (openConns sk)"
    using all_closed [OF assms(2)] by (simp add: closeUDPReceivers_def)
  show ?thesis
  proof (cases "validateConfig cfg")
    case (Inl e)
    with assms(1) closed show ?thesis by (auto simp: startCollector_def)
  next
    case (Inr offsets)
    obtain missing w1 where 1: "(if parseOnly cfg then (None, w) else ensureFailedSpoolDirs (failedSpoolBase cfg) w) = (missing, w1)"
      by fastforce
    obtain alerts cohorts alerting aw1 where 2: "startAlerting parseIP urlParse hostName cfg aw = ((alerts, cohorts, alerting), aw1)"
      by (metis prod_cases3 surj_pair)
    obtain opened sk1 where 3: "openReceivers cfg offsets sk = (opened, sk1)" by fastforce
    note o = receivers_open_or_clean [OF Inr assms(2) 3] and a = startAlerting_agrees [OF 2]
    show ?thesis
    proof (cases missing)
      case (Some dir)
      with assms(1) closed Inr 1 show ?thesis by (auto simp: startCollector_def)
    next
      case None
      have run: "(case opened of Inl e \<Rightarrow> (Inl (ReceiversFailed e), w1, aw1, sk1)
          | Inr rs \<Rightarrow> (let alerts = map_option (startAlerts writeJSONAtomically safeFileToken order) alerts;
                         aw = (case alerts of None \<Rightarrow> aw1 | Some m \<Rightarrow> disk m)
             in (Inr \<lparr>runningIngest = startIngest cfg rs sk1 (newPipeline (newCollector w1 cohorts nanos channel answers)),
                     runningAlerts = alerts, runningAlertConfig = alerting\<rparr>, w1, aw, sk1))) = (res, w', aw', sk')"
        using assms(1) Inr 1 2 3 None by (simp add: startCollector_def)
      have pos: "0 < packetWorkers cfg" using validated_positive [OF Inr] by simp
      show ?thesis
      proof (cases opened)
        case (Inl e)
        with run o show ?thesis by auto
      next
        case (Inr rs)
        with run o a pos show ?thesis
          by (auto simp: Let_def startIngest_def newPipeline_def newCollector_def)
      qed
    qed
  qed
qed

section \<open>Alerting fails open\<close>

text \<open>
  A failure to build the alert manager (a bad server address, no host name, a
  directory that cannot be created, a torn state file, a refused sink) never keeps the collector from
  running: the start ends exactly as that of the same configuration with alerting switched off, with
  the same receivers, the same workers, no cohort tracker, and the alert files as they were.
\<close>

lemma other_alerts:
  fixes cfg :: collectorConfig and alerting :: AlertConfig
  defines "off \<equiv> cfg\<lparr>alertConfig := alerting\<rparr>"
  shows "validateConfig cfg = Inr offsets \<Longrightarrow> \<not> (parseOnly cfg \<and> cfgEnabled alerting) \<Longrightarrow> validateConfig off = Inr offsets"
    "openReceivers off = openReceivers cfg" "startIngest off = startIngest cfg"
proof -
  have "positiveValues off = positiveValues cfg" by (simp add: off_def positiveValues_def)
  note fields = this
  have rest: "minPacketsPerFile off = minPacketsPerFile cfg" "maxPacketsPerFile off = maxPacketsPerFile cfg"
    "syncEveryPackets off = syncEveryPackets cfg" "clickhouseTable off = clickhouseTable cfg" "rawFormat off = rawFormat cfg"
    "udpReceiveMode off = udpReceiveMode cfg" "udpReusePortHashOffsetsValue off = udpReusePortHashOffsetsValue cfg"
    "udpReceivers off = udpReceivers cfg" "autoTuneHighWatermarkPct off = autoTuneHighWatermarkPct cfg"
    "autoTuneCriticalWatermarkPct off = autoTuneCriticalWatermarkPct cfg" "autoTuneMaxRawWriters off = autoTuneMaxRawWriters cfg"
    "rawWriters off = rawWriters cfg" "autoTuneMaxPacketWorkers off = autoTuneMaxPacketWorkers cfg"
    "packetWorkers off = packetWorkers cfg" "autoTuneMaxInsertWorkers off = autoTuneMaxInsertWorkers cfg"
    "insertWorkers off = insertWorkers cfg" "liveInsertOverloadPolicy off = liveInsertOverloadPolicy cfg"
    "liveInsertQueueHighWatermarkPct off = liveInsertQueueHighWatermarkPct cfg"
    "liveInsertSendTimeoutMS off = liveInsertSendTimeoutMS cfg"
    by (simp_all add: off_def)
  show "validateConfig off = Inr offsets" if valid: "validateConfig cfg = Inr offsets" "\<not> (parseOnly cfg \<and> cfgEnabled alerting)"
  proof -
    have off: "(parseOnly off \<and> cfgEnabled (alertConfig off)) = False" using valid(2) by (simp add: off_def)
    have "(parseOnly cfg \<and> cfgEnabled (alertConfig cfg)) = False" using validateConfig_InrD(10) [OF valid(1)] by auto
    then have "validateConfig off = validateConfig cfg" unfolding validateConfig_def fields rest off by (simp only:)
    with valid show ?thesis by simp
  qed
  have more: "udpBatchSize off = udpBatchSize cfg" "udpReusePort off = udpReusePort cfg" by (simp_all add: off_def)
  show "openReceivers off = openReceivers cfg" unfolding openReceivers_def [abs_def] rest more by (rule refl)
  show "startIngest off = startIngest cfg" unfolding startIngest_def [abs_def] rest by (rule refl)
qed

theorem alerting_fails_open:
  assumes "validateConfig cfg = Inr offsets" "cfgEnabled (alertConfig cfg)"
    and "newAlertManager parseIP urlParse hostName (alertConfig cfg) aw = (Inl e, aw1)"
    and "startCollector parseIP urlParse hostName order nanos channel answers cfg (w, aw, sk) = (res, w', aw', sk')"
  shows "startCollector parseIP urlParse hostName order nanos channel answers
           (cfg\<lparr>alertConfig := (alertConfig cfg)\<lparr>cfgEnabled := False\<rparr>\<rparr>) (w, aw, sk) = (res, w', aw, sk')
         \<and> files aw' = files aw"
proof -
  define off where "off = cfg\<lparr>alertConfig := (alertConfig cfg)\<lparr>cfgEnabled := False\<rparr>\<rparr>"
  note same = other_alerts(1) [OF assms(1), where alerting = "(alertConfig cfg)\<lparr>cfgEnabled := False\<rparr>", folded off_def, simplified]
    other_alerts(2,3) [where cfg = cfg and alerting = "(alertConfig cfg)\<lparr>cfgEnabled := False\<rparr>", folded off_def]
  have spool: "(if parseOnly off then (None, w) else ensureFailedSpoolDirs (failedSpoolBase off) w)
      = (if parseOnly cfg then (None, w) else ensureFailedSpoolDirs (failedSpoolBase cfg) w)" by (simp add: off_def)
  have on: "startAlerting parseIP urlParse hostName cfg aw = ((None, None, (alertConfig cfg)\<lparr>cfgEnabled := False\<rparr>), aw1)"
    using assms(2,3) by (simp add: startAlerting_def Let_def)
  have off: "startAlerting parseIP urlParse hostName off aw = ((None, None, (alertConfig cfg)\<lparr>cfgEnabled := False\<rparr>), aw)"
    by (simp add: startAlerting_def Let_def off_def)
  obtain missing w1 where 1: "(if parseOnly cfg then (None, w) else ensureFailedSpoolDirs (failedSpoolBase cfg) w) = (missing, w1)"
    by fastforce
  obtain opened sk1 where 3: "openReceivers cfg offsets sk = (opened, sk1)" by fastforce
  have files: "files aw1 = files aw" by (rule newAlertManager_files [OF assms(3)])
  have one: "startCollector parseIP urlParse hostName order nanos channel answers cfg (w, aw, sk)
      = (case missing of Some dir \<Rightarrow> (Inl (SpoolDirectoryFailed dir), w1, aw, sk)
         | None \<Rightarrow> (case opened of Inl e \<Rightarrow> (Inl (ReceiversFailed e), w1, aw1, sk1)
             | Inr rs \<Rightarrow> (Inr \<lparr>runningIngest = startIngest cfg rs sk1 (newPipeline (newCollector w1 None nanos channel answers)),
                             runningAlerts = None, runningAlertConfig = (alertConfig cfg)\<lparr>cfgEnabled := False\<rparr>\<rparr>, w1, aw1, sk1)))"
    unfolding startCollector_def by (simp only: prod.case assms(1) sum.case Let_def 1 on 3 option.map option.case)
  have two: "startCollector parseIP urlParse hostName order nanos channel answers off (w, aw, sk)
      = (case missing of Some dir \<Rightarrow> (Inl (SpoolDirectoryFailed dir), w1, aw, sk)
         | None \<Rightarrow> (case opened of Inl e \<Rightarrow> (Inl (ReceiversFailed e), w1, aw, sk1)
             | Inr rs \<Rightarrow> (Inr \<lparr>runningIngest = startIngest cfg rs sk1 (newPipeline (newCollector w1 None nanos channel answers)),
                             runningAlerts = None, runningAlertConfig = (alertConfig cfg)\<lparr>cfgEnabled := False\<rparr>\<rparr>, w1, aw, sk1)))"
    unfolding startCollector_def by (simp only: prod.case same sum.case Let_def spool 1 off 3 option.map option.case)
  have "startCollector parseIP urlParse hostName order nanos channel answers off (w, aw, sk) = (res, w', aw, sk')
      \<and> (aw' = aw \<or> aw' = aw1)"
    using assms(4) unfolding one two by (cases missing; cases opened) auto
  with files show ?thesis unfolding off_def by auto
qed

section \<open>Two starts\<close>

text \<open>The defaults, with the alerts off; then with the alerts on, and an address that does not parse.\<close>

definition exampleStart :: "collectorConfig \<Rightarrow> (collector_fatal + collectorRun) \<times> spool_file world \<times> alert_file world \<times> sockets" where
  "exampleStart cfg = startCollector (\<lambda>_. False) (\<lambda>_. None) (Some ''h'') [] [] [] [] cfg
     (\<lparr>files = [], faults = [], suffixes = [], trace = []\<rparr>, \<lparr>files = [], faults = [], suffixes = [], trace = []\<rparr>,
      noSockets\<lparr>sysAnswers := [False]\<rparr>)"

lemma example_dirs:
  "\<exists>w1. (if parseOnly cfg then (None, \<lparr>files = [], faults = [], suffixes = [], trace = []\<rparr>)
      else ensureFailedSpoolDirs (failedSpoolBase cfg) \<lparr>files = [], faults = [], suffixes = [], trace = []\<rparr>) = (None, w1)"
proof (cases "parseOnly cfg")
  case False
  obtain w1 :: "spool_file world" where "makeDirectories [joinPath (failedSpoolBase cfg) ''open'', joinPath (failedSpoolBase cfg) ''done'']
      \<lparr>files = [], faults = [], suffixes = [], trace = []\<rparr> = (None, w1)"
    using makeDirectories_calm [of "\<lparr>files = [], faults = [], suffixes = [], trace = []\<rparr>"]
    by (auto simp del: makeDirectories.simps)
  with False show ?thesis by (simp add: ensureFailedSpoolDirs_def del: makeDirectories.simps)
qed simp

lemma example_receivers:
  "fst (openReceivers (loadConfig 8 emptyEnv) [20, 36] (noSockets\<lparr>sysAnswers := [False]\<rparr>)) = Inl (ListenUDP ReuseAddrFailed)"
proof -
  let ?cfg = "loadConfig 8 emptyEnv"
  have c: "udpReceiveMode ?cfg = udpModeReusePortBPF" "udpReceivers ?cfg = 4" "udpReusePort ?cfg"
    by (simp_all add: loadConfig_def Let_def default_workers default_lower udpModeReusePortBPF_def udpModeShared_def)
  then show ?thesis
    by (simp add: openReceivers_def udpModeReusePortBPF_def udpModeShared_def udpModeReusePort_def openUDPReceiver_def
        newUDPReceiver_def sysCallOk_def numeral_eq_Suc Let_def noSockets_def)
qed

theorem collector_starts_witness:
  "fst (exampleStart (loadConfig 8 emptyEnv)) = Inl (ReceiversFailed (ListenUDP ReuseAddrFailed))
    \<and> True \<notin> set (openConns (snd (snd (snd (exampleStart (loadConfig 8 emptyEnv))))))"
proof -
  let ?cfg = "loadConfig 8 emptyEnv" and ?w = "\<lparr>files = [], faults = [], suffixes = [], trace = []\<rparr>"
  obtain res w' aw' sk' where run: "exampleStart ?cfg = (res, w', aw', sk')" by (metis prod_cases4)
  obtain sk1 where o: "openReceivers ?cfg [20, 36] (noSockets\<lparr>sysAnswers := [False]\<rparr>) = (Inl (ListenUDP ReuseAddrFailed), sk1)"
    using example_receivers by (metis prod.collapse)
  have valid: "validateConfig ?cfg = Inr [20, 36]" "\<not> cfgEnabled (alertConfig ?cfg)" using default_validates by blast+
  obtain w1 where dirs: "(if parseOnly ?cfg then (None, ?w) else ensureFailedSpoolDirs (failedSpoolBase ?cfg) ?w) = (None, w1)"
    using example_dirs by blast
  have res: "res = Inl (ReceiversFailed (ListenUDP ReuseAddrFailed))"
    using run dirs valid by (simp add: exampleStart_def startCollector_def startAlerting_def o)
  have acc: "accounted (udpBatchSize ?cfg) [] (noSockets\<lparr>sysAnswers := [False]\<rparr>)"
    by (rule accounted_frame [OF noSockets_accounted]) simp_all
  from collector_starts [OF run [unfolded exampleStart_def] acc] res show ?thesis by (simp add: run)
qed

theorem alerting_fails_open_witness:
  "let cfg = (loadConfig 8 emptyEnv)\<lparr>alertConfig := (alertConfig (loadConfig 8 emptyEnv))\<lparr>cfgEnabled := True\<rparr>\<rparr>
   in fst (exampleStart cfg) = fst (exampleStart (loadConfig 8 emptyEnv))"
proof -
  let ?base = "loadConfig 8 emptyEnv" and ?aw = "\<lparr>files = [], faults = [], suffixes = [], trace = []\<rparr> :: alert_file world"
  define cfg where "cfg = ?base\<lparr>alertConfig := (alertConfig ?base)\<lparr>cfgEnabled := True\<rparr>\<rparr>"
  have base: "validateConfig ?base = Inr [20, 36]" "\<not> cfgEnabled (alertConfig ?base)" using default_validates by blast+
  have on: "cfgEnabled (alertConfig cfg)" by (simp add: cfg_def)
  have off: "cfg\<lparr>alertConfig := (alertConfig cfg)\<lparr>cfgEnabled := False\<rparr>\<rparr> = ?base"
    using base(2) by (simp add: cfg_def)
  have valid: "validateConfig cfg = Inr [20, 36]"
    unfolding cfg_def by (rule other_alerts(1) [OF base(1)]) (simp add: loadConfig_def Let_def getEnvBool_def osGetenv_def trimSpace_def trimLeft_def trimRight_def toLower_def lowerChar_def emptyEnv_def)
  have mode: "cfgMode (alertConfig cfg) = alertModeObserve"
    by (simp add: cfg_def loadConfig_def loadAlertConfig_def Let_def alertModeObserve_def toLower_def lowerChar_def)
  have failed: "newAlertManager (\<lambda>_. False) (\<lambda>_. None) (Some ''h'') (alertConfig cfg) ?aw = (Inl (InvalidAlertConfig BadServerIP), ?aw)"
    using on mode by (simp add: newAlertManager_def validateAlertConfig_def)
  obtain res w' aw' sk' where run: "exampleStart cfg = (res, w', aw', sk')" by (metis prod_cases4)
  from alerting_fails_open [OF valid on failed run [unfolded exampleStart_def]] off
  have "exampleStart ?base = (res, w', ?aw, sk')" by (simp add: exampleStart_def)
  with run show ?thesis by (simp add: cfg_def [symmetric])
qed

end
