(* ===== verification/OutboxHistory.thy ===== *)
theory OutboxHistory
  imports AlertGuarantees
begin

text \<open>
  The outbox over whole histories: evaluations, delivery rounds of the outbox worker, and restarts in
  any order.  What the managers do to the disk goes through three operations (persisting the states,
  emitting a record, memory only); a property of those is a property of every event, for the
  collector and for the reprocessor.
\<close>

section \<open>From three operations to every event\<close>

locale outbox_invariant = alert_writer write_file token
  for write_file :: writer and token :: "string \<Rightarrow> string" +
  fixes holds :: "alertManager \<Rightarrow> bool"
  assumes persist_holds: "persistStates write_file m = (ok, m') \<Longrightarrow> holds m \<Longrightarrow> holds m'"
    and emit_holds: "emit write_file token r m = (ok, m') \<Longrightarrow> holds m \<Longrightarrow> holds m'"
    and memory: "settings m' = settings m \<Longrightarrow> files (disk m') = files (disk m) \<Longrightarrow> queued m' = queued m
      \<Longrightarrow> accepted m' = accepted m \<Longrightarrow> holds m \<Longrightarrow> holds m'"
begin

lemma holds_setState: "holds m \<Longrightarrow> holds (setState n s m)"
  by (rule memory [of _ m]) (simp_all add: setState_def)

lemma holds_opened: "holds m \<Longrightarrow> holds ((setState n s m)\<lparr>activeAlerts := a, alertsOpened := b\<rparr>)"
  by (rule memory [of _ m]) (simp_all add: setState_def)

lemma holds_cleared: "holds m \<Longrightarrow> holds ((setState n s m)\<lparr>activeAlerts := a, alertsCleared := b\<rparr>)"
  by (rule memory [of _ m]) (simp_all add: setState_def)

lemma holds_randoms: "holds m \<Longrightarrow> holds (m\<lparr>randoms := rs\<rparr>)"
  by (rule memory [of _ m]) simp_all

lemma announce_holds:
  assumes "announce write_file token name m = (e, m')" "holds m"
  shows "holds m'"
  using assms(1)
proof (cases rule: announce_cases)
  case (persist m1)
  with assms(2) persist_holds show ?thesis by blast
next
  case (emit m1 m2)
  with assms(2) persist_holds emit_holds show ?thesis by blast
next
  case (sent ok m1 m2)
  with assms(2) persist_holds emit_holds have "holds m2" by blast
  with sent(3) persist_holds holds_setState show ?thesis by blast
qed

lemma inactiveStep_holds:
  assumes "inactiveStep write_file token obs now m = (e, m')" "holds m"
  shows "holds m'"
  using assms unfolding inactiveStep_def Let_def
  by (auto split: if_splits option.splits prod.splits
      intro!: holds_setState holds_randoms holds_opened elim!: announce_holds)

lemma activeStep_holds:
  assumes "activeStep write_file token obs now m = (e, m')" "holds m"
  shows "holds m'"
  using assms unfolding activeStep_def Let_def
  by (auto split: if_splits intro!: holds_setState holds_cleared elim!: announce_holds)

lemma applyObservation_holds:
  assumes "applyObservation write_file token obs now m = (e, m')" "holds m"
  shows "holds m'"
proof -
  let ?m0 = "setState (obsName obs) (stateOf m (obsName obs)) m"
  let ?m1 = "setState (obsName obs) ((stateOf m (obsName obs))\<lparr>LastEmitted := now\<rparr>) ?m0"
  have m0: "holds ?m0" "holds ?m1" using assms(2) holds_setState by simp_all
  obtain e1 m2 where 1: "announce write_file token (obsName obs) ?m1 = (e1, m2)" by fastforce
  have "holds m2" by (rule announce_holds [OF 1 m0(2)])
  with assms(1) m0(1) show ?thesis
    by (auto simp: applyObservation_def 1 Let_def split: if_splits option.splits
        dest: activeStep_holds inactiveStep_holds)
qed

lemma reprocessApplyObservation_holds:
  assumes "reprocessApplyObservation write_file token obs now m = (e, m')" "holds m"
  shows "holds m'"
  using assms unfolding reprocessApplyObservation_def Let_def
  by (auto split: if_splits intro: activeStep_holds inactiveStep_holds holds_setState)

lemma evaluateAll_holds:
  assumes "\<And>obs m e m'. step obs now m = (e, m') \<Longrightarrow> holds m \<Longrightarrow> holds m'" "holds m"
  shows "holds (evaluateAll step obs now m)"
  using assms(2)
proof (induction obs arbitrary: m)
  case (Cons ob obs)
  obtain e m1 where "step ob now m = (e, m1)" by fastforce
  with Cons assms(1) show ?case by simp
qed simp

lemma loadStates_holds:
  assumes "loadStates (m\<lparr>states := [], activeAlerts := 0\<rparr>) = (e, m')" "holds m"
  shows "holds m'"
proof (rule memory [of _ m])
  obtain payload w where rd: "readFile (statePath (settings m)) (disk m) = (payload, w)" by fastforce
  with readFile_files [OF rd] assms(1)
  show "settings m' = settings m" "files (disk m') = files (disk m)" "queued m' = queued m" "accepted m' = accepted m"
    by (auto simp: loadStates_def Let_def split: if_splits option.splits content.splits alert_file.splits)
qed (rule assms(2))

lemma reconcile_holds:
  assumes "reconcileDirtyStates write_file token order changed m = (c, m')" "holds m"
  shows "holds m'"
  using assms
proof (induction order arbitrary: changed m)
  case (Cons n order)
  show ?case
  proof (cases "Dirty (stateOf m n)")
    case True
    obtain ok m1 where em: "emit write_file token (Record (stateOf m n)) m = (ok, m1)" by fastforce
    have "holds m1" by (rule emit_holds [OF em Cons.prems(2)])
    then have "holds (if ok then setState n ((stateOf m1 n)\<lparr>Dirty := False\<rparr>) m1 else m1)" by (simp add: holds_setState)
    with Cons em True show ?thesis by simp
  next
    case False
    with Cons show ?thesis by simp
  qed
qed simp

lemma startAlerts_holds: "holds m \<Longrightarrow> holds (startAlerts write_file token order m)"
proof -
  assume m: "holds m"
  obtain c m1 where 1: "reconcileDirtyStates write_file token order False m = (c, m1)" by fastforce
  obtain ok m2 where 2: "persistStates write_file m1 = (ok, m2)" by fastforce
  have "holds m1" by (rule reconcile_holds [OF 1 m])
  with persist_holds [OF 2] show ?thesis by (simp add: startAlerts_def 1 2)
qed

lemma collectorEvent_holds: "holds m \<Longrightarrow> holds (collectorEvent write_file token m ev)"
  by (cases ev) (auto split: prod.splits option.splits
      intro!: evaluateAll_holds startAlerts_holds elim!: applyObservation_holds intro: loadStates_holds)

lemma reprocessEvent_holds: "holds m \<Longrightarrow> holds (reprocessEvent write_file token m ev)"
  by (cases ev) (auto intro!: evaluateAll_holds elim!: reprocessApplyObservation_holds
      intro: loadStates_holds [OF surjective_pairing])

end

section \<open>Every queued record is in the outbox or delivered\<close>

text \<open>
  \<open>outboxFrom m0\<close>: as long as no file name was used twice, every queued record is still in its own
  file or was accepted by the sink; and what the sink accepted, and what is in the outbox, was queued
  or was there at the start.
\<close>

definition queuedOrOld :: "alertManager \<Rightarrow> alertManager \<Rightarrow> AlertRecord \<Rightarrow> bool" where
  "queuedOrOld m0 m r \<longleftrightarrow> r \<in> snd ` set (queued m) \<or> (\<exists>n. hasSuffix n jsonSuffix \<and> recordIn m0 n = Some r)"

definition keptRecords :: "alertManager \<Rightarrow> bool" where
  "keptRecords m \<longleftrightarrow> (\<forall>(n, r) \<in> set (queued m). fileIn m n = Some (Whole (RecordFile r)) \<or> r \<in> set (accepted m))"

definition jsonQueue :: "alertManager \<Rightarrow> bool" where
  "jsonQueue m \<longleftrightarrow> (\<forall>(n, r) \<in> set (queued m). hasSuffix n jsonSuffix)"

definition outboxFrom :: "alertManager \<Rightarrow> alertManager \<Rightarrow> bool" where
  "outboxFrom m0 m \<longleftrightarrow>
     good_settings (settings m) \<and> jsonQueue m \<and> (distinct (map fst (queued m)) \<longrightarrow> keptRecords m)
     \<and> (\<forall>n r. hasSuffix n jsonSuffix \<longrightarrow> recordIn m n = Some r \<longrightarrow> queuedOrOld m0 m r)
     \<and> (\<forall>r \<in> set (accepted m). queuedOrOld m0 m r \<or> r \<in> set (accepted m0))"

lemma json_not_temp: "hasSuffix n jsonSuffix \<Longrightarrow> \<not> isTempName n"
  using not_isTempName_json by (auto simp: hasSuffix_conv)

lemma outboxName_json: "hasSuffix (outboxName token t r) jsonSuffix"
  unfolding outboxName_def append_assoc [symmetric] by (rule hasSuffix_append)

lemma outboxFrom_memory:
  assumes "settings m' = settings m" "files (disk m') = files (disk m)" "queued m' = queued m" "accepted m' = accepted m"
    and "outboxFrom m0 m"
  shows "outboxFrom m0 m'"
proof -
  have "fileIn m' = fileIn m" using assms(1,2) by (simp add: fileIn_def fileAt_def fun_eq_iff)
  moreover from this have "recordIn m' = recordIn m" by (simp add: recordIn_def fun_eq_iff)
  ultimately show ?thesis using assms by (simp add: outboxFrom_def keptRecords_def queuedOrOld_def jsonQueue_def)
qed

context alert_writer
begin

text \<open>Persisting writes outside the outbox.\<close>

lemma persist_outbox:
  assumes "persistStates write_file m = (ok, m')" "good_settings (settings m)"
  shows "settings m' = settings m" "queued m' = queued m" "accepted m' = accepted m"
    "hasSuffix n jsonSuffix \<Longrightarrow> fileIn m' n = fileIn m n"
proof -
  obtain w where w: "write_file (statePath (settings m)) (StatesFile (states m)) (disk m) = (ok, w)" "m' = m\<lparr>disk := w\<rparr>"
    using assms(1) by (auto simp: persistStates_def split: prod.splits)
  then show "settings m' = settings m" "queued m' = queued m" "accepted m' = accepted m" by simp_all
  assume "hasSuffix n jsonSuffix"
  then have "\<not> isTempName (snd (outboxDir (settings m), n))" by (simp add: json_not_temp)
  moreover have "(outboxDir (settings m), n) \<noteq> statePath (settings m)" using assms(2) by (cases "statePath (settings m)") (simp add: good_settings_def)
  ultimately show "fileIn m' n = fileIn m n" using others [OF w(1), of "(outboxDir (settings m), n)"] w(2) by (simp add: fileIn_def)
qed

text \<open>Emitting adds the record's file, or nothing.\<close>

lemma emit_outbox:
  assumes "emit write_file token r m = (ok, m')"
  obtains (logged) "settings m' = settings m" "queued m' = queued m" "accepted m' = accepted m" "\<And>n. fileIn m' n = fileIn m n"
  | (failed) "settings m' = settings m" "queued m' = queued m" "accepted m' = accepted m"
      "\<And>n. hasSuffix n jsonSuffix \<Longrightarrow> fileIn m' n = fileIn m n"
  | (added) n0 where "settings m' = settings m" "queued m' = queued m @ [(n0, r)]" "accepted m' = accepted m"
      "hasSuffix n0 jsonSuffix" "fileIn m' n0 = Some (Whole (RecordFile r))"
      "\<And>n. hasSuffix n jsonSuffix \<Longrightarrow> n \<noteq> n0 \<Longrightarrow> fileIn m' n = fileIn m n"
proof (cases "Mode (settings m) = alertModeObserve")
  case True
  with assms have "m' = m\<lparr>logged := logged m @ [r]\<rparr>" by (simp add: emit_def)
  then show thesis by (intro logged) (simp_all add: fileIn_def)
next
  case False
  let ?n = "outboxName token (fst (popOr 0 (clocks m))) r" and ?dir = "outboxDir (settings m)"
  obtain b w where w: "write_file (?dir, ?n) (RecordFile r) (disk m) = (b, w)" by fastforce
  have same: "fileAt w (?dir, n) = fileAt (disk m) (?dir, n)" if "hasSuffix n jsonSuffix" "n \<noteq> ?n" for n
    using others [OF w, of "(?dir, n)"] that by (simp add: json_not_temp)
  show thesis
  proof (cases b)
    case True
    have "fileAt w (?dir, ?n) = Some (Whole (RecordFile r))" using stored w True by simp
    with assms w False True same show thesis
      by (intro added [of ?n])
        (auto simp: emit_def enqueue_def Let_def fileIn_def fileAt_def outboxName_json split: prod.splits)
  next
    case no: False
    have kept: "fileAt w (?dir, n) = fileAt (disk m) (?dir, n)" if "hasSuffix n jsonSuffix" for n
      using same [OF that] refused [of "(?dir, ?n)" "RecordFile r" "disk m" w] w no by (cases "n = ?n") simp_all
    from assms w False no kept show thesis
      by (intro failed) (auto simp: emit_def enqueue_def Let_def fileIn_def fileAt_def split: prod.splits)
  qed
qed

lemma outboxFrom_same_files:
  assumes "settings m' = settings m" "queued m' = queued m" "accepted m' = accepted m"
    and same: "\<And>n. hasSuffix n jsonSuffix \<Longrightarrow> fileIn m' n = fileIn m n" and old: "outboxFrom m0 m"
  shows "outboxFrom m0 m'"
proof -
  have "keptRecords m" if "distinct (map fst (queued m))" using that old by (simp add: outboxFrom_def)
  then have "keptRecords m'" if "distinct (map fst (queued m))"
    using that old assms(2,3) same by (fastforce simp: keptRecords_def outboxFrom_def jsonQueue_def)
  moreover have "recordIn m' n = recordIn m n" if "hasSuffix n jsonSuffix" for n using same [OF that] by (simp add: recordIn_def)
  ultimately show ?thesis using old assms(1-3) by (simp add: outboxFrom_def queuedOrOld_def jsonQueue_def)
qed

lemma outboxFrom_emit:
  assumes "emit write_file token r m = (ok, m')" "outboxFrom m0 m"
  shows "outboxFrom m0 m'"
  using assms(1)
proof (cases rule: emit_outbox)
  case logged
  then show ?thesis by (intro outboxFrom_same_files [OF _ _ _ _ assms(2)])
next
  case failed
  then show ?thesis by (intro outboxFrom_same_files [OF _ _ _ _ assms(2)])
next
  case (added n0)
  have q: "jsonQueue m'" using assms(2) added(2,4) by (auto simp: outboxFrom_def jsonQueue_def)
  have kept: "keptRecords m'" if d: "distinct (map fst (queued m'))"
  proof -
    have "distinct (map fst (queued m))" and fresh: "\<And>n x. (n, x) \<in> set (queued m) \<Longrightarrow> n \<noteq> n0"
      using d added(2) by force+
    then have old: "\<forall>(n, x) \<in> set (queued m). fileIn m n = Some (Whole (RecordFile x)) \<or> x \<in> set (accepted m)"
      using assms(2) by (simp add: outboxFrom_def keptRecords_def)
    show ?thesis
      unfolding keptRecords_def
    proof clarify
      fix n x
      assume "(n, x) \<in> set (queued m')" "x \<notin> set (accepted m')"
      then consider "n = n0" "x = r" | "(n, x) \<in> set (queued m)" using added(2) by auto
      then show "fileIn m' n = Some (Whole (RecordFile x))"
      proof cases
        case 1
        with added(5) show ?thesis by simp
      next
        case 2
        then have "n \<noteq> n0" "hasSuffix n jsonSuffix" using fresh assms(2) by (auto simp: outboxFrom_def jsonQueue_def)
        with 2 old added(3,6) \<open>x \<notin> set (accepted m')\<close> show ?thesis by auto
      qed
    qed
  qed
  have mono: "queuedOrOld m0 m x \<Longrightarrow> queuedOrOld m0 m' x" for x using added(2) by (auto simp: queuedOrOld_def)
  have "queuedOrOld m0 m' x" if "hasSuffix n jsonSuffix" "recordIn m' n = Some x" for n x
  proof (cases "n = n0")
    case True
    with that(2) added(2,5) show ?thesis by (auto simp: recordIn_def queuedOrOld_def)
  next
    case False
    with that added(6) have "recordIn m n = Some x" by (simp add: recordIn_def)
    with that(1) assms(2) mono show ?thesis unfolding outboxFrom_def by blast
  qed
  with q kept mono assms(2) added(1,3) show ?thesis by (auto simp: outboxFrom_def)
qed

lemma outboxFrom_persist: "persistStates write_file m = (ok, m') \<Longrightarrow> outboxFrom m0 m \<Longrightarrow> outboxFrom m0 m'"
  by (rule outboxFrom_same_files) (auto simp: outboxFrom_def persist_outbox)

end

interpretation collector_history: outbox_invariant writeJSONAtomically safeFileToken "outboxFrom m0" for m0
  by unfold_locales (fact collector_alerts.outboxFrom_persist collector_alerts.outboxFrom_emit outboxFrom_memory)+

interpretation reprocess_history: outbox_invariant writeReprocessAlertFile safeReprocessAlertFileToken "outboxFrom m0" for m0
  by unfold_locales (fact reprocess_alerts.outboxFrom_persist reprocess_alerts.outboxFrom_emit outboxFrom_memory)+

section \<open>Delivery rounds\<close>

text \<open>A history: what a manager does on its own, or a round of the outbox worker.\<close>

datatype outbox_event = ManagerEvent manager_event | DeliveryRound

fun collectorHistory :: "alertManager \<Rightarrow> outbox_event \<Rightarrow> alertManager" where
  "collectorHistory m (ManagerEvent ev) = collectorEvent writeJSONAtomically safeFileToken m ev"
| "collectorHistory m DeliveryRound = snd (deliverOutbox m)"

fun reprocessHistory :: "alertManager \<Rightarrow> outbox_event \<Rightarrow> alertManager" where
  "reprocessHistory m (ManagerEvent ev) = reprocessEvent writeReprocessAlertFile safeReprocessAlertFileToken m ev"
| "reprocessHistory m DeliveryRound = snd (deliverOutbox m)"

lemma deliverLoop_queued: "deliverLoop names d m = (res, m') \<Longrightarrow> queued m' = queued m"
proof (induction names arbitrary: d m)
  case (Cons n rest)
  obtain payload w where rd: "readFile (outboxDir (settings m), n) (disk m) = (payload, w)" by fastforce
  show ?case
    using Cons
    by (auto simp: rd Let_def countError_def upsert_def split: option.splits prod.splits if_splits)
qed simp

lemma deliverOutbox_queued: "deliverOutbox m = (res, m') \<Longrightarrow> queued m' = queued m"
  by (auto simp: deliverOutbox_def Let_def countError_def split: option.splits prod.splits if_splits dest!: deliverLoop_queued)

lemma map_filter_Some: "x \<in> set (List.map_filter f xs) \<longleftrightarrow> (\<exists>y \<in> set xs. f y = Some x)"
  by (auto simp: List.map_filter_def image_iff)

lemma outboxFrom_deliver:
  assumes "deliverOutbox m = ((d, failed), m')" "outboxFrom m0 m"
  shows "outboxFrom m0 m'"
proof -
  have dirs: "outboxDir (settings m) \<noteq> badDir (settings m)" using assms(2) by (simp add: outboxFrom_def good_settings_def)
  obtain j k where "delivered_to m (outboxJSON m) j k m'" using deliverOutbox_delivers [OF assms(1) dirs] by blast
  then have jk: "j \<le> k" "settings m' = settings m"
      "accepted m' = accepted m @ List.map_filter (recordIn m) (take k (outboxJSON m))"
      "\<And>n. fileIn m' n = (if n \<in> set (take j (outboxJSON m)) then None else fileIn m n)"
    unfolding delivered_to_def by simp_all
  have q: "queued m' = queued m" by (rule deliverOutbox_queued [OF assms(1)])
  have rec: "recordIn m' n = Some r \<Longrightarrow> recordIn m n = Some r" for n r using jk(4) [of n] by (simp add: recordIn_def split: if_splits)
  have kept: "keptRecords m'" if d: "distinct (map fst (queued m))"
    unfolding keptRecords_def q
  proof clarify
    fix n r
    assume n: "(n, r) \<in> set (queued m)" "r \<notin> set (accepted m')"
    have "keptRecords m" using d assms(2) by (simp add: outboxFrom_def)
    with n(1) have "fileIn m n = Some (Whole (RecordFile r)) \<or> r \<in> set (accepted m)" unfolding keptRecords_def by blast
    with n(2) jk(3) have there: "fileIn m n = Some (Whole (RecordFile r))" by simp
    show "fileIn m' n = Some (Whole (RecordFile r))"
    proof (cases "n \<in> set (take j (outboxJSON m))")
      case True
      then have "n \<in> set (take k (outboxJSON m))" by (rule subsetD [OF set_take_subset_set_take [OF jk(1)]])
      moreover have "recordIn m n = Some r" using there by (simp add: recordIn_def)
      ultimately have "r \<in> set (List.map_filter (recordIn m) (take k (outboxJSON m)))" unfolding map_filter_Some by blast
      with n(2) jk(3) show ?thesis by simp
    qed (simp add: jk(4) there)
  qed
  have "queuedOrOld m0 m' r \<or> r \<in> set (accepted m0)" if "r \<in> set (accepted m')" for r
  proof (cases "r \<in> set (accepted m)")
    case True
    with assms(2) have "queuedOrOld m0 m r \<or> r \<in> set (accepted m0)" unfolding outboxFrom_def by blast
    with q show ?thesis by (simp add: queuedOrOld_def)
  next
    case False
    with that jk(3) have "r \<in> set (List.map_filter (recordIn m) (take k (outboxJSON m)))" by simp
    then obtain n where n: "n \<in> set (take k (outboxJSON m))" "recordIn m n = Some r" unfolding map_filter_Some by blast
    then have "n \<in> set (outboxJSON m)" by (blast dest: in_set_takeD)
    then have "hasSuffix n jsonSuffix" by (simp add: outboxJSON_set)
    with n(2) assms(2) have "queuedOrOld m0 m r" by (simp add: outboxFrom_def)
    with q show ?thesis by (simp add: queuedOrOld_def)
  qed
  note acc = this
  have same: "queuedOrOld m0 m' r \<longleftrightarrow> queuedOrOld m0 m r" for r by (simp add: queuedOrOld_def q)
  have out: "queuedOrOld m0 m r" if "hasSuffix n jsonSuffix" "recordIn m n = Some r" for n r
    using that assms(2) by (simp add: outboxFrom_def)
  show ?thesis
    unfolding outboxFrom_def jsonQueue_def q jk(2) same
  proof (intro conjI allI impI ballI)
    show "queuedOrOld m0 m r" if "hasSuffix n jsonSuffix" "recordIn m' n = Some r" for n r
      by (rule out [OF that(1) rec [OF that(2)]])
    show "queuedOrOld m0 m r \<or> r \<in> set (accepted m0)" if "r \<in> set (accepted m')" for r
      using acc [OF that] by (simp only: same)
    show "case x of (n, r) \<Rightarrow> hasSuffix n jsonSuffix" if "x \<in> set (queued m)" for x
      using assms(2) that unfolding outboxFrom_def jsonQueue_def by blast
    show "good_settings (settings m)" using assms(2) by (simp add: outboxFrom_def)
    show "distinct (map fst (queued m)) \<Longrightarrow> keptRecords m'" by (rule kept)
  qed
qed

lemma collectorHistory_from: "outboxFrom m0 m \<Longrightarrow> outboxFrom m0 (foldl collectorHistory m evs)"
proof (rule foldl_invariant [where P = "outboxFrom m0"])
  show "outboxFrom m0 (collectorHistory m ev)" if "outboxFrom m0 m" for m ev
    using that outboxFrom_deliver [of m "fst (fst (deliverOutbox m))" "snd (fst (deliverOutbox m))" "snd (deliverOutbox m)" m0]
    by (cases ev) (auto intro: collector_history.collectorEvent_holds)
qed

lemma reprocessHistory_from: "outboxFrom m0 m \<Longrightarrow> outboxFrom m0 (foldl reprocessHistory m evs)"
proof (rule foldl_invariant [where P = "outboxFrom m0"])
  show "outboxFrom m0 (reprocessHistory m ev)" if "outboxFrom m0 m" for m ev
    using that outboxFrom_deliver [of m "fst (fst (deliverOutbox m))" "snd (fst (deliverOutbox m))" "snd (deliverOutbox m)" m0]
    by (cases ev) (auto intro: reprocess_history.reprocessEvent_holds)
qed

text \<open>A manager that has not run, with an empty outbox.\<close>

definition emptyOutbox :: "alertManager \<Rightarrow> bool" where
  "emptyOutbox m \<longleftrightarrow> good_settings (settings m) \<and> queued m = [] \<and> accepted m = [] \<and> outboxJSON m = []"

lemma emptyOutbox_from: "emptyOutbox m \<Longrightarrow> outboxFrom m m"
  by (auto simp: emptyOutbox_def outboxFrom_def jsonQueue_def keptRecords_def queuedOrOld_def)

lemma outboxFrom_history:
  assumes "emptyOutbox m0" "outboxFrom m0 m" "distinct (map fst (queued m))"
  shows "(\<forall>(n, r) \<in> set (queued m). fileIn m n = Some (Whole (RecordFile r)) \<or> r \<in> set (accepted m))"
    "outboxJSON m = [] \<Longrightarrow> snd ` set (queued m) \<subseteq> set (accepted m)"
proof -
  show kept: "\<forall>(n, r) \<in> set (queued m). fileIn m n = Some (Whole (RecordFile r)) \<or> r \<in> set (accepted m)"
    using assms(2,3) by (simp add: outboxFrom_def keptRecords_def)
  assume empty: "outboxJSON m = []"
  have "fileIn m n = None" if "hasSuffix n jsonSuffix" for n
    using outboxJSON_set [of m] empty that by auto
  with kept assms(2) show "snd ` set (queued m) \<subseteq> set (accepted m)"
    by (fastforce simp: outboxFrom_def jsonQueue_def)
qed

lemma outboxFrom_accepted:
  assumes "emptyOutbox m0" "outboxFrom m0 m"
  shows "set (accepted m) \<subseteq> snd ` set (queued m)"
proof
  fix r
  assume "r \<in> set (accepted m)"
  moreover have "\<not> (hasSuffix n jsonSuffix \<and> recordIn m0 n = Some r)" for n
    using assms(1) outboxJSON_set [of m0] by (auto simp: emptyOutbox_def recordIn_def)
  ultimately show "r \<in> snd ` set (queued m)" using assms by (auto simp: outboxFrom_def queuedOrOld_def emptyOutbox_def)
qed

text \<open>
  C8. No alert record is lost or invented between the alert machine and
  ClickHouse.  Over any history of either program's alert manager (evaluations, failing writes,
  restarts, and delivery rounds of the outbox worker with any failures), as long as no two records
  were queued under one file name (the name begins with the nanosecond and contains the random
  identifier): every record ever queued is still whole in its own file of the outbox or was accepted
  by ClickHouse; ClickHouse only accepted records that were queued; and once the outbox is empty it has
  accepted all of them.
\<close>

theorem no_alert_record_lost:
  fixes evs :: "outbox_event list"
  assumes "emptyOutbox m0" "history \<in> {collectorHistory, reprocessHistory}"
  defines "m \<equiv> foldl history m0 evs"
  assumes "distinct (map fst (queued m))"
  shows "(\<forall>(n, r) \<in> set (queued m). fileIn m n = Some (Whole (RecordFile r)) \<or> r \<in> set (accepted m))
    \<and> set (accepted m) \<subseteq> snd ` set (queued m)
    \<and> (outboxJSON m = [] \<longrightarrow> snd ` set (queued m) = set (accepted m))"
proof -
  have run: "outboxFrom m0 m"
    using assms(2) emptyOutbox_from [OF assms(1)] collectorHistory_from reprocessHistory_from by (auto simp: m_def)
  note h = outboxFrom_history [OF assms(1) run assms(4)] and a = outboxFrom_accepted [OF assms(1) run]
  show ?thesis using h a by (intro conjI impI) auto
qed

text \<open>An alert opens in clickhouse mode, the first delivery fails, the second succeeds.\<close>

definition outbox_start :: alertManager where
  "outbox_start = alert_example\<lparr>settings := (settings alert_example)\<lparr>Mode := ''clickhouse'', triggerWindows := 1\<rparr>, sinkFaults := [True]\<rparr>"

definition outbox_events :: "outbox_event list" where
  "outbox_events = [ManagerEvent (Evaluate [example_observation 7] 1000), DeliveryRound, DeliveryRound]"

theorem no_alert_record_lost_witness:
  "let m = foldl collectorHistory outbox_start outbox_events
   in length (queued m) = 1 \<and> outboxJSON m = [] \<and> snd ` set (queued m) = set (accepted m)"
proof -
  define m where "m = foldl collectorHistory outbox_start outbox_events"
  have start: "emptyOutbox outbox_start"
    by (simp add: emptyOutbox_def outbox_start_def alert_example_def good_settings_def isTempName_def outboxJSON_def
        namesIn_def jsonNames_def append_eq_Cons_conv Cons_eq_append_conv)
  have run: "length (queued m) = 1 \<and> outboxJSON m = []" unfolding m_def by code_simp
  then have "distinct (map fst (queued m))" by (cases "queued m") simp_all
  then have "distinct (map fst (queued (foldl collectorHistory outbox_start outbox_events)))" by (simp only: m_def)
  from no_alert_record_lost [OF start _ this, folded m_def] run show ?thesis unfolding m_def [symmetric] Let_def by blast
qed

end
