(* ===== verification/Http.thy ===== *)
theory Http
  imports AlertSink Reprocessor
begin

text \<open>
  The HTTP calls under the sequences of answers the other theories use: the requests the two programs
  build (\<open>executeClickHouseQuery\<close> and \<open>insertBatchToClickHouse\<close> of \<open>main.go\<close>, \<open>executeQuery\<close>,
  \<open>insertFile\<close> and \<open>doRequest\<close> of \<open>reprocesador/reprocessor.go\<close>, \<open>execute\<close> of the two alert sinks),
  what \<open>http.Client.Do\<close> makes of them when a server redirects, and when the result counts as
  success.  \<open>url.Parse\<close> with \<open>URL.Query\<close> is an argument.
\<close>

section \<open>Requests\<close>

record http_request =
  httpMethod :: string
  httpURL :: string
  contentType :: "string option"
  basicAuth :: "(string \<times> string) option"
  requestBody :: bytes

definition authOf :: "string \<Rightarrow> string \<Rightarrow> (string \<times> string) option" where
  "authOf user pass = (if user \<noteq> [] then Some (user, pass) else None)"

definition executeClickHouseQueryRequest :: "collectorConfig \<Rightarrow> string \<Rightarrow> http_request" where
  "executeClickHouseQueryRequest cfg query =
     \<lparr>httpMethod = ''POST'', httpURL = trimRight (\<lambda>c. c = CHR ''/'') (clickhouseURL cfg) @ ''/?query='' @ queryEscape query,
      contentType = None, basicAuth = authOf (clickhouseUser cfg) (clickhousePass cfg), requestBody = []\<rparr>"


text \<open>A parsed URL; \<open>Values.Set\<close> replaces a key, \<open>Encode\<close> orders the keys.\<close>

record endpoint =
  urlScheme :: string
  urlHost :: string
  urlPath :: string
  urlValues :: "(string \<times> string) list"

definition setValue :: "string \<Rightarrow> string \<Rightarrow> (string \<times> string) list \<Rightarrow> (string \<times> string) list" where
  "setValue key value vs = filter (\<lambda>(k, _). k \<noteq> key) vs @ [(key, value)]"

definition encodeValues :: "(string \<times> string) list \<Rightarrow> string" where
  "encodeValues vs = joinWith ''&'' (map (\<lambda>(k, v). queryEscape k @ ''='' @ queryEscape v) (sort_key fst vs))"

definition endpointString :: "endpoint \<Rightarrow> string" where
  "endpointString e = urlScheme e @ ''://'' @ urlHost e @ urlPath e @ ''?'' @ encodeValues (urlValues e)"

definition reprocessQueryRequest :: "(string \<Rightarrow> endpoint option) \<Rightarrow> repConfig \<Rightarrow> string \<Rightarrow> http_request option" where
  "reprocessQueryRequest parseURL cfg query =
     (case parseURL (trimRight (\<lambda>c. c = CHR ''/'') (repURL cfg) @ ''/'') of None \<Rightarrow> None
      | Some e \<Rightarrow>
          Some \<lparr>httpMethod = ''POST'', httpURL = endpointString (e\<lparr>urlValues := setValue ''query'' query (urlValues e)\<rparr>),
            contentType = None, basicAuth = authOf (repUser cfg) (repPass cfg), requestBody = []\<rparr>)"

datatype url_error = InsertStatement schema_error | InvalidURL | InvalidScheme string | MissingHost

definition reprocessInsertURL :: "(string \<Rightarrow> endpoint option) \<Rightarrow> string \<Rightarrow> string \<Rightarrow> int \<Rightarrow> string \<Rightarrow> url_error + string" where
  "reprocessInsertURL parseURL baseURL tableName schemaVersion queryID =
     (case reprocessInsertQuery tableName schemaVersion of Inl e \<Rightarrow> Inl (InsertStatement e)
      | Inr query \<Rightarrow>
          (case parseURL (trimRight (\<lambda>c. c = CHR ''/'') baseURL @ ''/'') of None \<Rightarrow> Inl InvalidURL
           | Some e \<Rightarrow>
               (if urlScheme e \<noteq> ''http'' \<and> urlScheme e \<noteq> ''https'' then Inl (InvalidScheme (urlScheme e))
                else if urlHost e = [] then Inl MissingHost
                else let vs = setValue ''query'' query (urlValues e);
                         vs = (if queryID \<noteq> [] then setValue ''query_id'' queryID vs else vs)
                     in Inr (endpointString (e\<lparr>urlValues := vs\<rparr>)))))"

definition insertFileRequest :: "(string \<Rightarrow> endpoint option) \<Rightarrow> (bytes \<Rightarrow> bytes) \<Rightarrow> repConfig \<Rightarrow> candidate \<Rightarrow> bytes \<Rightarrow> url_error + http_request" where
  "insertFileRequest parseURL sha cfg item body =
     (case reprocessInsertURL parseURL (repURL cfg) (MetaTable (candMeta item)) (SchemaVersion (candMeta item))
             (queryIDForFile sha (snd (dataPath item))) of
        Inl e \<Rightarrow> Inl e
      | Inr insertURL \<Rightarrow>
          Inr \<lparr>httpMethod = ''POST'', httpURL = insertURL, contentType = Some ''application/octet-stream'',
            basicAuth = authOf (repUser cfg) (repPass cfg), requestBody = body\<rparr>)"

text \<open>The request of both alert sinks.\<close>

definition sinkRequest :: "(string \<Rightarrow> endpoint option) \<Rightarrow> string \<Rightarrow> string \<Rightarrow> string \<Rightarrow> string \<Rightarrow> bytes \<Rightarrow> string \<Rightarrow> http_request option" where
  "sinkRequest parseURL url user pass query body mime =
     (case parseURL url of None \<Rightarrow> None
      | Some e \<Rightarrow>
          (let e = (if urlPath e = [] then e\<lparr>urlPath := ''/''\<rparr> else e);
               vs = setValue ''date_time_input_format'' ''best_effort'' (setValue ''query'' query (urlValues e))
           in Some \<lparr>httpMethod = ''POST'', httpURL = endpointString (e\<lparr>urlValues := vs\<rparr>), contentType = Some mime,
                basicAuth = authOf user pass, requestBody = body\<rparr>))"

definition collectorSinkRequest :: "(string \<Rightarrow> endpoint option) \<Rightarrow> ClickHouseAlertConfig \<Rightarrow> string \<Rightarrow> bytes \<Rightarrow> string \<Rightarrow> http_request option" where
  "collectorSinkRequest parseURL c = sinkRequest parseURL (chURL c) (chUser c) (chPassword c)"

definition reprocessSinkRequest :: "(string \<Rightarrow> endpoint option) \<Rightarrow> reprocessClickHouseAlertConfig \<Rightarrow> string \<Rightarrow> bytes \<Rightarrow> string \<Rightarrow> http_request option" where
  "reprocessSinkRequest parseURL c = sinkRequest parseURL (rchURL c) (rchUser c) (rchPassword c)"

section \<open>Answers\<close>

text \<open>
  What each request meets: a transport error, or an answer with its status, its \<open>Location\<close> with
  whether it stays within the domain, and its body.  The client stops for lack of an answer when the list ends.
\<close>

datatype hop = Broken string | Answered int "(string \<times> bool) option" string

record http_client =
  followsRedirects :: bool
  rewindsBody :: bool

text \<open>
  The client's rule for a redirect: the next method, and whether the body is sent again, which it
  can be when the body's reader can be rewound (a byte slice, not a file).
\<close>

definition redirectBehavior :: "bool \<Rightarrow> bytes \<Rightarrow> string \<Rightarrow> int \<Rightarrow> (string \<times> bool) option" where
  "redirectBehavior rewinds body meth status =
     (if status = 301 \<or> status = 302 \<or> status = 303
      then Some (if meth \<noteq> ''GET'' \<and> meth \<noteq> ''HEAD'' then ''GET'' else meth, False)
      else if (status = 307 \<or> status = 308) \<and> (rewinds \<or> body = []) then Some (meth, True)
      else None)"

text \<open>
  \<open>Do\<close>: the result and the requests sent, the last one being the one answered; at most ten.
\<close>

fun clientDo :: "http_client \<Rightarrow> http_request \<Rightarrow> http_request list \<Rightarrow> bool \<Rightarrow> http_request \<Rightarrow> hop list
    \<Rightarrow> (string + int \<times> string) \<times> http_request list" where
  "clientDo c first sent withBody req [] = (Inl ''EOF'', sent @ [req])"
| "clientDo c first sent withBody req (Broken e # hops) = (Inl e, sent @ [req])"
| "clientDo c first sent withBody req (Answered status loc text # hops) =
     (case redirectBehavior (rewindsBody c) (requestBody first) (httpMethod req) status of
        None \<Rightarrow> (Inr (status, text), sent @ [req])
      | Some (meth, again) \<Rightarrow>
          (case loc of None \<Rightarrow> (Inr (status, text), sent @ [req])
           | Some (target, sameDomain) \<Rightarrow>
               (let withBody = withBody \<and> again;
                    next_req = \<lparr>httpMethod = meth, httpURL = target, contentType = contentType first,
                      basicAuth = (if sameDomain then basicAuth first else None),
                      requestBody = (if withBody then requestBody first else [])\<rparr>
                in if \<not> followsRedirects c then (Inr (status, text), sent @ [req])
                   else if length sent + 1 \<ge> 10 then (Inl ''stopped after 10 redirects'', sent @ [req])
                   else clientDo c first (sent @ [req]) withBody next_req hops)))"

text \<open>The three copies of the check of a response.\<close>

definition responseError :: "string + int \<times> string \<Rightarrow> string option" where
  "responseError r =
     (case r of
        Inl e \<Rightarrow> Some e
      | Inr (status, text) \<Rightarrow>
          (if status < 200 \<or> status \<ge> 300
           then Some (''clickhouse_status='' @ itoa status @ '' body='' @ trimSpace (take (64 * 1024) text))
           else None))"

definition exchange :: "http_client \<Rightarrow> http_request \<Rightarrow> hop list \<Rightarrow> string option \<times> http_request list" where
  "exchange c req hops = (let (r, sent) = clientDo c req [] True req hops in (responseError r, sent))"

text \<open>
  The clients: the collector's (\<open>newHTTPClient\<close>) and the alert sinks' follow redirects and send byte
  slices; the reprocessor's follows them only when configured to, and sends a file.
\<close>

definition newHTTPClient :: http_client where
  "newHTTPClient = \<lparr>followsRedirects = True, rewindsBody = True\<rparr>"

definition newReprocessClient :: "repConfig \<Rightarrow> http_client" where
  "newReprocessClient cfg = \<lparr>followsRedirects = repAllowHTTPRedirect cfg, rewindsBody = False\<rparr>"

definition executeClickHouseQuery :: "collectorConfig \<Rightarrow> string \<Rightarrow> hop list \<Rightarrow> string option \<times> http_request list" where
  "executeClickHouseQuery cfg query = exchange newHTTPClient (executeClickHouseQueryRequest cfg query)"


definition reprocessDoRequest :: "repConfig \<Rightarrow> http_request \<Rightarrow> hop list \<Rightarrow> string option \<times> http_request list" where
  "reprocessDoRequest cfg = exchange (newReprocessClient cfg)"

text \<open>
  The constructors of the alert sinks check the configuration again; the client they build is
  \<open>newHTTPClient\<close> here, which it equals but for its timeouts.
\<close>

definition newAlertSink :: "string \<Rightarrow> bool \<Rightarrow> string option list \<Rightarrow> int list \<Rightarrow> alertSink" where
  "newAlertSink table create replies nows =
     \<lparr>sinkTable = table, sinkAutoCreate = create, sinkPrepared = False, sinkReplies = replies, sinkServed = [], sinkClock = nows\<rparr>"

definition newClickHouseAlertSink :: "(string \<Rightarrow> (string \<times> string) option) \<Rightarrow> ClickHouseAlertConfig \<Rightarrow> string option list \<Rightarrow> int list
    \<Rightarrow> alert_config_error + alertSink" where
  "newClickHouseAlertSink urlParse c replies nows =
     (case validateClickHouseAlertConfig urlParse c of Some e \<Rightarrow> Inl e
      | None \<Rightarrow> Inr (newAlertSink (chTable c) (chAutoCreate c) replies nows))"

definition newReprocessClickHouseAlertSink :: "(string \<Rightarrow> (string \<times> string) option) \<Rightarrow> reprocessClickHouseAlertConfig \<Rightarrow> string option list
    \<Rightarrow> int list \<Rightarrow> alert_config_error + alertSink" where
  "newReprocessClickHouseAlertSink urlParse c replies nows =
     (case validateReprocessClickHouse urlParse c of Some e \<Rightarrow> Inl e
      | None \<Rightarrow> Inr (newAlertSink (rchTable c) (rchAutoCreate c) replies nows))"

definition reprocessSinkPrepare :: "alertSink \<Rightarrow> sink_error option \<times> alertSink" where
  "reprocessSinkPrepare = sinkPrepare reprocessClickHouseAlertCreateTableDDL"

text \<open>A prepared sink asks for its table once.\<close>

lemma reprocessSinkPrepare_once:
  "reprocessSinkPrepare s = (None, s') \<Longrightarrow> reprocessSinkPrepare s' = (None, s')"
  by (auto simp: reprocessSinkPrepare_def sinkPrepare_def sinkExecute_def Let_def split: if_splits prod.splits option.splits)

text \<open>\<open>execute\<close> of the two alert sinks.\<close>

definition collectorSinkExecute :: "(string \<Rightarrow> endpoint option) \<Rightarrow> ClickHouseAlertConfig \<Rightarrow> string \<Rightarrow> bytes \<Rightarrow> string
    \<Rightarrow> hop list \<Rightarrow> string option \<times> http_request list" where
  "collectorSinkExecute parseURL c query body mime hops =
     (case collectorSinkRequest parseURL c query body mime of
        None \<Rightarrow> (Some ''invalid url'', [])
      | Some req \<Rightarrow> exchange newHTTPClient req hops)"

definition reprocessSinkExecute :: "(string \<Rightarrow> endpoint option) \<Rightarrow> reprocessClickHouseAlertConfig \<Rightarrow> string \<Rightarrow> bytes \<Rightarrow> string
    \<Rightarrow> hop list \<Rightarrow> string option \<times> http_request list" where
  "reprocessSinkExecute parseURL c query body mime hops =
     (case reprocessSinkRequest parseURL c query body mime of
        None \<Rightarrow> (Some ''invalid url'', [])
      | Some req \<Rightarrow> exchange newHTTPClient req hops)"

section \<open>What an acknowledgement is worth\<close>






end
