(* ===== verification/RawSpool.thy ===== *)
theory RawSpool
  imports PacketWorker Outbox
begin

text \<open>
  The raw spool of the collector (\<open>main.go\<close>: \<open>ensureRawSpoolDirs\<close> to \<open>rawSpoolWriter\<close>): a writer
  appends every packet to a file under \<open>open\<close> through a \<open>bufio.Writer\<close>, rotates the file to \<open>done\<close>,
  and passes the packet on to the live insert.  The program keeps the code; its \<open>main\<close> does not start
  the writers.  Here files grow, so a file is its bytes; a call that fails may have written a part.
\<close>

section \<open>Files that grow\<close>

text \<open>
  \<open>rawFaults\<close> has an entry per call: \<open>None\<close> for success, \<open>Some k\<close> for failure, a write after at most
  \<open>k\<close> bytes; an exhausted list means success.  \<open>rawTrace\<close> has every state the disk went through.
\<close>

type_synonym raw_disk = "(path \<times> bytes) list"

record rawFiles =
  rawDisk :: raw_disk
  rawFaults :: "nat option list"
  rawTrace :: "raw_disk list"

definition changeRaw :: "raw_disk \<Rightarrow> rawFiles \<Rightarrow> rawFiles" where
  "changeRaw d w = w\<lparr>rawDisk := d, rawTrace := rawTrace w @ [d]\<rparr>"

definition rawFault :: "rawFiles \<Rightarrow> nat option \<times> rawFiles" where
  "rawFault w = (let (fault, rest) = popOr None (rawFaults w) in (fault, w\<lparr>rawFaults := rest\<rparr>))"

definition rawCall :: "(raw_disk \<Rightarrow> raw_disk) \<Rightarrow> rawFiles \<Rightarrow> bool \<times> rawFiles" where
  "rawCall f w =
     (let (fault, w) = rawFault w in (if fault = None then (True, changeRaw (f (rawDisk w)) w) else (False, w)))"

definition rawQuiet :: "rawFiles \<Rightarrow> bool \<times> rawFiles" where
  "rawQuiet = rawCall (\<lambda>d. d)"

text \<open>\<open>O_CREATE|O_APPEND\<close>: a file that exists keeps its bytes.\<close>

definition openAppend :: "path \<Rightarrow> rawFiles \<Rightarrow> bool \<times> rawFiles" where
  "openAppend p = rawCall (\<lambda>d. case map_of d p of None \<Rightarrow> AList.update p [] d | Some _ \<Rightarrow> d)"

definition renameRaw :: "path \<Rightarrow> path \<Rightarrow> rawFiles \<Rightarrow> bool \<times> rawFiles" where
  "renameRaw src dst w =
     (case map_of (rawDisk w) src of
        None \<Rightarrow> (False, w)
      | Some c \<Rightarrow> rawCall (\<lambda>d. AList.update dst c (AList.delete src d)) w)"

definition removeRaw :: "path \<Rightarrow> rawFiles \<Rightarrow> bool \<times> rawFiles" where
  "removeRaw p w = (if map_of (rawDisk w) p = None then (False, w) else rawCall (AList.delete p) w)"

text \<open>\<open>File.Write\<close>: whether it succeeded, and how many bytes reached the file.\<close>

definition appendRaw :: "path \<Rightarrow> bytes \<Rightarrow> rawFiles \<Rightarrow> (bool \<times> nat) \<times> rawFiles" where
  "appendRaw p bs w =
     (let (fault, w) = rawFault w;
          n = (case fault of None \<Rightarrow> length bs | Some k \<Rightarrow> min k (length bs));
          old = (case map_of (rawDisk w) p of None \<Rightarrow> [] | Some c \<Rightarrow> c)
      in ((fault = None, n), changeRaw (AList.update p (old @ take n bs) (rawDisk w)) w))"

section \<open>The buffered writer\<close>

text \<open>\<open>bufio.Writer\<close>: its error is sticky; a write larger than the buffer goes straight to the file.\<close>

record rawWriter =
  rawPath :: path
  rawBuffered :: bytes
  rawSize :: nat
  rawFailed :: bool

definition newWriterSize :: "path \<Rightarrow> int \<Rightarrow> rawWriter" where
  "newWriterSize p n = \<lparr>rawPath = p, rawBuffered = [], rawSize = (if n \<le> 0 then 4096 else nat n), rawFailed = False\<rparr>"

definition flushRaw :: "rawWriter \<Rightarrow> rawFiles \<Rightarrow> bool \<times> rawWriter \<times> rawFiles" where
  "flushRaw b w =
     (if rawFailed b then (False, b, w)
      else if rawBuffered b = [] then (True, b, w)
      else let ((ok, n), w) = appendRaw (rawPath b) (rawBuffered b) w
           in (ok, b\<lparr>rawBuffered := (if ok then [] else drop n (rawBuffered b)), rawFailed := \<not> ok\<rparr>, w))"

function writeRaw :: "bytes \<Rightarrow> rawWriter \<Rightarrow> rawFiles \<Rightarrow> bool \<times> rawWriter \<times> rawFiles" where
  "writeRaw bs b w =
     (if rawFailed b then (False, b, w)
      else if length bs \<le> rawSize b - length (rawBuffered b)
      then (True, b\<lparr>rawBuffered := rawBuffered b @ bs\<rparr>, w)
      else if rawBuffered b = []
      then let ((ok, n), w) = appendRaw (rawPath b) bs w in writeRaw (drop n bs) (b\<lparr>rawFailed := \<not> ok\<rparr>) w
      else let n = rawSize b - length (rawBuffered b);
               (ok, b, w) = flushRaw (b\<lparr>rawBuffered := rawBuffered b @ take n bs\<rparr>) w
           in writeRaw (drop n bs) b w)"
  by pat_completeness auto
termination
proof (relation "measures [\<lambda>(bs, b, w). if rawFailed b then 0 else 1, \<lambda>(bs, b, w). length bs, \<lambda>(bs, b, w). length (rawBuffered b)]",
    goal_cases)
  case 1
  show ?case by simp
next
  case (2 bs b w x w' ok n)
  then show ?case by (cases "rawFaults w") (auto simp: appendRaw_def Let_def split: prod.splits option.splits)
next
  case (3 bs b w n x ok y b' w')
  then show ?case by (auto simp: flushRaw_def Let_def split: prod.splits if_splits)
qed

declare writeRaw.simps [simp del]

section \<open>Packets as records\<close>

definition rawBinaryMagic :: bytes where "rawBinaryMagic = map of_char (''HCGNRAW2'' @ [CHR 0x0A])"

text \<open>\<open>PutUint64\<close>, and the 18 bytes before the address and the data.\<close>

definition putBE64 :: "u64 \<Rightarrow> bytes" where
  "putBE64 v = putBE32 (ucast (drop_bit 32 v)) @ putBE32 (ucast v)"

definition rawHeader :: "int \<Rightarrow> u16 \<Rightarrow> nat \<Rightarrow> nat \<Rightarrow> bytes" where
  "rawHeader nano port ipLen dataLen =
     putBE32 (of_nat (8 + 2 + 2 + 2 + ipLen + dataLen)) @ putBE64 (word_of_int nano) @ putBE16 port
     @ putBE16 (of_nat ipLen) @ putBE16 (of_nat dataLen)"

text \<open>
  \<open>json.Marshal\<close> of a string escapes quotes, backslashes, control characters and what HTML gives a
  meaning; the strings here are ASCII.
\<close>

definition jsonChar :: "char \<Rightarrow> string" where
  "jsonChar c =
     (let n = of_char c :: nat in
      if c = CHR 0x22 \<or> c = CHR 0x5C then [CHR 0x5C, c]
      else if n = 8 then [CHR 0x5C, CHR ''b''] else if n = 12 then [CHR 0x5C, CHR ''f'']
      else if n = 10 then [CHR 0x5C, CHR ''n''] else if n = 13 then [CHR 0x5C, CHR ''r'']
      else if n = 9 then [CHR 0x5C, CHR ''t'']
      else if n < 32 \<or> c = CHR ''<'' \<or> c = CHR ''>'' \<or> c = CHR ''&''
      then [CHR 0x5C] @ ''u00'' @ [lowerHex (n div 16), lowerHex (n mod 16)]
      else [c])"

definition jsonString :: "string \<Rightarrow> string" where
  "jsonString s = [CHR 0x22] @ concat (map jsonChar s) @ [CHR 0x22]"

definition jsonObject :: "(string \<times> string) list \<Rightarrow> string" where
  "jsonObject members = ''{'' @ joinWith '','' (map (\<lambda>(k, v). jsonString k @ '':'' @ v) members) @ ''}''"

record RawPacketLog =
  ReceivedTime :: string
  LogRouterIP :: string
  LogRouterPort :: u16
  PacketSize :: u16
  RawHex :: string

definition marshalRawPacketLog :: "RawPacketLog \<Rightarrow> string" where
  "marshalRawPacketLog r =
     jsonObject [(''received_time'', jsonString (ReceivedTime r)), (''router_ip'', jsonString (LogRouterIP r)),
       (''router_port'', itoa (uint (LogRouterPort r))), (''packet_size'', itoa (uint (PacketSize r))),
       (''raw_hex'', jsonString (RawHex r))]"

definition peruTimeFromUnixNano :: "int \<Rightarrow> string" where
  "peruTimeFromUnixNano nano =
     (let now = nano div 1000000000 in formatDate ''-'' now @ '' '' @ formatClock '':'' now)"

datatype raw_cause = RouterIPTooLong nat | PacketTooLarge nat | UnsupportedFormat string | RawIO

text \<open>
  The pieces a packet is written in: \<open>writeRawBinaryPacket\<close> makes three writes,
  \<open>writeRawJSONLPacket\<close> one.  \<open>None\<close>: the slice panics.
\<close>

definition rawJSONLPieces :: "UDPPacket \<Rightarrow> (raw_cause + bytes list) option" where
  "rawJSONLPieces packet =
     map_option (\<lambda>data. Inr [map of_char (marshalRawPacketLog
         \<lparr>ReceivedTime = peruTimeFromUnixNano (ReceivedUnixNano packet), LogRouterIP = PacketRouterIP packet,
          LogRouterPort = PacketRouterPort packet, PacketSize = of_nat (Length packet), RawHex = hexEncode data\<rparr>
         @ [CHR 0x0A])])
       (goSlice (Buffer packet) 0 (Length packet))"

definition rawBinaryPieces :: "UDPPacket \<Rightarrow> (raw_cause + bytes list) option" where
  "rawBinaryPieces packet =
     (let routerIP = map of_char (PacketRouterIP packet) in
      if length routerIP > 65535 then Some (Inl (RouterIPTooLong (length routerIP)))
      else map_option (\<lambda>data. if length data > 65535 then Inl (PacketTooLarge (length data))
             else Inr [rawHeader (ReceivedUnixNano packet) (PacketRouterPort packet) (length routerIP) (length data), routerIP, data])
           (goSlice (Buffer packet) 0 (Length packet)))"

definition rawPieces :: "collectorConfig \<Rightarrow> UDPPacket \<Rightarrow> (raw_cause + bytes list) option" where
  "rawPieces cfg packet =
     (if rawFormat cfg = rawFormatBinary then rawBinaryPieces packet
      else if rawFormat cfg = rawFormatJSONL then rawJSONLPieces packet
      else Some (Inl (UnsupportedFormat (rawFormat cfg))))"

fun writePieces :: "bytes list \<Rightarrow> rawWriter \<Rightarrow> rawFiles \<Rightarrow> bool \<times> rawWriter \<times> rawFiles" where
  "writePieces [] b w = (True, b, w)"
| "writePieces (p # ps) b w = (let (ok, b, w) = writeRaw p b w in if ok then writePieces ps b w else (False, b, w))"

definition writeRawPacket :: "collectorConfig \<Rightarrow> UDPPacket \<Rightarrow> rawWriter \<Rightarrow> rawFiles
    \<Rightarrow> (raw_cause option \<times> rawWriter \<times> rawFiles) option" where
  "writeRawPacket cfg packet b w =
     map_option (\<lambda>pieces. case pieces of Inl e \<Rightarrow> (Some e, b, w)
         | Inr ps \<Rightarrow> (let (ok, b, w) = writePieces ps b w in (if ok then None else Some RawIO, b, w)))
       (rawPieces cfg packet)"

section \<open>Open, rotate, recover\<close>

datatype rotate_stage = AtFlush | AtSync | AtClose | AtRename

datatype raw_error =
    RawOpenError int | RawWriteError path raw_cause | RawFlushError path | RawSyncError path
  | RawRotateError path rotate_stage | RawReopenError int | RawShutdownRotateError path rotate_stage

record rawState =
  rawStore :: rawFiles
  rawClock :: "int list"
  liveSends :: "(int \<times> bool) list"
  rawSpooled :: u64
  rawMarshalErrors :: u64
  liveDrops :: u64
  liveSkips :: u64
  liveQueue :: "UDPPacket list"
  rawReleased :: "UDPPacket list"
  rawFatal :: "raw_error list"

definition rawNow :: "rawState \<Rightarrow> int \<times> rawState" where
  "rawNow s = (let (nano, rest) = popOr 0 (rawClock s) in (nano, s\<lparr>rawClock := rest\<rparr>))"

definition onStore :: "(rawFiles \<Rightarrow> 'a \<times> rawFiles) \<Rightarrow> rawState \<Rightarrow> 'a \<times> rawState" where
  "onStore f s = (let (r, w) = f (rawStore s) in (r, s\<lparr>rawStore := w\<rparr>))"

definition rawOpenDir :: "collectorConfig \<Rightarrow> string" where "rawOpenDir cfg = joinPath (rawSpoolBase cfg) ''open''"
definition rawDoneDir :: "collectorConfig \<Rightarrow> string" where "rawDoneDir cfg = joinPath (rawSpoolBase cfg) ''done''"

definition ensureRawSpoolDirs :: "rawFiles \<Rightarrow> string option \<times> rawFiles" where
  "ensureRawSpoolDirs w =
     (let (opened, w) = rawQuiet w in if \<not> opened then (Some ''open'', w)
      else let (made, w) = rawQuiet w in (if made then None else Some ''done'', w))"

text \<open>The clock is read twice for a name; \<open>stamp\<close> formats a time in the zone of the machine.\<close>

definition rawFileName :: "collectorConfig \<Rightarrow> (int \<Rightarrow> string) \<Rightarrow> int \<Rightarrow> int \<Rightarrow> int \<Rightarrow> string" where
  "rawFileName cfg stamp writerID now nano =
     ''raw_'' @ rawFormat cfg @ ''_w'' @ padDigits 2 (nat writerID) @ ''_'' @ stamp now @ ''_'' @ itoa nano @ ''.open''"

definition newRawOpenFile :: "collectorConfig \<Rightarrow> (int \<Rightarrow> string) \<Rightarrow> int \<Rightarrow> rawState \<Rightarrow> rawWriter option \<times> rawState" where
  "newRawOpenFile cfg stamp writerID s =
     (let (now, s) = rawNow s; (nano, s) = rawNow s;
          filePath = (rawOpenDir cfg, rawFileName cfg stamp writerID now nano);
          (opened, s) = onStore (openAppend filePath) s
      in if \<not> opened then (None, s)
      else let b = newWriterSize filePath (rawWriterBufferMB cfg * 1024 * 1024)
      in if rawFormat cfg \<noteq> rawFormatBinary then (Some b, s)
      else let (ok, b, w) = writeRaw rawBinaryMagic b (rawStore s)
      in if ok then (Some b, s\<lparr>rawStore := w\<rparr>)
      else let (_, w) = rawQuiet w; (_, w) = removeRaw filePath w in (None, s\<lparr>rawStore := w\<rparr>))"

definition trimSuffix :: "string \<Rightarrow> string \<Rightarrow> string" where
  "trimSuffix s suf = (if hasSuffix s suf then take (length s - length suf) s else s)"

definition rawDonePath :: "collectorConfig \<Rightarrow> string \<Rightarrow> path" where
  "rawDonePath cfg name = (rawDoneDir cfg, trimSuffix name ''.open'' @ ''.done'')"

definition rotateRawFile :: "collectorConfig \<Rightarrow> rawWriter \<Rightarrow> rawFiles \<Rightarrow> rotate_stage option \<times> rawFiles" where
  "rotateRawFile cfg b w =
     (let (flushed, b, w) = flushRaw b w
      in if \<not> flushed then (Some AtFlush, w)
      else let (synced, w) = rawQuiet w
      in if \<not> synced then (Some AtSync, w)
      else let (closed, w) = rawQuiet w
      in if \<not> closed then (Some AtClose, w)
      else let (renamed, w) = renameRaw (rawPath b) (rawDonePath cfg (snd (rawPath b))) w
      in (if renamed then None else Some AtRename, w))"

definition closeEmptyRawFile :: "rawWriter \<Rightarrow> rawFiles \<Rightarrow> rawFiles" where
  "closeEmptyRawFile b w =
     (let (_, _, w) = flushRaw b w; (_, w) = rawQuiet w; (_, w) = removeRaw (rawPath b) w in w)"

text \<open>\<open>filepath.Glob\<close> of \<open>*.open\<close>; a file that cannot be moved is left.\<close>

definition recoverRawFile :: "collectorConfig \<Rightarrow> string \<Rightarrow> rawFiles \<Rightarrow> rawFiles" where
  "recoverRawFile cfg name w = snd (renameRaw (rawOpenDir cfg, name) (rawDonePath cfg name) w)"

definition recoverRawSpool :: "collectorConfig \<Rightarrow> rawFiles \<Rightarrow> rawFiles" where
  "recoverRawSpool cfg w =
     fold (recoverRawFile cfg)
       (sort (remdups (map snd (filter (\<lambda>p. fst p = rawOpenDir cfg \<and> hasSuffix (snd p) ''.open'') (map fst (rawDisk w)))))) w"

section \<open>The live insert\<close>

definition skipLiveInsert :: "rawState \<Rightarrow> rawState" where
  "skipLiveInsert s = s\<lparr>liveDrops := liveDrops s + 1, liveSkips := liveSkips s + 1\<rparr>"

text \<open>As in \<open>sendInsertBatch\<close>: the length of the channel, and whether it takes the packet in time.\<close>

definition enqueueForLiveInsert :: "collectorConfig \<Rightarrow> int \<Rightarrow> UDPPacket \<Rightarrow> rawState \<Rightarrow> bool \<times> rawState" where
  "enqueueForLiveInsert cfg capacity packet s =
     (if liveInsertOverloadPolicy cfg \<noteq> ''raw_only'' then (True, s\<lparr>liveQueue := liveQueue s @ [packet]\<rparr>)
      else let ((len, takes), rest) = popOr (0, True) (liveSends s);
               s = s\<lparr>liveSends := rest\<rparr>
           in if queueUsagePct len capacity \<ge> liveInsertQueueHighWatermarkPct cfg then (False, skipLiveInsert s)
              else if takes then (True, s\<lparr>liveQueue := liveQueue s @ [packet]\<rparr>)
              else (False, skipLiveInsert s))"

section \<open>The writer\<close>

text \<open>\<open>main\<close> makes the channel of fatal errors for one: an error that finds it full is dropped.\<close>

definition reportFatal :: "raw_error \<Rightarrow> rawState \<Rightarrow> rawState" where
  "reportFatal e s = (if rawFatal s = [] then s\<lparr>rawFatal := [e]\<rparr> else s)"

definition releaseRaw :: "UDPPacket \<Rightarrow> rawState \<Rightarrow> rawState" where
  "releaseRaw packet s = s\<lparr>rawReleased := rawReleased s @ [packet]\<rparr>"

text \<open>The variables of \<open>rawSpoolWriter\<close> between two packets; a turn ends with them or returns.\<close>

record rawLoop =
  loopWriter :: rawWriter
  packetCount :: int
  createdAt :: int

definition syncRaw :: "collectorConfig \<Rightarrow> UDPPacket \<Rightarrow> rawLoop \<Rightarrow> rawState \<Rightarrow> rawState + rawLoop \<times> rawState" where
  "syncRaw cfg packet l s =
     (if \<not> (syncEveryPackets cfg > 0 \<and> packetCount l mod syncEveryPackets cfg = 0) then Inr (l, s)
      else let (flushed, b, w) = flushRaw (loopWriter l) (rawStore s);
               l = l\<lparr>loopWriter := b\<rparr>; s = s\<lparr>rawStore := w\<rparr>
           in if \<not> flushed then Inl (reportFatal (RawFlushError (rawPath b)) (releaseRaw packet s))
           else let (synced, s) = onStore rawQuiet s
                in if \<not> synced then Inl (reportFatal (RawSyncError (rawPath b)) (releaseRaw packet s)) else Inr (l, s))"

definition shouldRotate :: "collectorConfig \<Rightarrow> int \<Rightarrow> int \<Rightarrow> bool" where
  "shouldRotate cfg packets fileAge =
     (packets \<ge> maxPacketsPerFile cfg
      \<or> packets \<ge> minPacketsPerFile cfg \<and> fileAge \<ge> rotateSeconds cfg * 1000000000
      \<or> fileAge \<ge> forceRotateSeconds cfg * 1000000000)"

definition rotateIfDue :: "collectorConfig \<Rightarrow> (int \<Rightarrow> string) \<Rightarrow> int \<Rightarrow> UDPPacket \<Rightarrow> rawLoop \<Rightarrow> rawState
    \<Rightarrow> rawState + rawLoop \<times> rawState" where
  "rotateIfDue cfg stamp writerID packet l s =
     (let (now, s) = rawNow s in
      if \<not> shouldRotate cfg (packetCount l) (now - createdAt l) then Inr (l, s)
      else let (stage, s) = onStore (rotateRawFile cfg (loopWriter l)) s
      in case stage of
           Some st \<Rightarrow> Inl (reportFatal (RawRotateError (rawPath (loopWriter l)) st) (releaseRaw packet s))
         | None \<Rightarrow>
             (let (opened, s) = newRawOpenFile cfg stamp writerID s
              in case opened of
                   None \<Rightarrow> Inl (reportFatal (RawReopenError writerID) (releaseRaw packet s))
                 | Some b \<Rightarrow>
                     (let (now, s) = rawNow s in Inr (\<lparr>loopWriter = b, packetCount = 0, createdAt = now\<rparr>, s))))"

definition rawTurn :: "collectorConfig \<Rightarrow> (int \<Rightarrow> string) \<Rightarrow> int \<Rightarrow> int \<Rightarrow> UDPPacket \<Rightarrow> rawLoop \<Rightarrow> rawState
    \<Rightarrow> (rawState + rawLoop \<times> rawState) option" where
  "rawTurn cfg stamp writerID capacity packet l s =
     map_option (\<lambda>(cause, b, w).
        let s = s\<lparr>rawStore := w\<rparr>; path = rawPath (loopWriter l) in
        case cause of
          Some e \<Rightarrow> Inl (reportFatal (RawWriteError path e) (releaseRaw packet (s\<lparr>rawMarshalErrors := rawMarshalErrors s + 1\<rparr>)))
        | None \<Rightarrow>
            (let l = l\<lparr>loopWriter := b, packetCount := packetCount l + 1\<rparr>; s = s\<lparr>rawSpooled := rawSpooled s + 1\<rparr> in
             case syncRaw cfg packet l s of Inl s \<Rightarrow> Inl s
             | Inr (l, s) \<Rightarrow>
                 (case rotateIfDue cfg stamp writerID packet l s of Inl s \<Rightarrow> Inl s
                  | Inr (l, s) \<Rightarrow>
                      (let (sent, s) = enqueueForLiveInsert cfg capacity packet s
                       in Inr (l, if sent then s else releaseRaw packet s)))))
       (writeRawPacket cfg packet (loopWriter l) (rawStore s))"

definition rawFinish :: "collectorConfig \<Rightarrow> rawLoop \<Rightarrow> rawState \<Rightarrow> rawState" where
  "rawFinish cfg l s =
     (if packetCount l > 0
      then let (stage, s) = onStore (rotateRawFile cfg (loopWriter l)) s
           in case stage of None \<Rightarrow> s | Some st \<Rightarrow> reportFatal (RawShutdownRotateError (rawPath (loopWriter l)) st) s
      else s\<lparr>rawStore := closeEmptyRawFile (loopWriter l) (rawStore s)\<rparr>)"

text \<open>The packets the channel delivers until it is closed; the packets left when the writer returned.\<close>

fun rawLoopRun :: "collectorConfig \<Rightarrow> (int \<Rightarrow> string) \<Rightarrow> int \<Rightarrow> int \<Rightarrow> UDPPacket list \<Rightarrow> rawLoop \<Rightarrow> rawState
    \<Rightarrow> (UDPPacket list \<times> rawState) option" where
  "rawLoopRun cfg stamp writerID capacity [] l s = Some ([], rawFinish cfg l s)"
| "rawLoopRun cfg stamp writerID capacity (packet # packets) l s =
     (case rawTurn cfg stamp writerID capacity packet l s of
        None \<Rightarrow> None
      | Some (Inl s) \<Rightarrow> Some (packets, s)
      | Some (Inr (l, s)) \<Rightarrow> rawLoopRun cfg stamp writerID capacity packets l s)"

definition rawSpoolWriter :: "collectorConfig \<Rightarrow> (int \<Rightarrow> string) \<Rightarrow> int \<Rightarrow> int \<Rightarrow> UDPPacket list \<Rightarrow> rawState
    \<Rightarrow> (UDPPacket list \<times> rawState) option" where
  "rawSpoolWriter cfg stamp writerID capacity packets s =
     (let (opened, s) = newRawOpenFile cfg stamp writerID s
      in case opened of
           None \<Rightarrow> Some (packets, reportFatal (RawOpenError writerID) s)
         | Some b \<Rightarrow>
             (let (now, s) = rawNow s
              in rawLoopRun cfg stamp writerID capacity packets \<lparr>loopWriter = b, packetCount = 0, createdAt = now\<rparr> s))"

end
