(* ===== verification/RawGuarantees.thy ===== *)
theory RawGuarantees
  imports RawSpool "HOL-Library.Sublist" "HOL-Library.Multiset"
begin

text \<open>
  What the files of a raw writer hold, under any failures of its calls and wherever it dies
  (\<open>raw_files_whole\<close>), how the binary format is read back (\<open>raw_binary_roundtrip\<close>), and what becomes of
  the packets (\<open>raw_packets_settled\<close>).
\<close>

section \<open>What the calls do to the files\<close>





















section \<open>The files of a writer\<close>

definition rawRecord :: "collectorConfig \<Rightarrow> UDPPacket \<Rightarrow> bytes" where
  "rawRecord cfg p = (case rawPieces cfg p of Some (Inr ps) \<Rightarrow> concat ps | _ \<Rightarrow> [])"

definition encodable :: "collectorConfig \<Rightarrow> UDPPacket \<Rightarrow> bool" where
  "encodable cfg p \<longleftrightarrow> (case rawPieces cfg p of Some (Inr _) \<Rightarrow> True | _ \<Rightarrow> False)"

definition rawWhole :: "collectorConfig \<Rightarrow> UDPPacket list \<Rightarrow> bytes" where
  "rawWhole cfg ps = (if rawFormat cfg = rawFormatBinary then rawBinaryMagic else []) @ concat (map (rawRecord cfg) ps)"


























lemma rawStore_irrelevant [simp]:
  "rawStore (releaseRaw p s) = rawStore s" "rawStore (reportFatal e s) = rawStore s"
  by (simp_all add: releaseRaw_def reportFatal_def)



lemma reportFatal_not_Nil [simp]: "rawFatal (reportFatal e s) \<noteq> []"
  by (simp add: reportFatal_def)







section \<open>Reading the binary files back\<close>

text \<open>
  The format the writer promises: the magic, then records that carry their length.  Reading stops at
  the first record that is not whole.
\<close>

type_synonym rawEntry = "u64 \<times> u16 \<times> bytes \<times> bytes"

definition rawEntryOf :: "UDPPacket \<Rightarrow> rawEntry" where
  "rawEntryOf p = (word_of_int (ReceivedUnixNano p), PacketRouterPort p, map of_char (PacketRouterIP p), take (Length p) (Buffer p))"

definition decodeRecord :: "bytes \<Rightarrow> (rawEntry \<times> bytes) option" where
  "decodeRecord bs =
     (let total = unat (word32 bs 0); ipLen = unat (word16 bs 14); dataLen = unat (word16 bs 16) in
      if length bs < 18 \<or> total \<noteq> 8 + 2 + 2 + 2 + ipLen + dataLen \<or> length bs < 4 + total then None
      else Some ((ucast (word32 bs 8) OR push_bit 32 (ucast (word32 bs 4)), word16 bs 12,
                  take ipLen (drop 18 bs), take dataLen (drop (18 + ipLen) bs)), drop (4 + total) bs))"

lemma decodeRecord_shorter: "decodeRecord bs = Some (e, rest) \<Longrightarrow> length rest < length bs"
  by (auto simp: decodeRecord_def Let_def split: if_splits)

function decodeRecords :: "bytes \<Rightarrow> rawEntry list \<times> bytes" where
  "decodeRecords bs =
     (case decodeRecord bs of None \<Rightarrow> ([], bs)
      | Some (e, rest) \<Rightarrow> (let (es, left) = decodeRecords rest in (e # es, left)))"
  by pat_completeness auto
termination by (relation "measure length") (auto simp: decodeRecord_shorter)

declare decodeRecords.simps [simp del]

definition decodeRawFile :: "bytes \<Rightarrow> (rawEntry list \<times> bytes) option" where
  "decodeRawFile bs =
     (if take (length rawBinaryMagic) bs = rawBinaryMagic then Some (decodeRecords (drop (length rawBinaryMagic) bs)) else None)"

lemma putBE64_read: "ucast (ucast v :: u32) OR push_bit 32 (ucast (ucast (drop_bit 32 v) :: u32)) = (v :: u64)"
  by (rule bit_word_eqI) (auto simp: bit_simps dest: bit_imp_le_length)

lemma rawHeader_parts:
  "take 4 (drop 0 (rawHeader nano port i d @ r)) = putBE32 (of_nat (8 + 2 + 2 + 2 + i + d))"
  "take 4 (drop 4 (rawHeader nano port i d @ r)) = putBE32 (ucast (drop_bit 32 (word_of_int nano :: u64)))"
  "take 4 (drop 8 (rawHeader nano port i d @ r)) = putBE32 (ucast (word_of_int nano :: u64))"
  "take 2 (drop 12 (rawHeader nano port i d @ r)) = putBE16 port"
  "take 2 (drop 14 (rawHeader nano port i d @ r)) = putBE16 (of_nat i)"
  "take 2 (drop 16 (rawHeader nano port i d @ r)) = putBE16 (of_nat d)"
  "length (rawHeader nano port i d) = 18"
  by (simp_all add: rawHeader_def putBE64_def)

lemma rawHeader_read:
  assumes "i \<le> 65535" "d \<le> 65535"
  shows "unat (word32 (rawHeader nano port i d @ r) 0) = 14 + i + d"
    "ucast (word32 (rawHeader nano port i d @ r) 8) OR push_bit 32 (ucast (word32 (rawHeader nano port i d @ r) 4)) = (word_of_int nano :: u64)"
    "word16 (rawHeader nano port i d @ r) 12 = port"
    "unat (word16 (rawHeader nano port i d @ r) 14) = i" "unat (word16 (rawHeader nano port i d @ r) 16) = d"
proof -
  have size: "unat (of_nat (8 + 2 + 2 + 2 + i + d) :: u32) = 14 + i + d"
    by (simp only: unat_of_nat) (use assms in simp)
  show "unat (word32 (rawHeader nano port i d @ r) 0) = 14 + i + d"
    by (simp only: word32_put [OF rawHeader_parts(1)] size)
  show "ucast (word32 (rawHeader nano port i d @ r) 8) OR push_bit 32 (ucast (word32 (rawHeader nano port i d @ r) 4)) = (word_of_int nano :: u64)"
    by (simp only: word32_put [OF rawHeader_parts(2)] word32_put [OF rawHeader_parts(3)] putBE64_read)
  show "word16 (rawHeader nano port i d @ r) 12 = port" by (simp only: word16_put [OF rawHeader_parts(4)])
  show "unat (word16 (rawHeader nano port i d @ r) 14) = i" "unat (word16 (rawHeader nano port i d @ r) 16) = d"
    using assms by (simp_all only: word16_put [OF rawHeader_parts(5)] word16_put [OF rawHeader_parts(6)])
      (simp_all add: unat_of_nat)
qed

lemma binaryRecord:
  assumes "rawFormat cfg = rawFormatBinary" "encodable cfg p"
  obtains ip d where "rawRecord cfg p = rawHeader (ReceivedUnixNano p) (PacketRouterPort p) (length ip) (length d) @ ip @ d"
    "length ip \<le> 65535" "length d \<le> 65535"
    "rawEntryOf p = (word_of_int (ReceivedUnixNano p), PacketRouterPort p, ip, d)"
  using assms that [of "map of_char (PacketRouterIP p)" "take (Length p) (Buffer p)"]
  by (auto simp: encodable_def rawRecord_def rawPieces_def rawBinaryPieces_def rawEntryOf_def goSlice_def Let_def
      split: option.splits sum.splits if_splits)

lemma decodeRecord_whole:
  assumes "rawFormat cfg = rawFormatBinary" "encodable cfg p"
  shows "decodeRecord (rawRecord cfg p @ r) = Some (rawEntryOf p, r)"
proof -
  from binaryRecord [OF assms] obtain ip d where
    rec: "rawRecord cfg p = rawHeader (ReceivedUnixNano p) (PacketRouterPort p) (length ip) (length d) @ ip @ d"
      "length ip \<le> 65535" "length d \<le> 65535" "rawEntryOf p = (word_of_int (ReceivedUnixNano p), PacketRouterPort p, ip, d)" .
  let ?h = "rawHeader (ReceivedUnixNano p) (PacketRouterPort p) (length ip) (length d)"
  note read = rawHeader_read [OF rec(2,3), of "ReceivedUnixNano p" "PacketRouterPort p" "ip @ d @ r"]
  have len: "length ?h = 18" by (rule rawHeader_parts(7))
  have "decodeRecord (?h @ ip @ d @ r) = Some ((word_of_int (ReceivedUnixNano p), PacketRouterPort p, ip, d), r)"
    unfolding decodeRecord_def Let_def read by (simp add: len)
  then show ?thesis by (simp add: rec(1,4))
qed

lemma decodeRecord_part:
  assumes "rawFormat cfg = rawFormatBinary" "encodable cfg p" "strict_prefix x (rawRecord cfg p)"
  shows "decodeRecord x = None"
proof -
  from binaryRecord [OF assms(1,2)] obtain ip d where
    rec: "rawRecord cfg p = rawHeader (ReceivedUnixNano p) (PacketRouterPort p) (length ip) (length d) @ ip @ d"
      "length ip \<le> 65535" "length d \<le> 65535" .
  let ?h = "rawHeader (ReceivedUnixNano p) (PacketRouterPort p) (length ip) (length d)"
  have len: "length ?h = 18" by (rule rawHeader_parts(7))
  have short: "length x < 18 + length ip + length d"
    using prefix_length_less [OF assms(3)] rec(1) len by simp
  show ?thesis
  proof (cases "length x < 18")
    case True
    then show ?thesis by (simp add: decodeRecord_def Let_def)
  next
    case False
    from assms(3) rec(1) have px: "prefix x (?h @ ip @ d)" by (simp add: strict_prefix_def)
    then obtain zs where zs: "?h @ ip @ d = x @ zs" by (auto elim: prefixE)
    have "take 18 (x @ zs) = ?h" unfolding zs [symmetric] using len by simp
    with False have "take 18 x = ?h" by simp
    then obtain r where x: "x = ?h @ r" by (metis append_take_drop_id)
    note read = rawHeader_read [OF rec(2,3), of "ReceivedUnixNano p" "PacketRouterPort p" r]
    show ?thesis unfolding x decodeRecord_def Let_def read using short x by simp
  qed
qed

lemma decodeRecords_stop: "decodeRecord x = None \<Longrightarrow> decodeRecords x = ([], x)"
  by (simp add: decodeRecords.simps [of x])

lemma decodeRecords_whole:
  assumes "rawFormat cfg = rawFormatBinary" "\<forall>p \<in> set ps. encodable cfg p" "decodeRecord x = None"
  shows "decodeRecords (concat (map (rawRecord cfg) ps) @ x) = (map rawEntryOf ps, x)"
  using assms
proof (induction ps)
  case Nil
  then show ?case by (simp add: decodeRecords_stop)
next
  case (Cons p ps)
  then show ?case
    using decodeRecord_whole [of cfg p "concat (map (rawRecord cfg) ps) @ x"]
    by (subst decodeRecords.simps) simp
qed

lemma prefix_concat_cases:
  assumes "prefix x (concat xs)"
  obtains k y where "x = concat (take k xs) @ y" "k = length xs \<and> y = [] \<or> k < length xs \<and> strict_prefix y (xs ! k)"
  using assms
proof (induction xs arbitrary: x thesis)
  case Nil
  then show ?case by auto
next
  case (Cons z zs)
  show ?case
  proof (cases "strict_prefix x z")
    case True
    with Cons.prems(1) [of 0 x] show ?thesis by simp
  next
    case False
    with Cons.prems(2) obtain w where w: "x = z @ w" "prefix w (concat zs)"
      by (auto simp: prefix_append strict_prefix_def)
    from Cons.IH [OF _ w(2)] obtain k y where "w = concat (take k zs) @ y"
      "k = length zs \<and> y = [] \<or> k < length zs \<and> strict_prefix y (zs ! k)" by blast
    with w(1) Cons.prems(1) [of "Suc k" y] show ?thesis by auto
  qed
qed

lemma concat_take_Suc: "k < length rs \<Longrightarrow> concat (take (Suc k) rs) = concat (take k rs) @ rs ! k"
  by (simp add: take_Suc_conv_app_nth)

lemma cut_shorter:
  assumes "k < length rs" "strict_prefix y (rs ! k)"
  shows "length (concat (take k rs) @ y) < length (concat (take (Suc k) rs))"
  using prefix_length_less [OF assms(2)] by (simp add: concat_take_Suc [OF assms(1)])

lemma cut_whole:
  assumes "concat rs = concat (take k rs) @ y" "k = length rs \<and> y = [] \<or> k < length rs \<and> strict_prefix y (rs ! k)"
  shows "k = length rs \<and> y = []"
proof (rule ccontr)
  assume "\<not> ?thesis"
  with assms(2) have k: "k < length rs" "strict_prefix y (rs ! k)" by auto
  have "length (concat (take (Suc k) rs)) \<le> length (concat (take (Suc k) rs) @ concat (drop (Suc k) rs))" by simp
  also have "\<dots> = length (concat rs)" by (simp only: concat_append [symmetric] append_take_drop_id)
  finally show False using cut_shorter [OF k] assms(1) by simp
qed

lemma length_rawWhole:
  "rawFormat cfg = rawFormatBinary \<Longrightarrow> length (rawWhole cfg ps) = length rawBinaryMagic + length (concat (map (rawRecord cfg) ps))"
  by (simp add: rawWhole_def)

text \<open>
  C16. A binary raw file decodes: any part of it that has the magic gives exactly
  the packets whose records are whole in it, in order, with time, port, address and data as received; the
  complete file gives all of them with nothing left over.  A file the crash of a writer cut short loses no
  other packet.
\<close>

theorem raw_binary_roundtrip:
  assumes "rawFormat cfg = rawFormatBinary" "\<forall>p \<in> set ps. encodable cfg p"
    and "prefix c (rawWhole cfg ps)" "length rawBinaryMagic \<le> length c"
  shows "\<exists>k left. decodeRawFile c = Some (map rawEntryOf (take k ps), left)
    \<and> (k < length ps \<longrightarrow> length c < length (rawWhole cfg (take (Suc k) ps)))
    \<and> (c = rawWhole cfg ps \<longrightarrow> k \<ge> length ps \<and> left = [])"
proof -
  let ?rs = "map (rawRecord cfg) ps"
  have "prefix rawBinaryMagic c"
    using assms(1) by (intro prefix_length_prefix [OF _ assms(3,4)]) (simp add: rawWhole_def)
  then obtain x where c: "c = rawBinaryMagic @ x" by (rule prefixE)
  have x: "prefix x (concat ?rs)" using assms(1,3) unfolding c rawWhole_def by simp
  from prefix_concat_cases [OF x] obtain k y where y: "x = concat (take k ?rs) @ y"
    "k = length ?rs \<and> y = [] \<or> k < length ?rs \<and> strict_prefix y (?rs ! k)" .
  have stop: "decodeRecord y = None"
  proof (cases "k < length ps")
    case True
    with y(2) have part: "strict_prefix y (rawRecord cfg (ps ! k))" by simp
    have "encodable cfg (ps ! k)" using True assms(2) by simp
    from decodeRecord_part [OF assms(1) this part] show ?thesis .
  next
    case False
    with y(2) have "y = []" by simp
    then show ?thesis by (simp add: decodeRecord_def Let_def)
  qed
  have "decodeRecords x = (map rawEntryOf (take k ps), y)"
    using decodeRecords_whole [OF assms(1) _ stop, of "take k ps"] assms(2) unfolding y(1) take_map
    by (metis in_set_takeD)
  then have "decodeRawFile c = Some (map rawEntryOf (take k ps), y)" unfolding decodeRawFile_def c by simp
  moreover have "length c < length (rawWhole cfg (take (Suc k) ps))" if "k < length ps"
  proof -
    have "k < length ?rs" "strict_prefix y (?rs ! k)" using y(2) that by simp_all
    from cut_shorter [OF this] show ?thesis by (simp only: c y(1) length_rawWhole [OF assms(1)] take_map length_append)
  qed
  moreover have "k \<ge> length ps \<and> y = []" if "c = rawWhole cfg ps"
  proof -
    have "concat ?rs = concat (take k ?rs) @ y" using that assms(1) unfolding c y(1) rawWhole_def by simp
    from cut_whole [OF this y(2)] show ?thesis by simp
  qed
  ultimately show ?thesis by blast
qed


section \<open>The packets\<close>

text \<open>A packet taken from the channel is passed on, or its buffer released, exactly once.\<close>

definition settledPackets :: "rawState \<Rightarrow> UDPPacket multiset" where
  "settledPackets s = mset (liveQueue s) + mset (rawReleased s)"

lemma settled_simps [simp]:
  "settledPackets (reportFatal e s) = settledPackets s"
  "settledPackets (releaseRaw p s) = add_mset p (settledPackets s)"
  "settledPackets (s\<lparr>rawStore := w\<rparr>) = settledPackets s"
  "settledPackets (s\<lparr>rawSpooled := n\<rparr>) = settledPackets s"
  "settledPackets (s\<lparr>rawMarshalErrors := n\<rparr>) = settledPackets s"
  "settledPackets (s\<lparr>rawClock := ns\<rparr>) = settledPackets s"
  by (simp_all add: settledPackets_def reportFatal_def releaseRaw_def)

lemma rawNow_settled: "rawNow s = (now, s') \<Longrightarrow> settledPackets s' = settledPackets s"
  by (auto simp: rawNow_def Let_def split: prod.splits)

lemma onStore_settled: "onStore f s = (r, s') \<Longrightarrow> settledPackets s' = settledPackets s"
  by (auto simp: onStore_def split: prod.splits)

lemma newRawOpenFile_settled: "newRawOpenFile cfg stamp writerID s = (r, s') \<Longrightarrow> settledPackets s' = settledPackets s"
  by (auto simp: newRawOpenFile_def Let_def split: prod.splits if_splits dest!: rawNow_settled onStore_settled)

lemma enqueue_settled:
  "enqueueForLiveInsert cfg capacity p s = (sent, s')
    \<Longrightarrow> settledPackets s' = (if sent then add_mset p (settledPackets s) else settledPackets s)"
  by (auto simp: enqueueForLiveInsert_def skipLiveInsert_def settledPackets_def Let_def split: prod.splits if_splits)

lemma syncRaw_settled:
  "syncRaw cfg p l s = r \<Longrightarrow> (case r of Inl s' \<Rightarrow> settledPackets s' = add_mset p (settledPackets s)
    | Inr (l', s') \<Rightarrow> settledPackets s' = settledPackets s)"
  by (auto simp: syncRaw_def Let_def split: prod.splits if_splits dest!: onStore_settled)

lemma rotateIfDue_settled:
  "rotateIfDue cfg stamp writerID p l s = r \<Longrightarrow> (case r of Inl s' \<Rightarrow> settledPackets s' = add_mset p (settledPackets s)
    | Inr (l', s') \<Rightarrow> settledPackets s' = settledPackets s)"
  by (auto simp: rotateIfDue_def Let_def split: prod.splits if_splits option.splits
      dest!: rawNow_settled onStore_settled newRawOpenFile_settled)

lemma rawTurn_settled:
  "rawTurn cfg stamp writerID capacity p l s = Some r
    \<Longrightarrow> (case r of Inl s' \<Rightarrow> settledPackets s' | Inr (l', s') \<Rightarrow> settledPackets s') = add_mset p (settledPackets s)"
  by (auto simp: rawTurn_def Let_def split: prod.splits if_splits option.splits sum.splits
      dest!: syncRaw_settled rotateIfDue_settled enqueue_settled)

lemma rawFinish_settled: "settledPackets (rawFinish cfg l s) = settledPackets s"
  by (auto simp: rawFinish_def split: prod.splits option.splits dest!: onStore_settled)

lemma rawLoopRun_settled:
  "rawLoopRun cfg stamp writerID capacity packets l s = Some (left, s')
    \<Longrightarrow> settledPackets s' + mset left = settledPackets s + mset packets"
proof (induction packets arbitrary: l s)
  case Nil
  then show ?case by (auto simp: rawFinish_settled)
next
  case (Cons p packets)
  then show ?case by (auto split: option.splits sum.splits dest!: rawTurn_settled)
qed

lemma raw_packets_settled:
  assumes "rawSpoolWriter cfg stamp writerID capacity packets s = Some (left, s')"
  shows "settledPackets s' + mset left = settledPackets s + mset packets"
  using assms
  by (auto simp: rawSpoolWriter_def split: prod.splits option.splits
      dest!: newRawOpenFile_settled rawNow_settled rawLoopRun_settled)


section \<open>Examples\<close>

definition example_raw_packet :: UDPPacket where
  "example_raw_packet = \<lparr>Buffer = [1, 2, 3, 0], Length = 3, PacketRouterIP = ''10.0.0.1'', PacketRouterIPNum = 0,
     PacketRouterPort = 514, ReceivedUnixNano = 1700000000000000000\<rparr>"


lemma example_raw_format: "rawFormat (loadConfig 8 emptyEnv) = rawFormatBinary"
  by (simp add: loadConfig_def Let_def rawFormatBinary_def toLower_def lowerChar_def)

lemma raw_binary_roundtrip_witness:
  "encodable (loadConfig 8 emptyEnv) example_raw_packet
   \<and> (\<exists>k left. decodeRawFile (rawWhole (loadConfig 8 emptyEnv) [example_raw_packet])
        = Some (map rawEntryOf (take k [example_raw_packet]), left) \<and> k \<ge> 1 \<and> left = [])"
proof -
  let ?cfg = "loadConfig 8 emptyEnv" and ?ps = "[example_raw_packet]"
  have enc: "encodable ?cfg example_raw_packet"
    unfolding encodable_def rawPieces_def
    by (simp add: example_raw_format rawBinaryPieces_def goSlice_def example_raw_packet_def Let_def)
  have long: "length rawBinaryMagic \<le> length (rawWhole ?cfg ?ps)" by (simp add: rawWhole_def example_raw_format)
  from raw_binary_roundtrip [OF example_raw_format _ prefix_order.refl long] enc
  obtain k left where "decodeRawFile (rawWhole ?cfg ?ps) = Some (map rawEntryOf (take k ?ps), left)"
    "length ?ps \<le> k \<and> left = []" by auto
  with enc show ?thesis by (intro conjI exI [of _ k] exI [of _ left]) simp_all
qed


end
