(* ===== verification/Metrics.thy ===== *)
theory Metrics
  imports ReceiveLoop
begin

text \<open>
  The figures of the collector's metrics line (\<open>metricsLogger\<close> in \<open>main.go\<close>, with \<open>spoolModeLabel\<close> and the
  helpers on channels): what happened since the line before, computed from counters that only grow,
  modulo the width of a word.  A channel is its length and its capacity.
\<close>

section \<open>Channels\<close>

definition spoolModeLabel :: "collectorConfig \<Rightarrow> string" where
  "spoolModeLabel cfg = (if parseOnly cfg then ''disabled'' else ''failed_inserts_only'')"

definition channelUsagePct :: "int \<times> int \<Rightarrow> int" where
  "channelUsagePct = (\<lambda>(len, capacity). queueUsagePct len capacity)"

fun channelsLenCap :: "(int \<times> int) list \<Rightarrow> int \<times> int" where
  "channelsLenCap [] = (0, 0)"
| "channelsLenCap ((len, capacity) # cs) = (let (l, c) = channelsLenCap cs in (len + l, capacity + c))"

definition channelsMaxUsagePct :: "(int \<times> int) list \<Rightarrow> int" where
  "channelsMaxUsagePct cs = fold (\<lambda>c maxUsage. if channelUsagePct c > maxUsage then channelUsagePct c else maxUsage) cs 0"

lemma channelUsagePct_range: "0 \<le> l \<Longrightarrow> l \<le> c \<Longrightarrow> 0 \<le> channelUsagePct (l, c) \<and> channelUsagePct (l, c) \<le> 100"
proof -
  assume "0 \<le> l" "l \<le> c"
  moreover from this have "l * 100 div c \<le> c * 100 div c" if "0 < c"
    using that by (intro zdiv_mono1) simp_all
  ultimately show ?thesis by (auto simp: channelUsagePct_def queueUsagePct_def pos_imp_zdiv_nonneg_iff)
qed

lemma channelsMaxUsagePct_fold:
  "fold (\<lambda>c m. if channelUsagePct c > m then channelUsagePct c else m) cs m0 = Max (insert m0 (channelUsagePct ` set cs))"
proof (induction cs arbitrary: m0)
  case Nil
  then show ?case by simp
next
  case (Cons c cs)
  show ?case unfolding fold_simps Cons.IH by (cases "cs = []") (auto simp: max_def)
qed

text \<open>The fullest channel, or 0 when every channel is empty.\<close>

lemma channelsMaxUsagePct_is_max:
  "\<forall>c \<in> set cs. channelUsagePct c \<le> channelsMaxUsagePct cs" "cs = [] \<Longrightarrow> channelsMaxUsagePct cs = 0"
  unfolding channelsMaxUsagePct_def channelsMaxUsagePct_fold by simp_all

section \<open>One line\<close>

record metrics_memory =
  previousReceived :: u64
  previousPacketProcessed :: u64
  previousParsed :: u64
  previousInserted :: u64
  previousStats :: "UDPReceiverStats list"

record receiver_window =
  receiverDistribution :: "string list"
  receiverPacketsMin :: u64
  receiverPacketsMax :: u64
  receiverBatchesDelta :: u64
  receiverPacketsDelta :: u64
  receiverFullBatchesDelta :: u64
  receiverErrorsDelta :: u64
  receiverKernelDropsDelta :: u64

record metrics_window =
  rateReceived :: u64
  ratePacketProcessed :: u64
  rateParsed :: u64
  rateInserted :: u64
  perSecond :: "u64 list"
  receiverWindow :: receiver_window
  averageBatch :: rat
  fullBatchPct :: rat

definition noStats :: UDPReceiverStats where
  "noStats = \<lparr>statBatches = 0, statPackets = 0, statFullBatches = 0, statErrors = 0, statKernelDrops = 0\<rparr>"

definition noMetrics :: "nat \<Rightarrow> metrics_memory" where
  "noMetrics n =
     \<lparr>previousReceived = 0, previousPacketProcessed = 0, previousParsed = 0, previousInserted = 0,
      previousStats = replicate n noStats\<rparr>"

definition noReceivers :: receiver_window where
  "noReceivers = \<lparr>receiverDistribution = [], receiverPacketsMin = 0, receiverPacketsMax = 0, receiverBatchesDelta = 0,
     receiverPacketsDelta = 0, receiverFullBatchesDelta = 0, receiverErrorsDelta = 0, receiverKernelDropsDelta = 0\<rparr>"

text \<open>The body of the loop over the receivers.\<close>

definition addReceiver :: "nat \<times> UDPReceiverStats \<times> UDPReceiverStats \<Rightarrow> receiver_window \<Rightarrow> receiver_window" where
  "addReceiver = (\<lambda>(index, stats, previous) r.
     let packetsDelta = statPackets stats - statPackets previous in
     r\<lparr>receiverDistribution := receiverDistribution r @ [itoa (int index + 1) @ '':'' @ itoa (uint packetsDelta)],
       receiverPacketsMin := (if index = 0 \<or> packetsDelta < receiverPacketsMin r then packetsDelta else receiverPacketsMin r),
       receiverPacketsMax := (if packetsDelta > receiverPacketsMax r then packetsDelta else receiverPacketsMax r),
       receiverPacketsDelta := receiverPacketsDelta r + packetsDelta,
       receiverBatchesDelta := receiverBatchesDelta r + (statBatches stats - statBatches previous),
       receiverFullBatchesDelta := receiverFullBatchesDelta r + (statFullBatches stats - statFullBatches previous),
       receiverErrorsDelta := receiverErrorsDelta r + (statErrors stats - statErrors previous),
       receiverKernelDropsDelta := receiverKernelDropsDelta r + (statKernelDrops stats - statKernelDrops previous)\<rparr>)"

definition receiversWindow :: "UDPReceiverStats list \<Rightarrow> UDPReceiverStats list \<Rightarrow> receiver_window" where
  "receiversWindow stats previous = fold addReceiver (zip [0..<length stats] (zip stats previous)) noReceivers"

text \<open>The quotient of two counters, in floats.\<close>

definition ratioF64 :: "rat \<Rightarrow> u64 \<Rightarrow> rat" where "ratioF64 a b = roundF64 (a / f64OfUint b)"

definition metricsTurn :: "(total \<Rightarrow> u64) \<Rightarrow> UDPReceiverStats list \<Rightarrow> metrics_memory \<Rightarrow> metrics_window \<times> metrics_memory" where
  "metricsTurn loads stats prev =
     (let received = loads TotalReceived - previousReceived prev;
          processed = loads TotalPacketProcessed - previousPacketProcessed prev;
          parsed = loads TotalParsed - previousParsed prev;
          inserted = loads TotalInserted - previousInserted prev;
          r = receiversWindow stats (previousStats prev);
          seen = receiverBatchesDelta r > 0
      in (\<lparr>rateReceived = received, ratePacketProcessed = processed, rateParsed = parsed, rateInserted = inserted,
            perSecond = map (\<lambda>x. x div 10) [received, processed, parsed, inserted],
            receiverWindow = r,
            averageBatch = (if seen then ratioF64 (f64OfUint (receiverPacketsDelta r)) (receiverBatchesDelta r) else 0),
            fullBatchPct = (if seen then ratioF64 (roundF64 (f64OfUint (receiverFullBatchesDelta r) * 100)) (receiverBatchesDelta r) else 0)\<rparr>,
          \<lparr>previousReceived = loads TotalReceived, previousPacketProcessed = loads TotalPacketProcessed,
           previousParsed = loads TotalParsed, previousInserted = loads TotalInserted, previousStats = stats\<rparr>))"

text \<open>The lines of a run: the counters at each tick.\<close>

fun metricsLogger :: "((total \<Rightarrow> u64) \<times> UDPReceiverStats list) list \<Rightarrow> metrics_memory \<Rightarrow> metrics_window list" where
  "metricsLogger [] prev = []"
| "metricsLogger ((loads, stats) # ticks) prev =
     (let (w, prev) = metricsTurn loads stats prev in w # metricsLogger ticks prev)"

section \<open>The windows add up\<close>

lemma receiversWindow_sums_fold:
  assumes "length stats = length previous"
  shows "receiverPacketsDelta (fold addReceiver (zip [k..<k + length stats] (zip stats previous)) r)
    = receiverPacketsDelta r + (sum_list (map statPackets stats) - sum_list (map statPackets previous))"
  using assms
proof (induction stats previous arbitrary: k r rule: list_induct2)
  case Nil
  then show ?case by simp
next
  case (Cons s ss p ps)
  have "[k..<k + length (s # ss)] = k # [Suc k..<Suc k + length ss]" by (simp add: upt_conv_Cons del: upt_Suc)
  then show ?case using Cons.IH [of "Suc k" "addReceiver (k, s, p) r"]
    by (simp add: addReceiver_def Let_def algebra_simps del: upt_Suc)
qed

lemma receiversWindow_packets:
  "length stats = length previous
    \<Longrightarrow> receiverPacketsDelta (receiversWindow stats previous) = sum_list (map statPackets stats) - sum_list (map statPackets previous)"
  using receiversWindow_sums_fold [of stats previous 0 noReceivers] by (simp add: receiversWindow_def noReceivers_def)

text \<open>
  Over any run the printed windows add up to what the counters grew: nothing is counted twice or
  between two lines, wrap-around included.
\<close>

lemma metrics_windows_add_up:
  assumes "\<forall>(loads, stats) \<in> set ticks. length stats = length (previousStats prev)" "ticks \<noteq> []"
  shows "sum_list (map rateReceived (metricsLogger ticks prev)) = fst (last ticks) TotalReceived - previousReceived prev
    \<and> sum_list (map rateInserted (metricsLogger ticks prev)) = fst (last ticks) TotalInserted - previousInserted prev
    \<and> sum_list (map (\<lambda>w. receiverPacketsDelta (receiverWindow w)) (metricsLogger ticks prev))
        = sum_list (map statPackets (snd (last ticks))) - sum_list (map statPackets (previousStats prev))"
  using assms
proof (induction ticks prev rule: metricsLogger.induct)
  case (1 prev)
  then show ?case by simp
next
  case (2 loads stats ticks prev)
  obtain w prev' where turn: "metricsTurn loads stats prev = (w, prev')" by fastforce
  have w: "rateReceived w = loads TotalReceived - previousReceived prev" "rateInserted w = loads TotalInserted - previousInserted prev"
    "receiverPacketsDelta (receiverWindow w) = sum_list (map statPackets stats) - sum_list (map statPackets (previousStats prev))"
    "previousReceived prev' = loads TotalReceived" "previousInserted prev' = loads TotalInserted" "previousStats prev' = stats"
    using turn 2(2) by (auto simp: metricsTurn_def Let_def receiversWindow_packets)
  show ?case
  proof (cases "ticks = []")
    case True
    then show ?thesis using turn w by simp
  next
    case False
    with 2 turn w have "\<forall>(loads, stats) \<in> set ticks. length stats = length (previousStats prev')" by auto
    note rest = 2(1) [OF turn [symmetric] refl this False]
    have tele: "(a - p) + (l - a) = l - p" for a p l :: u64 by (simp add: algebra_simps)
    have "metricsLogger ((loads, stats) # ticks) prev = w # metricsLogger ticks prev'" by (simp add: turn)
    with rest False show ?thesis by (simp only: list.map sum_list_simps last.simps if_False w tele simp_thms)
  qed
qed

end
