(* ===== verification/Portable.thy ===== *)
theory Portable
  imports UdpReceiver
begin

text \<open>
  The receivers of the platforms without \<open>recvmmsg\<close> (\<open>udp_receiver_fallback.go\<close>; its \<open>ReadBatch\<close> is in
  \<open>UdpReceiver\<close>) and what the switch of \<open>main\<close> makes of them.  The two builds share the names, so these
  have a prefix; the number of a drop tracker has no meaning here.
\<close>

section \<open>One receiver\<close>

datatype portable_error = AddressNotResolved | PortableListenFailed | BPFUnsupported

definition portableReceiver :: "nat \<Rightarrow> bool \<Rightarrow> sockets \<Rightarrow> udpReceiver \<times> sockets" where
  "portableReceiver conn owns s =
     (let (buffer, h) = makeSlice udpBufferSize (store s)
      in (\<lparr>recConn = conn, ownsConn = owns, recBuffers = [buffer], dropTracker = 0\<rparr>, s\<lparr>store := h\<rparr>))"

text \<open>The flag for sharing the port is not used: a second socket on the address is up to the system.\<close>

definition portableOpen :: "bool \<Rightarrow> int \<Rightarrow> sockets \<Rightarrow> (portable_error + udpReceiver) \<times> sockets" where
  "portableOpen reusePort batchSize s =
     (let (ok, s) = sysCallOk s
      in if \<not> ok then (Inl AddressNotResolved, s)
      else let (ok, s) = sysCallOk s
      in if \<not> ok then (Inl PortableListenFailed, s)
      else let conn = length (openConns s);
               (_, s) = sysCallOk (s\<lparr>openConns := openConns s @ [True]\<rparr>);
               (r, s) = portableReceiver conn True s
      in (Inr r, s))"

definition portableClone :: "udpReceiver \<Rightarrow> int \<Rightarrow> sockets \<Rightarrow> udpReceiver \<times> sockets" where
  "portableClone r batchSize s = portableReceiver (recConn r) False s"

definition portableAttach :: "udpReceiver \<Rightarrow> int \<Rightarrow> int list \<Rightarrow> portable_error option" where
  "portableAttach r socketCount hashOffsets = Some BPFUnsupported"

definition portableObserveDrops :: "u32 \<Rightarrow> u64" where
  "portableObserveDrops v = 0"

section \<open>All receivers\<close>

fun portableOpenMany :: "nat \<Rightarrow> bool \<Rightarrow> int \<Rightarrow> udpReceiver list \<Rightarrow> sockets \<Rightarrow> (portable_error + udpReceiver list) \<times> sockets" where
  "portableOpenMany 0 reusePort batchSize rs s = (Inr rs, s)"
| "portableOpenMany (Suc n) reusePort batchSize rs s =
     (case portableOpen reusePort batchSize s of
        (Inl e, s) \<Rightarrow> (Inl e, closeUDPReceivers rs s)
      | (Inr r, s) \<Rightarrow> portableOpenMany n reusePort batchSize (rs @ [r]) s)"

fun portableCloneMany :: "nat \<Rightarrow> udpReceiver \<Rightarrow> int \<Rightarrow> udpReceiver list \<Rightarrow> sockets \<Rightarrow> udpReceiver list \<times> sockets" where
  "portableCloneMany 0 r batchSize rs s = (rs, s)"
| "portableCloneMany (Suc n) r batchSize rs s =
     (let (c, s) = portableClone r batchSize s in portableCloneMany n r batchSize (rs @ [c]) s)"

definition portableOpenReceivers :: "collectorConfig \<Rightarrow> int list \<Rightarrow> sockets \<Rightarrow> (portable_error + udpReceiver list) \<times> sockets" where
  "portableOpenReceivers cfg hashOffsets s =
     (if udpReceiveMode cfg = udpModeShared then
        (case portableOpen False (udpBatchSize cfg) s of
           (Inl e, s) \<Rightarrow> (Inl e, s)
         | (Inr r, s) \<Rightarrow>
             (let (rs, s) = portableCloneMany (nat (udpReceivers cfg - 1)) r (udpBatchSize cfg) [r] s in (Inr rs, s)))
      else if udpReceiveMode cfg = udpModeReusePort \<or> udpReceiveMode cfg = udpModeReusePortBPF then
        (case portableOpenMany (nat (udpReceivers cfg)) (udpReusePort cfg) (udpBatchSize cfg) [] s of
           (Inl e, s) \<Rightarrow> (Inl e, s)
         | (Inr rs, s) \<Rightarrow>
             (if udpReceiveMode cfg = udpModeReusePortBPF then
                (case portableAttach (rs ! 0) (int (length rs)) hashOffsets of
                   Some e \<Rightarrow> (Inl e, closeUDPReceivers rs s)
                 | None \<Rightarrow> (Inr rs, s))
              else (Inr rs, s)))
      else (Inr [], s))"

section \<open>No socket stays behind\<close>

text \<open>The open sockets are those of the receivers, which own them.\<close>

definition ownedConns :: "udpReceiver list \<Rightarrow> sockets \<Rightarrow> bool" where
  "ownedConns rs s \<longleftrightarrow>
     (\<forall>r \<in> set rs. ownsConn r \<and> recConn r < length (openConns s))
     \<and> (\<forall>i < length (openConns s). openConns s ! i \<longrightarrow> i \<in> recConn ` set rs)"

lemma closeUDPReceivers_conns:
  assumes "\<forall>r \<in> set rs. ownsConn r \<and> recConn r < length (openConns s)"
  shows "length (openConns (closeUDPReceivers rs s)) = length (openConns s)
    \<and> (\<forall>i < length (openConns s). openConns (closeUDPReceivers rs s) ! i \<longleftrightarrow> openConns s ! i \<and> i \<notin> recConn ` set rs)"
  using assms
proof (induction rs arbitrary: s)
  case Nil
  then show ?case by (simp add: closeUDPReceivers_def)
next
  case (Cons r rs)
  have "closeUDPReceivers (r # rs) s = closeUDPReceivers rs (closeUDPReceiver r s)" by (simp add: closeUDPReceivers_def)
  moreover have "openConns (closeUDPReceiver r s) = (openConns s)[recConn r := False]"
    using Cons.prems by (simp add: closeUDPReceiver_def)
  ultimately show ?case using Cons.IH [of "closeUDPReceiver r s"] Cons.prems by (auto simp: nth_list_update)
qed

lemma closed_all: "ownedConns rs s \<Longrightarrow> True \<notin> set (openConns (closeUDPReceivers rs s))"
  using closeUDPReceivers_conns [of rs s] by (auto simp: ownedConns_def in_set_conv_nth)


lemma portableReceiver_conns:
  "portableReceiver conn owns s = (r, s') \<Longrightarrow> openConns s' = openConns s \<and> recConn r = conn \<and> ownsConn r = owns"
  by (auto simp: portableReceiver_def split: prod.splits)

lemma portableOpen_owned:
  assumes "portableOpen reusePort batchSize s = (res, s')" "ownedConns rs s"
  shows "case res of Inl e \<Rightarrow> ownedConns rs s' | Inr r \<Rightarrow> ownedConns (rs @ [r]) s'"
proof -
  obtain ok1 s1 where 1: "sysCallOk s = (ok1, s1)" by fastforce
  obtain ok2 s2 where 2: "sysCallOk s1 = (ok2, s2)" by fastforce
  let ?s = "s2\<lparr>openConns := openConns s2 @ [True]\<rparr>"
  obtain ok3 s3 where 3: "sysCallOk ?s = (ok3, s3)" by fastforce
  obtain r s4 where 4: "portableReceiver (length (openConns s2)) True s3 = (r, s4)" by fastforce
  have eq: "(res, s') = (if \<not> ok1 then (Inl AddressNotResolved, s1) else if \<not> ok2 then (Inl PortableListenFailed, s2) else (Inr r, s4))"
    using assms(1) 1 2 3 4 by (cases ok1; cases ok2) (auto simp: portableOpen_def Let_def)
  have conns: "openConns s1 = openConns s" "openConns s2 = openConns s"
    using sysCallOk_conns [OF 1] sysCallOk_conns [OF 2] by simp_all
  have s4: "openConns s4 = openConns s @ [True]" "recConn r = length (openConns s)" "ownsConn r"
    using portableReceiver_conns [OF 4] sysCallOk_conns [OF 3] conns by simp_all
  have "ownedConns (rs @ [r]) s4" using assms(2) s4 by (force simp: ownedConns_def nth_append)
  with eq assms(2) conns show ?thesis by (auto simp: ownedConns_def split: if_splits)
qed

lemma portableOpenMany_owned:
  assumes "portableOpenMany n reusePort batchSize rs s = (res, s')" "ownedConns rs s"
  shows "case res of Inl e \<Rightarrow> True \<notin> set (openConns s') | Inr rs' \<Rightarrow> ownedConns rs' s' \<and> length rs' = length rs + n"
  using assms
proof (induction n arbitrary: rs s)
  case 0
  then show ?case by auto
next
  case (Suc n)
  obtain r1 s1 where o: "portableOpen reusePort batchSize s = (r1, s1)" by fastforce
  note own = portableOpen_owned [OF o Suc.prems(2)]
  show ?case
  proof (cases r1)
    case (Inl e)
    with Suc.prems(1) o own show ?thesis by (auto simp: closed_all)
  next
    case (Inr r)
    with Suc.prems(1) o have run: "portableOpenMany n reusePort batchSize (rs @ [r]) s1 = (res, s')" by simp
    from own Inr have "ownedConns (rs @ [r]) s1" by simp
    from Suc.IH [OF run this] show ?thesis by (auto split: sum.splits)
  qed
qed

text \<open>
  The portable build refuses the mode \<open>reuseport_bpf\<close>, the default one, after opening the sockets, and in that
  mode no socket stays open; the mode \<open>reuseport\<close> gives the configured number of sockets or none.
\<close>

lemma portable_reuseport_clean:
  assumes "portableOpenReceivers cfg hashOffsets s = (res, s')" "ownedConns [] s"
    and "udpReceiveMode cfg \<in> {udpModeReusePort, udpModeReusePortBPF}"
  shows "case res of
      Inl e \<Rightarrow> True \<notin> set (openConns s')
    | Inr rs \<Rightarrow> udpReceiveMode cfg = udpModeReusePort \<and> length rs = nat (udpReceivers cfg) \<and> True \<notin> set (openConns (closeUDPReceivers rs s'))"
proof -
  have shared: "udpReceiveMode cfg \<noteq> udpModeShared"
    using assms(3) by (auto simp: udpModeShared_def udpModeReusePort_def udpModeReusePortBPF_def)
  obtain r1 s1 where o: "portableOpenMany (nat (udpReceivers cfg)) (udpReusePort cfg) (udpBatchSize cfg) [] s = (r1, s1)" by fastforce
  note own = portableOpenMany_owned [OF o assms(2)]
  show ?thesis
  proof (cases r1)
    case (Inl e)
    with assms(1,3) shared o own show ?thesis by (auto simp: portableOpenReceivers_def)
  next
    case (Inr rs)
    with own have "ownedConns rs s1" "length rs = nat (udpReceivers cfg)" by simp_all
    with assms(1,3) shared o Inr show ?thesis
      by (auto simp: portableOpenReceivers_def portableAttach_def closed_all udpModeReusePort_def udpModeReusePortBPF_def split: if_splits)
  qed
qed

end
